(* ===== verification/V4_Prelude.thy ===== *)
theory V4_Prelude
  imports Main "HOL-Library.Word"
begin

text \<open>
  The vocabulary every component of the V4 engine model shares: the machine integer types of
  \<^verbatim>\<open>include/v4/vm_api.h\<close>, the outcome of a C++ function (a value, an error code returned early,
  undefined behaviour, or no answer within the fuel), sequencing of such functions, and the
  predicate \<open>keeps\<close> by which the invariants of the components are proved.
\<close>

unbundle bit_operations_syntax

section \<open>Machine integers\<close>

text \<open>
  \<open>v4_i32\<close> and \<open>v4_u32\<close> are both \<^typ>\<open>32 word\<close>: a C++ cast between them keeps the bits, and
  \<open>sint\<close> or \<open>uint\<close> says how an operation reads them. Error codes (\<open>v4_err\<close> is \<open>int\<close>) are integers.
\<close>

type_synonym u8 = "8 word"
type_synonym u16 = "16 word"
type_synonym u32 = "32 word"
type_synonym i32 = "32 word"
type_synonym v4_err = int

definition int32_min :: int where
  "int32_min = - (2 ^ 31)"

definition int32_max :: int where
  "int32_max = 2 ^ 31 - 1"

text \<open>
  The result of a signed 32-bit computation in C++17: the exact value when it is representable,
  undefined behaviour (\<^term>\<open>None\<close>) when it is not.
\<close>

definition exact32 :: "int \<Rightarrow> i32 option" where
  "exact32 x = (if int32_min \<le> x \<and> x \<le> int32_max then Some (word_of_int x) else None)"

lemma exact32_Some_iff:
  "exact32 x = Some w \<longleftrightarrow> int32_min \<le> x \<and> x \<le> int32_max \<and> w = word_of_int x"
  by (auto simp: exact32_def)

lemma sint_exact32: "exact32 x = Some w \<Longrightarrow> sint w = x"
  by (auto simp: exact32_Some_iff int32_min_def int32_max_def sint_sbintrunc' signed_take_bit_int_eq_self)

lemma sint_ge_int32_min [simp]: "int32_min \<le> sint (w :: i32)"
  using sint_ge [of w] by (simp add: int32_min_def)

lemma sint_le_int32_max [simp]: "sint (w :: i32) \<le> int32_max"
  using sint_lt [of w] by (simp add: int32_max_def)

section \<open>Outcomes\<close>

text \<open>
  Why a run has no defined continuation. The source is C++17 without \<^verbatim>\<open>-fwrapv\<close>, so signed overflow
  is undefined; the CI runs the undefined-behaviour sanitizer.
\<close>

datatype ub =
    SignedOverflow      \<comment> \<open>signed arithmetic whose exact value is not an \<open>int32_t\<close>\<close>
  | ShiftUndefined      \<comment> \<open>left shift of a negative or too large signed value\<close>
  | OutOfBounds         \<comment> \<open>access outside the object a pointer points into\<close>
  | Indeterminate       \<comment> \<open>a local variable read before it is written\<close>
  | AssertFailed        \<comment> \<open>\<open>assert\<close> in a build without \<open>NDEBUG\<close>\<close>

text \<open>
  \<open>Ret a s\<close>: the function goes on with value \<open>a\<close>. \<open>Fail e s\<close>: an inner call returned the error code
  \<open>e\<close>, which the source passes on by \<^verbatim>\<open>if (v4_err e = ...) return e;\<close>. \<open>Undef\<close>: undefined behaviour.
  \<open>Timeout\<close>: the fuel of the model ran out, no statement about the code.
\<close>

datatype ('s, 'a) res = Ret 'a 's | Fail v4_err 's | Undef ub | Timeout

type_synonym ('s, 'a) act = "'s \<Rightarrow> ('s, 'a) res"

definition bnd :: "('s, 'a) act \<Rightarrow> ('a \<Rightarrow> ('s, 'b) act) \<Rightarrow> ('s, 'b) act" where
  "bnd m f = (\<lambda>s. case m s of
      Ret a s' \<Rightarrow> f a s'
    | Fail e s' \<Rightarrow> Fail e s'
    | Undef u \<Rightarrow> Undef u
    | Timeout \<Rightarrow> Timeout)"

text \<open>The result of a C++ function that returns a \<open>v4_err\<close>: 0 when it reached its end.\<close>

definition code_of :: "('s, 'a) act \<Rightarrow> ('s, v4_err) act" where
  "code_of m = (\<lambda>s. case m s of
      Ret a s' \<Rightarrow> Ret 0 s'
    | Fail e s' \<Rightarrow> Ret e s'
    | Undef u \<Rightarrow> Undef u
    | Timeout \<Rightarrow> Timeout)"

text \<open>The result of a C++ function with a value of its own, which returns error codes in its place.\<close>

definition returning :: "('s, int) act \<Rightarrow> ('s, int) act" where
  "returning m = (\<lambda>s. case m s of Fail e s' \<Rightarrow> Ret e s' | r \<Rightarrow> r)"

text \<open>\<open>if (v4_err e = f()) return e;\<close> for a function modelled by its code.\<close>

definition check :: "('s, v4_err) act \<Rightarrow> ('s, unit) act" where
  "check m = bnd m (\<lambda>e s. if e \<noteq> 0 then Fail e s else Ret () s)"

text \<open>
  A public function that starts with \<^verbatim>\<open>if (!vm) return e;\<close>: the null pointer is \<^term>\<open>None\<close>.
\<close>

definition null_checked :: "'a \<Rightarrow> ('s, 'a) act \<Rightarrow> ('s option, 'a) act" where
  "null_checked e m = (\<lambda>vm. case vm of
      None \<Rightarrow> Ret e None
    | Some s \<Rightarrow> (case m s of
          Ret a s' \<Rightarrow> Ret a (Some s')
        | Fail c s' \<Rightarrow> Fail c (Some s')
        | Undef u \<Rightarrow> Undef u
        | Timeout \<Rightarrow> Timeout))"

lemma null_checked_None [simp]: "null_checked e m None = Ret e None"
  and null_checked_Ret [simp]: "m s = Ret a s' \<Longrightarrow> null_checked e m (Some s) = Ret a (Some s')"
  by (simp_all add: null_checked_def)

lemma bnd_Ret [simp]: "m s = Ret a s' \<Longrightarrow> bnd m f s = f a s'"
  and bnd_Fail [simp]: "m s = Fail e s' \<Longrightarrow> bnd m f s = Fail e s'"
  and bnd_Undef [simp]: "m s = Undef u \<Longrightarrow> bnd m f s = Undef u"
  and bnd_Timeout [simp]: "m s = Timeout \<Longrightarrow> bnd m f s = Timeout"
  by (simp_all add: bnd_def)

lemma bnd_eq_Ret_iff:
  "bnd m f s = Ret b t \<longleftrightarrow> (\<exists>a s'. m s = Ret a s' \<and> f a s' = Ret b t)"
  by (auto simp: bnd_def split: res.splits)

lemma bnd_assoc: "bnd (bnd m f) g = bnd m (\<lambda>a. bnd (f a) g)"
  by (auto simp: bnd_def fun_eq_iff split: res.splits)

section \<open>Invariants of actions\<close>

text \<open>
  \<open>keeps I U m\<close>: started in a state with \<open>I\<close>, the action \<open>m\<close> ends, by a value or by an error code,
  in a state with \<open>I\<close> again, and the only undefined behaviour it can show is in \<open>U\<close>.
\<close>

definition keeps :: "('s \<Rightarrow> bool) \<Rightarrow> ub set \<Rightarrow> ('s, 'a) act \<Rightarrow> bool" where
  "keeps I U m \<longleftrightarrow> (\<forall>s. I s \<longrightarrow>
      (\<forall>a s'. m s = Ret a s' \<longrightarrow> I s') \<and>
      (\<forall>e s'. m s = Fail e s' \<longrightarrow> I s') \<and>
      (\<forall>u. m s = Undef u \<longrightarrow> u \<in> U))"

named_theorems keeps_intros \<open>actions that keep the invariant\<close>

lemma keepsI [case_names Ret Fail Undef]:
  assumes "\<And>s a s'. I s \<Longrightarrow> m s = Ret a s' \<Longrightarrow> I s'"
    and "\<And>s e s'. I s \<Longrightarrow> m s = Fail e s' \<Longrightarrow> I s'"
    and "\<And>s u. I s \<Longrightarrow> m s = Undef u \<Longrightarrow> u \<in> U"
  shows "keeps I U m"
  using assms unfolding keeps_def by blast

lemma keeps_Ret: "keeps I U m \<Longrightarrow> I s \<Longrightarrow> m s = Ret a s' \<Longrightarrow> I s'"
  and keeps_Fail: "keeps I U m \<Longrightarrow> I s \<Longrightarrow> m s = Fail e s' \<Longrightarrow> I s'"
  and keeps_Undef: "keeps I U m \<Longrightarrow> I s \<Longrightarrow> m s = Undef u \<Longrightarrow> u \<in> U"
  unfolding keeps_def by blast+

lemma keeps_outcome:
  assumes "\<And>s. I s \<Longrightarrow> \<exists>t. I t \<and> ((\<exists>a. m s = Ret a t) \<or> (\<exists>e. m s = Fail e t))"
  shows "keeps I U m"
proof (rule keepsI)
  fix s a t assume "I s" and "m s = Ret a t"
  with assms [OF \<open>I s\<close>] show "I t" by auto
next
  fix s e t assume "I s" and "m s = Fail e t"
  with assms [OF \<open>I s\<close>] show "I t" by auto
next
  fix s u assume "I s" and "m s = Undef u"
  with assms [OF \<open>I s\<close>] show "u \<in> U" by auto
qed

lemma keeps_returns:
  assumes "\<And>s. I s \<Longrightarrow> \<exists>r t. m s = Ret r t \<and> I t"
  shows "keeps I U m"
  by (rule keeps_outcome) (use assms in blast)

lemma keeps_bnd [keeps_intros]:
  assumes m: "keeps I U m" and f: "\<And>a. keeps I U (f a)"
  shows "keeps I U (bnd m f)"
proof (rule keepsI)
  fix s b t assume "I s" and "bnd m f s = Ret b t"
  then obtain a s' where "m s = Ret a s'" and "f a s' = Ret b t"
    by (auto simp: bnd_def split: res.splits)
  with \<open>I s\<close> show "I t" by (blast intro: keeps_Ret [OF m] keeps_Ret [OF f])
next
  fix s e t assume "I s" and "bnd m f s = Fail e t"
  then consider "m s = Fail e t" | a s' where "m s = Ret a s'" "f a s' = Fail e t"
    by (auto simp: bnd_def split: res.splits)
  then show "I t"
    using \<open>I s\<close> by cases (blast intro: keeps_Ret [OF m] keeps_Fail [OF m] keeps_Fail [OF f])+
next
  fix s u assume "I s" and "bnd m f s = Undef u"
  then consider "m s = Undef u" | a s' where "m s = Ret a s'" "f a s' = Undef u"
    by (auto simp: bnd_def split: res.splits)
  then show "u \<in> U"
    using \<open>I s\<close> by cases (blast intro: keeps_Ret [OF m] keeps_Undef [OF m] keeps_Undef [OF f])+
qed

lemma keeps_Ret_act [keeps_intros]: "keeps I U (Ret a)"
  and keeps_Fail_act [keeps_intros]: "keeps I U (Fail e)"
  and keeps_Timeout_act [keeps_intros]: "keeps I U (\<lambda>s. Timeout)"
  by (simp_all add: keeps_def)

lemma keeps_Undef_act [keeps_intros]: "u \<in> U \<Longrightarrow> keeps I U (\<lambda>s. Undef u)"
  by (simp add: keeps_def)

lemma keeps_code_of [keeps_intros]:
  assumes m: "keeps I U m" shows "keeps I U (code_of m)"
proof (rule keepsI)
  fix s a t assume "I s" and "code_of m s = Ret a t"
  then consider b where "m s = Ret b t" | e where "m s = Fail e t"
    by (auto simp: code_of_def split: res.splits)
  then show "I t"
    using \<open>I s\<close> by cases (blast intro: keeps_Ret [OF m] keeps_Fail [OF m])+
next
  fix s e t assume "I s" and "code_of m s = Fail e t"
  then show "I t" by (simp add: code_of_def split: res.splits)
next
  fix s u assume "I s" and "code_of m s = Undef u"
  then have "m s = Undef u" by (simp add: code_of_def split: res.splits)
  then show "u \<in> U" using \<open>I s\<close> by (blast intro: keeps_Undef [OF m])
qed

lemma keeps_returning [keeps_intros]:
  assumes m: "keeps I U m" shows "keeps I U (returning m)"
proof (rule keepsI)
  fix s a t assume "I s" and "returning m s = Ret a t"
  then consider "m s = Ret a t" | "m s = Fail a t"
    by (auto simp: returning_def split: res.splits)
  then show "I t"
    using \<open>I s\<close> by cases (blast intro: keeps_Ret [OF m] keeps_Fail [OF m])+
next
  fix s e t assume "I s" and "returning m s = Fail e t"
  then show "I t" by (simp add: returning_def split: res.splits)
next
  fix s u assume "I s" and "returning m s = Undef u"
  then have "m s = Undef u" by (simp add: returning_def split: res.splits)
  then show "u \<in> U" using \<open>I s\<close> by (blast intro: keeps_Undef [OF m])
qed

lemma keeps_if [keeps_intros]:
  "(b \<Longrightarrow> keeps I U m) \<Longrightarrow> (\<not> b \<Longrightarrow> keeps I U m') \<Longrightarrow> keeps I U (if b then m else m')"
  by simp

lemma keeps_check [keeps_intros]:
  assumes m: "keeps I U m" shows "keeps I U (check m)"
  unfolding check_def by (rule keeps_bnd [OF m]) (simp add: keeps_def)

lemma keeps_weaken: "keeps I U m \<Longrightarrow> U \<subseteq> V \<Longrightarrow> keeps I V m"
  unfolding keeps_def by blast

section \<open>Arrays\<close>

text \<open>\<open>memcpy(dst, src, n * sizeof *dst)\<close> between two arrays, both of at least \<open>n\<close> elements.\<close>

definition blit :: "'a list \<Rightarrow> nat \<Rightarrow> 'a list \<Rightarrow> 'a list" where
  "blit src n dst = take n src @ drop n dst"

lemma length_blit [simp]:
  "n \<le> length src \<Longrightarrow> n \<le> length dst \<Longrightarrow> length (blit src n dst) = length dst"
  by (simp add: blit_def)

lemma take_blit [simp]: "n \<le> length src \<Longrightarrow> take n (blit src n dst) = take n src"
  by (simp add: blit_def)

text \<open>The last of the first \<open>n\<close> elements of an array.\<close>

lemma take_snoc:
  assumes "n \<le> length A" and "take n A = xs @ [v]"
  shows "0 < n" and "A ! (n - 1) = v" and "take (n - 1) A = xs"
proof -
  have n: "n = Suc (length xs)"
    using arg_cong [OF assms(2), of length] assms(1) by simp
  then show "0 < n" by simp
  show "A ! (n - 1) = v"
    using assms(2) n by (metis diff_Suc_1 lessI nth_append_length nth_take)
  show "take (n - 1) A = xs"
    using arg_cong [OF assms(2), of "take (n - 1)"] n by simp
qed

lemma take_Suc_update:
  "i < length xs \<Longrightarrow> take (Suc i) (xs[i := x]) = take i xs @ [x]"
  by (simp add: take_Suc_conv_app_nth)

text \<open>A loop over indices that stops at the first one with a property.\<close>

lemma find_upt_Some_iff: "find P [0..<n] = Some i \<longleftrightarrow> i < n \<and> P i \<and> (\<forall>j < i. \<not> P j)"
  by (auto simp: find_Some_iff nth_append)

lemma find_upt_None_iff: "find P [0..<n] = None \<longleftrightarrow> (\<forall>i < n. \<not> P i)"
  by (auto simp: find_None_iff)

end
