(* ===== verification/V4_Errors.thy ===== *)
theory V4_Errors
  imports V4_Prelude
begin

text \<open>
  The error codes of \<^verbatim>\<open>include/v4/errors.def\<close>: the enumeration \<open>Err\<close> with its values, and \<open>err_str\<close>
  of \<^verbatim>\<open>include/v4/errors.hpp\<close>, which the panic diagnostics print.
\<close>

datatype Err =
    OK | TruncatedLiteral | TruncatedJump | JumpOutOfRange | FellOffEnd | DivByZero | Unaligned
| OobMemory | StackOverflow | StackUnderflow | InvalidArg | DictionaryFull | InvalidWordIdx
| TaskLimit | MsgQueueFull | NoMessage | NoMemory | UnknownOp

text \<open>\<open>static_cast<v4_err>(Err::name)\<close>, the macro \<open>V4_ERR\<close>.\<close>

fun V4_ERR :: "Err \<Rightarrow> v4_err" where
  "V4_ERR OK = 0"
| "V4_ERR TruncatedLiteral = - 1"
| "V4_ERR TruncatedJump = - 2"
| "V4_ERR JumpOutOfRange = - 3"
| "V4_ERR FellOffEnd = - 10"
| "V4_ERR DivByZero = - 11"
| "V4_ERR Unaligned = - 12"
| "V4_ERR OobMemory = - 13"
| "V4_ERR StackOverflow = - 14"
| "V4_ERR StackUnderflow = - 15"
| "V4_ERR InvalidArg = - 16"
| "V4_ERR DictionaryFull = - 17"
| "V4_ERR InvalidWordIdx = - 18"
| "V4_ERR TaskLimit = - 20"
| "V4_ERR MsgQueueFull = - 21"
| "V4_ERR NoMessage = - 22"
| "V4_ERR NoMemory = - 23"
| "V4_ERR UnknownOp = - 99"

definition all_errs :: "Err list" where
  "all_errs = [
     OK, TruncatedLiteral, TruncatedJump, JumpOutOfRange, FellOffEnd, DivByZero, Unaligned,
     OobMemory, StackOverflow, StackUnderflow, InvalidArg, DictionaryFull, InvalidWordIdx,
     TaskLimit, MsgQueueFull, NoMessage, NoMemory, UnknownOp]"

fun err_msg :: "Err \<Rightarrow> string" where
  "err_msg OK = ''ok''"
| "err_msg TruncatedLiteral = ''literal truncated''"
| "err_msg TruncatedJump = ''jump truncated''"
| "err_msg JumpOutOfRange = ''jump out of range''"
| "err_msg FellOffEnd = ''fell off end''"
| "err_msg DivByZero = ''division by zero''"
| "err_msg Unaligned = ''unaligned access''"
| "err_msg OobMemory = ''out of bounds memory''"
| "err_msg StackOverflow = ''stack overflow''"
| "err_msg StackUnderflow = ''stack underflow''"
| "err_msg InvalidArg = ''invalid argument''"
| "err_msg DictionaryFull = ''dictionary full''"
| "err_msg InvalidWordIdx = ''invalid word index''"
| "err_msg TaskLimit = ''task limit reached''"
| "err_msg MsgQueueFull = ''message queue full''"
| "err_msg NoMessage = ''no message available''"
| "err_msg NoMemory = ''out of memory''"
| "err_msg UnknownOp = ''unknown opcode''"

text \<open>\<open>err_str\<close> switches on an arbitrary code cast to the enumeration, with a default.\<close>

definition err_str :: "v4_err \<Rightarrow> string" where
  "err_str e = (case find (\<lambda>x. V4_ERR x = e) all_errs of
      Some x \<Rightarrow> err_msg x
    | None \<Rightarrow> ''unknown error'')"

lemma set_all_errs [simp]: "x \<in> set all_errs"
  by (cases x) (simp_all add: all_errs_def)

lemma V4_ERR_inject [simp]: "V4_ERR x = V4_ERR y \<longleftrightarrow> x = y"
  by (cases x; cases y) simp_all

lemma V4_ERR_eq_0_iff [simp]: "V4_ERR x = 0 \<longleftrightarrow> x = OK"
  by (cases x) simp_all

lemma V4_ERR_nonpos: "V4_ERR x \<le> 0"
  by (cases x) simp_all

lemma find_unique:
  assumes "x \<in> set xs" and "\<And>y. y \<in> set xs \<Longrightarrow> P y \<longleftrightarrow> y = x"
  shows "find P xs = Some x"
  using assms by (induction xs) auto

lemma find_err [simp]: "find (\<lambda>x. x = e) all_errs = Some e"
  by (rule find_unique) simp_all

lemma err_str_V4_ERR: "err_str (V4_ERR e) = err_msg e"
  by (simp add: err_str_def)

lemma err_str_unknown: "e \<notin> range V4_ERR \<Longrightarrow> err_str e = ''unknown error''"
  by (auto simp: err_str_def find_None_iff split: option.split)
    (metis (mono_tags, lifting) find_Some_iff rangeI)

end
