(* ===== verification/V4_Opcodes.thy ===== *)
theory V4_Opcodes
  imports V4_Prelude
begin

text \<open>
  The instruction set of \<^verbatim>\<open>include/v4/opcodes.def\<close>: the enumeration \<open>v4::Op\<close> of
  \<^verbatim>\<open>include/v4/opcodes.hpp\<close> with its byte values, the kind of immediate operand each instruction
  takes, and the table \<open>kPrimitiveTable\<close> generated from the same file. \<open>decode\<close> is the cast of a
  fetched byte to \<open>v4::Op\<close> as the interpreter's switch sees it: \<^term>\<open>None\<close> for a byte of no opcode.
\<close>

datatype (plugins only:) Op =
      Op_LIT | Op_DUP | Op_DROP | Op_SWAP | Op_OVER | Op_ADD | Op_SUB | Op_MUL | Op_DIV
  | Op_MOD | Op_DIVU | Op_MODU | Op_INC | Op_DEC | Op_EQ | Op_NE | Op_LT | Op_LE | Op_GT
  | Op_GE | Op_LTU | Op_LEU | Op_AND | Op_OR | Op_XOR | Op_INVERT | Op_SHL | Op_SHR | Op_SAR
  | Op_LOAD | Op_STORE | Op_LOAD8U | Op_LOAD16U | Op_STORE8 | Op_STORE16 | Op_LOAD8S
  | Op_LOAD16S | Op_JMP | Op_JZ | Op_JNZ | Op_SELECT | Op_CALL | Op_RET | Op_SYS | Op_TOR
  | Op_FROMR | Op_RFETCH | Op_LIT0 | Op_LIT1 | Op_LITN1 | Op_LIT_U8 | Op_LIT_I8 | Op_LIT_I16
  | Op_LGET | Op_LSET | Op_LTEE | Op_LGET0 | Op_LGET1 | Op_LSET0 | Op_LSET1 | Op_LINC | Op_LDEC
  | Op_TASK_SPAWN | Op_TASK_EXIT | Op_TASK_SLEEP | Op_TASK_YIELD | Op_CRITICAL_ENTER
  | Op_CRITICAL_EXIT | Op_TASK_SEND | Op_TASK_RECEIVE | Op_TASK_RECEIVE_BLOCKING | Op_TASK_SELF
  | Op_TASK_COUNT

datatype PrimKind = NoImm | Imm8 | Imm16 | Imm32 | Rel16 | Idx16

primrec op_byte :: "Op \<Rightarrow> u8" where
  "op_byte Op_LIT = 0x00"
| "op_byte Op_DUP = 0x01"
| "op_byte Op_DROP = 0x02"
| "op_byte Op_SWAP = 0x03"
| "op_byte Op_OVER = 0x04"
| "op_byte Op_ADD = 0x10"
| "op_byte Op_SUB = 0x11"
| "op_byte Op_MUL = 0x12"
| "op_byte Op_DIV = 0x13"
| "op_byte Op_MOD = 0x14"
| "op_byte Op_DIVU = 0x15"
| "op_byte Op_MODU = 0x16"
| "op_byte Op_INC = 0x17"
| "op_byte Op_DEC = 0x18"
| "op_byte Op_EQ = 0x20"
| "op_byte Op_NE = 0x21"
| "op_byte Op_LT = 0x22"
| "op_byte Op_LE = 0x23"
| "op_byte Op_GT = 0x24"
| "op_byte Op_GE = 0x25"
| "op_byte Op_LTU = 0x26"
| "op_byte Op_LEU = 0x27"
| "op_byte Op_AND = 0x28"
| "op_byte Op_OR = 0x29"
| "op_byte Op_XOR = 0x2a"
| "op_byte Op_INVERT = 0x2b"
| "op_byte Op_SHL = 0x2c"
| "op_byte Op_SHR = 0x2d"
| "op_byte Op_SAR = 0x2e"
| "op_byte Op_LOAD = 0x30"
| "op_byte Op_STORE = 0x31"
| "op_byte Op_LOAD8U = 0x32"
| "op_byte Op_LOAD16U = 0x33"
| "op_byte Op_STORE8 = 0x34"
| "op_byte Op_STORE16 = 0x35"
| "op_byte Op_LOAD8S = 0x36"
| "op_byte Op_LOAD16S = 0x37"
| "op_byte Op_JMP = 0x40"
| "op_byte Op_JZ = 0x41"
| "op_byte Op_JNZ = 0x42"
| "op_byte Op_SELECT = 0x43"
| "op_byte Op_CALL = 0x50"
| "op_byte Op_RET = 0x51"
| "op_byte Op_SYS = 0x60"
| "op_byte Op_TOR = 0x70"
| "op_byte Op_FROMR = 0x71"
| "op_byte Op_RFETCH = 0x72"
| "op_byte Op_LIT0 = 0x73"
| "op_byte Op_LIT1 = 0x74"
| "op_byte Op_LITN1 = 0x75"
| "op_byte Op_LIT_U8 = 0x76"
| "op_byte Op_LIT_I8 = 0x77"
| "op_byte Op_LIT_I16 = 0x78"
| "op_byte Op_LGET = 0x79"
| "op_byte Op_LSET = 0x7a"
| "op_byte Op_LTEE = 0x7b"
| "op_byte Op_LGET0 = 0x7c"
| "op_byte Op_LGET1 = 0x7d"
| "op_byte Op_LSET0 = 0x7e"
| "op_byte Op_LSET1 = 0x7f"
| "op_byte Op_LINC = 0x80"
| "op_byte Op_LDEC = 0x81"
| "op_byte Op_TASK_SPAWN = 0x90"
| "op_byte Op_TASK_EXIT = 0x91"
| "op_byte Op_TASK_SLEEP = 0x92"
| "op_byte Op_TASK_YIELD = 0x93"
| "op_byte Op_CRITICAL_ENTER = 0x94"
| "op_byte Op_CRITICAL_EXIT = 0x95"
| "op_byte Op_TASK_SEND = 0x96"
| "op_byte Op_TASK_RECEIVE = 0x97"
| "op_byte Op_TASK_RECEIVE_BLOCKING = 0x98"
| "op_byte Op_TASK_SELF = 0x99"
| "op_byte Op_TASK_COUNT = 0x9a"

definition all_ops :: "Op list" where
  "all_ops = [
     Op_LIT, Op_DUP, Op_DROP, Op_SWAP, Op_OVER, Op_ADD, Op_SUB, Op_MUL, Op_DIV, Op_MOD,
     Op_DIVU, Op_MODU, Op_INC, Op_DEC, Op_EQ, Op_NE, Op_LT, Op_LE, Op_GT, Op_GE, Op_LTU,
     Op_LEU, Op_AND, Op_OR, Op_XOR, Op_INVERT, Op_SHL, Op_SHR, Op_SAR, Op_LOAD, Op_STORE,
     Op_LOAD8U, Op_LOAD16U, Op_STORE8, Op_STORE16, Op_LOAD8S, Op_LOAD16S, Op_JMP, Op_JZ,
     Op_JNZ, Op_SELECT, Op_CALL, Op_RET, Op_SYS, Op_TOR, Op_FROMR, Op_RFETCH, Op_LIT0, Op_LIT1,
     Op_LITN1, Op_LIT_U8, Op_LIT_I8, Op_LIT_I16, Op_LGET, Op_LSET, Op_LTEE, Op_LGET0, Op_LGET1,
     Op_LSET0, Op_LSET1, Op_LINC, Op_LDEC, Op_TASK_SPAWN, Op_TASK_EXIT, Op_TASK_SLEEP,
     Op_TASK_YIELD, Op_CRITICAL_ENTER, Op_CRITICAL_EXIT, Op_TASK_SEND, Op_TASK_RECEIVE,
     Op_TASK_RECEIVE_BLOCKING, Op_TASK_SELF, Op_TASK_COUNT]"

definition decode :: "u8 \<Rightarrow> Op option" where
  "decode b = find (\<lambda>x. op_byte x = b) all_ops"

fun prim_kind :: "Op \<Rightarrow> PrimKind" where
  "prim_kind Op_LIT = Imm32"
| "prim_kind Op_JMP = Rel16"
| "prim_kind Op_JZ = Rel16"
| "prim_kind Op_JNZ = Rel16"
| "prim_kind Op_CALL = Idx16"
| "prim_kind Op_LIT_U8 = Imm8"
| "prim_kind Op_LIT_I8 = Imm8"
| "prim_kind Op_LIT_I16 = Imm16"
| "prim_kind Op_LGET = Imm8"
| "prim_kind Op_LSET = Imm8"
| "prim_kind Op_LTEE = Imm8"
| "prim_kind Op_LINC = Imm8"
| "prim_kind Op_LDEC = Imm8"
| "prim_kind _ = NoImm"

definition kPrimitiveTable :: "(string \<times> u8 \<times> PrimKind) list" where
  "kPrimitiveTable = [
     (''LIT'', 0x00, Imm32), (''DUP'', 0x01, NoImm), (''DROP'', 0x02, NoImm),
     (''SWAP'', 0x03, NoImm), (''OVER'', 0x04, NoImm), (''ADD'', 0x10, NoImm),
     (''SUB'', 0x11, NoImm), (''MUL'', 0x12, NoImm), (''DIV'', 0x13, NoImm),
     (''MOD'', 0x14, NoImm), (''DIVU'', 0x15, NoImm), (''MODU'', 0x16, NoImm),
     (''INC'', 0x17, NoImm), (''DEC'', 0x18, NoImm), (''EQ'', 0x20, NoImm),
     (''NE'', 0x21, NoImm), (''LT'', 0x22, NoImm), (''LE'', 0x23, NoImm),
     (''GT'', 0x24, NoImm), (''GE'', 0x25, NoImm), (''LTU'', 0x26, NoImm),
     (''LEU'', 0x27, NoImm), (''AND'', 0x28, NoImm), (''OR'', 0x29, NoImm),
     (''XOR'', 0x2a, NoImm), (''INVERT'', 0x2b, NoImm), (''SHL'', 0x2c, NoImm),
     (''SHR'', 0x2d, NoImm), (''SAR'', 0x2e, NoImm), (''LOAD'', 0x30, NoImm),
     (''STORE'', 0x31, NoImm), (''LOAD8U'', 0x32, NoImm), (''LOAD16U'', 0x33, NoImm),
     (''STORE8'', 0x34, NoImm), (''STORE16'', 0x35, NoImm), (''LOAD8S'', 0x36, NoImm),
     (''LOAD16S'', 0x37, NoImm), (''JMP'', 0x40, Rel16), (''JZ'', 0x41, Rel16),
     (''JNZ'', 0x42, Rel16), (''SELECT'', 0x43, NoImm), (''CALL'', 0x50, Idx16),
     (''RET'', 0x51, NoImm), (''SYS'', 0x60, NoImm), (''TOR'', 0x70, NoImm),
     (''FROMR'', 0x71, NoImm), (''RFETCH'', 0x72, NoImm), (''LIT0'', 0x73, NoImm),
     (''LIT1'', 0x74, NoImm), (''LITN1'', 0x75, NoImm), (''LIT_U8'', 0x76, Imm8),
     (''LIT_I8'', 0x77, Imm8), (''LIT_I16'', 0x78, Imm16), (''LGET'', 0x79, Imm8),
     (''LSET'', 0x7a, Imm8), (''LTEE'', 0x7b, Imm8), (''LGET0'', 0x7c, NoImm),
     (''LGET1'', 0x7d, NoImm), (''LSET0'', 0x7e, NoImm), (''LSET1'', 0x7f, NoImm),
     (''LINC'', 0x80, Imm8), (''LDEC'', 0x81, Imm8), (''TASK_SPAWN'', 0x90, NoImm),
     (''TASK_EXIT'', 0x91, NoImm), (''TASK_SLEEP'', 0x92, NoImm),
     (''TASK_YIELD'', 0x93, NoImm), (''CRITICAL_ENTER'', 0x94, NoImm),
     (''CRITICAL_EXIT'', 0x95, NoImm), (''TASK_SEND'', 0x96, NoImm),
     (''TASK_RECEIVE'', 0x97, NoImm), (''TASK_RECEIVE_BLOCKING'', 0x98, NoImm),
     (''TASK_SELF'', 0x99, NoImm), (''TASK_COUNT'', 0x9a, NoImm)]"

text \<open>The number of operand bytes that follow the opcode byte, by kind.\<close>

fun imm_size :: "PrimKind \<Rightarrow> nat" where
  "imm_size NoImm = 0"
| "imm_size Imm8 = 1"
| "imm_size Imm16 = 2"
| "imm_size Imm32 = 4"
| "imm_size Rel16 = 2"
| "imm_size Idx16 = 2"

text \<open>The task instructions, compiled in only when \<open>V4_ENABLE_TASKS\<close> is set.\<close>

fun is_task_op :: "Op \<Rightarrow> bool" where
  "is_task_op Op_TASK_SPAWN = True"
| "is_task_op Op_TASK_EXIT = True"
| "is_task_op Op_TASK_SLEEP = True"
| "is_task_op Op_TASK_YIELD = True"
| "is_task_op Op_CRITICAL_ENTER = True"
| "is_task_op Op_CRITICAL_EXIT = True"
| "is_task_op Op_TASK_SEND = True"
| "is_task_op Op_TASK_RECEIVE = True"
| "is_task_op Op_TASK_RECEIVE_BLOCKING = True"
| "is_task_op Op_TASK_SELF = True"
| "is_task_op Op_TASK_COUNT = True"
| "is_task_op _ = False"

section \<open>Bytes and opcodes\<close>

lemma set_all_ops [simp]: "x \<in> set all_ops"
  by (cases x) (simp_all add: all_ops_def)

lemma distinct_op_bytes: "distinct (map op_byte all_ops)"
  unfolding all_ops_def by simp

lemma op_byte_inject [simp]: "op_byte x = op_byte y \<longleftrightarrow> x = y"
proof
  assume "op_byte x = op_byte y"
  moreover have "inj_on op_byte (set all_ops)"
    using distinct_op_bytes by (simp add: distinct_map)
  ultimately show "x = y"
    by (simp add: inj_on_def)
qed simp

lemma decode_Some_iff: "decode b = Some x \<longleftrightarrow> op_byte x = b"
proof
  assume "decode b = Some x"
  then show "op_byte x = b" by (auto simp: decode_def find_Some_iff)
next
  assume b: "op_byte x = b"
  have "\<exists>y. decode b = Some y"
    using b set_all_ops [of x] by (cases "decode b") (auto simp: decode_def find_None_iff)
  then obtain y where y: "decode b = Some y" ..
  then have "op_byte y = b" by (auto simp: decode_def find_Some_iff)
  with b have "y = x" by (metis op_byte_inject)
  with y show "decode b = Some x" by simp
qed

lemma decode_op_byte [simp]: "decode (op_byte x) = Some x"
  by (simp add: decode_Some_iff)

lemma decode_None_iff: "decode b = None \<longleftrightarrow> b \<notin> range op_byte"
  by (auto simp: decode_Some_iff image_iff simp flip: not_Some_eq)

lemma decode_simps [simp]:
  "decode 0x00 = Some Op_LIT"
  "decode 0x01 = Some Op_DUP"
  "decode 0x02 = Some Op_DROP"
  "decode 0x03 = Some Op_SWAP"
  "decode 0x04 = Some Op_OVER"
  "decode 0x10 = Some Op_ADD"
  "decode 0x11 = Some Op_SUB"
  "decode 0x12 = Some Op_MUL"
  "decode 0x13 = Some Op_DIV"
  "decode 0x14 = Some Op_MOD"
  "decode 0x15 = Some Op_DIVU"
  "decode 0x16 = Some Op_MODU"
  "decode 0x17 = Some Op_INC"
  "decode 0x18 = Some Op_DEC"
  "decode 0x20 = Some Op_EQ"
  "decode 0x21 = Some Op_NE"
  "decode 0x22 = Some Op_LT"
  "decode 0x23 = Some Op_LE"
  "decode 0x24 = Some Op_GT"
  "decode 0x25 = Some Op_GE"
  "decode 0x26 = Some Op_LTU"
  "decode 0x27 = Some Op_LEU"
  "decode 0x28 = Some Op_AND"
  "decode 0x29 = Some Op_OR"
  "decode 0x2a = Some Op_XOR"
  "decode 0x2b = Some Op_INVERT"
  "decode 0x2c = Some Op_SHL"
  "decode 0x2d = Some Op_SHR"
  "decode 0x2e = Some Op_SAR"
  "decode 0x30 = Some Op_LOAD"
  "decode 0x31 = Some Op_STORE"
  "decode 0x32 = Some Op_LOAD8U"
  "decode 0x33 = Some Op_LOAD16U"
  "decode 0x34 = Some Op_STORE8"
  "decode 0x35 = Some Op_STORE16"
  "decode 0x36 = Some Op_LOAD8S"
  "decode 0x37 = Some Op_LOAD16S"
  "decode 0x40 = Some Op_JMP"
  "decode 0x41 = Some Op_JZ"
  "decode 0x42 = Some Op_JNZ"
  "decode 0x43 = Some Op_SELECT"
  "decode 0x50 = Some Op_CALL"
  "decode 0x51 = Some Op_RET"
  "decode 0x60 = Some Op_SYS"
  "decode 0x70 = Some Op_TOR"
  "decode 0x71 = Some Op_FROMR"
  "decode 0x72 = Some Op_RFETCH"
  "decode 0x73 = Some Op_LIT0"
  "decode 0x74 = Some Op_LIT1"
  "decode 0x75 = Some Op_LITN1"
  "decode 0x76 = Some Op_LIT_U8"
  "decode 0x77 = Some Op_LIT_I8"
  "decode 0x78 = Some Op_LIT_I16"
  "decode 0x79 = Some Op_LGET"
  "decode 0x7a = Some Op_LSET"
  "decode 0x7b = Some Op_LTEE"
  "decode 0x7c = Some Op_LGET0"
  "decode 0x7d = Some Op_LGET1"
  "decode 0x7e = Some Op_LSET0"
  "decode 0x7f = Some Op_LSET1"
  "decode 0x80 = Some Op_LINC"
  "decode 0x81 = Some Op_LDEC"
  "decode 0x90 = Some Op_TASK_SPAWN"
  "decode 0x91 = Some Op_TASK_EXIT"
  "decode 0x92 = Some Op_TASK_SLEEP"
  "decode 0x93 = Some Op_TASK_YIELD"
  "decode 0x94 = Some Op_CRITICAL_ENTER"
  "decode 0x95 = Some Op_CRITICAL_EXIT"
  "decode 0x96 = Some Op_TASK_SEND"
  "decode 0x97 = Some Op_TASK_RECEIVE"
  "decode 0x98 = Some Op_TASK_RECEIVE_BLOCKING"
  "decode 0x99 = Some Op_TASK_SELF"
  "decode 0x9a = Some Op_TASK_COUNT"
  by (simp_all only: decode_Some_iff op_byte.simps)

text \<open>Opcodes are compared and ordered by their byte values.\<close>

instantiation Op :: equal
begin

definition equal_Op :: "Op \<Rightarrow> Op \<Rightarrow> bool" where
  "equal_Op x y \<longleftrightarrow> op_byte x = op_byte y"

instance
  by standard (simp add: equal_Op_def)

end

instantiation Op :: linorder
begin

definition less_eq_Op :: "Op \<Rightarrow> Op \<Rightarrow> bool" where
  "less_eq_Op x y \<longleftrightarrow> op_byte x \<le> op_byte y"

definition less_Op :: "Op \<Rightarrow> Op \<Rightarrow> bool" where
  "less_Op x y \<longleftrightarrow> op_byte x < op_byte y"

instance
proof
  fix x y :: Op
  assume "x \<le> y" and "y \<le> x"
  then have "op_byte x = op_byte y"
    by (simp add: less_eq_Op_def)
  then show "x = y" by simp
qed (auto simp: less_eq_Op_def less_Op_def less_le_not_le simp del: op_byte_inject)

end

end
