(* ===== verification/V4_Arena.thy ===== *)
theory V4_Arena
  imports V4_Prelude
begin

text \<open>
  The bump allocator of \<^verbatim>\<open>include/v4/arena.h\<close> and \<^verbatim>\<open>src/arena.cpp\<close>. The managed buffer is the list of the
  bytes it holds; a pointer into it is its offset. A null arena or a null buffer is \<^term>\<open>None\<close>.
  \<open>size_t\<close> has 64 bits and its arithmetic wraps around.
\<close>

type_synonym size_t = "64 word"

record V4Arena =
  buffer :: "u8 list option"
  arena_size :: size_t
  arena_used :: size_t

definition v4_arena_init :: "V4Arena option \<Rightarrow> u8 list option \<Rightarrow> size_t \<Rightarrow> V4Arena option" where
  "v4_arena_init arena buf sz = (case arena of
      None \<Rightarrow> None
    | Some a \<Rightarrow> Some \<lparr>buffer = buf, arena_size = sz, arena_used = 0\<rparr>)"

definition v4_arena_alloc ::
    "V4Arena option \<Rightarrow> size_t \<Rightarrow> size_t \<Rightarrow> size_t option \<times> V4Arena option" where
  "v4_arena_alloc arena bytes align = (case arena of
      None \<Rightarrow> (None, None)
    | Some a \<Rightarrow>
        if buffer a = None \<or> bytes = 0 then (None, Some a)
        else if align = 0 \<or> align AND (align - 1) \<noteq> 0 then (None, Some a)
        else (let current = arena_used a;
                  aligned = (current + align - 1) AND NOT (align - 1)
              in if aligned + bytes > arena_size a then (None, Some a)
                 else (Some aligned, Some (a\<lparr>arena_used := aligned + bytes\<rparr>))))"

definition v4_arena_reset :: "V4Arena option \<Rightarrow> V4Arena option" where
  "v4_arena_reset arena = map_option (\<lambda>a. a\<lparr>arena_used := 0\<rparr>) arena"

definition v4_arena_used :: "V4Arena option \<Rightarrow> size_t" where
  "v4_arena_used arena = (case arena of None \<Rightarrow> 0 | Some a \<Rightarrow> arena_used a)"

definition v4_arena_available :: "V4Arena option \<Rightarrow> size_t" where
  "v4_arena_available arena = (case arena of None \<Rightarrow> 0 | Some a \<Rightarrow> arena_size a - arena_used a)"

section \<open>Powers of two and rounding up\<close>

lemma pow2_int: "0 < n \<Longrightarrow> (n::int) AND (n - 1) = 0 \<Longrightarrow> \<exists>k. n = 2 ^ k"
proof (induction "nat n" arbitrary: n rule: less_induct)
  case less
  show ?case
  proof (cases "even n")
    case True
    then obtain m where m: "n = 2 * m" by (rule evenE)
    have "(2 * m - 1) div 2 = m - 1" by presburger
    then have "n AND (n - 1) = 2 * (m AND (m - 1))"
      using m by (subst and_int_rec) simp
    with less.prems m have "0 < m" and "m AND (m - 1) = 0" by simp_all
    with less.hyps [of m] m obtain k where "m = 2 ^ k" by auto
    with m have "n = 2 ^ Suc k" by simp
    then show ?thesis ..
  next
    case False
    then obtain m where m: "n = 2 * m + 1" by (rule oddE)
    have "n AND (n - 1) = 2 * m"
      using m by (subst and_int_rec) simp
    with less.prems m have "n = 2 ^ 0" by simp
    then show ?thesis ..
  qed
qed

lemma unat_2p:
  assumes "k < 64" shows "unat ((2 :: size_t) ^ k) = 2 ^ k"
proof -
  have "(2::nat) ^ k < 2 ^ 64" using assms by (intro power_strict_increasing) simp_all
  then have "take_bit 64 ((2::nat) ^ k) = 2 ^ k"
    by (rule take_bit_nat_eq_self)
  then show ?thesis
    using unsigned_of_nat [where 'b = 64 and 'a = nat, of "2 ^ k"] by simp
qed

lemma pow2_word:
  fixes align :: size_t
  assumes "align \<noteq> 0" and "align AND (align - 1) = 0"
  shows "\<exists>k<64. align = 2 ^ k"
proof -
  have pos: "0 < uint align"
    using assms(1) by (simp add: word_neq_0_conv word_less_def)
  have "uint (align - 1) = uint align - 1"
    using pos by (simp add: uint_sub_if')
  moreover have "uint (align AND (align - 1)) = 0"
    using assms(2) by simp
  ultimately have "uint align AND (uint align - 1) = 0"
    by (simp add: uint_and)
  then obtain k where k: "uint align = 2 ^ k"
    using pow2_int [OF pos] by auto
  have "(2::int) ^ k < 2 ^ 64"
    using uint_lt2p [of align] k by simp
  then have "k < 64" by (rule power_less_imp_less_exp [rotated]) simp
  moreover have "align = 2 ^ k"
  proof (rule unsigned_word_eqI)
    have "unat align = 2 ^ k"
      using nat_power_eq [of 2 k] by (simp only: unat_eq_nat_uint k) simp
    then show "unat align = unat (2 ^ k :: size_t)"
      by (simp only: unat_2p [OF \<open>k < 64\<close>])
  qed
  ultimately show ?thesis by blast
qed

lemma unat_and_not_low:
  fixes x :: size_t
  assumes "k < 64"
  shows "unat (x AND NOT (2 ^ k - 1)) = unat x - unat x mod 2 ^ k"
proof -
  have "x AND NOT (2 ^ k - 1) = push_bit k (drop_bit k x)"
    by (rule bit_eqI) (auto simp flip: mask_eq_decr_exp simp: bit_simps)
  also have "\<dots> = x - take_bit k x"
    using bits_ident [of k x] by (metis add_diff_cancel)
  finally have eq: "x AND NOT (2 ^ k - 1) = x - take_bit k x" .
  have tk: "unat (take_bit k x) = unat x mod 2 ^ k"
    by (metis take_bit_eq_mod unsigned_take_bit_eq)
  moreover have "take_bit k x \<le> x"
    by (simp add: word_le_nat_alt tk)
  ultimately show ?thesis
    using eq by (simp add: unat_sub)
qed

text \<open>
  \<open>(current + align - 1) & ~(align - 1)\<close> is the least multiple of a power of two \<open>align\<close> from
  \<open>current\<close> on, when \<open>current + align - 1\<close> does not wrap around.
\<close>

definition round_up :: "nat \<Rightarrow> nat \<Rightarrow> nat" where
  "round_up c a = (c + a - 1) - (c + a - 1) mod a"

lemma round_up_dvd: "a dvd round_up c a"
  unfolding round_up_def by (rule dvd_minus_mod)

lemma round_up_bounds:
  assumes "0 < a" shows "c \<le> round_up c a" and "round_up c a < c + a"
proof -
  have "(c + a - 1) mod a \<le> a - 1"
    using mod_less_divisor [OF assms, of "c + a - 1"] by linarith
  then show "c \<le> round_up c a" unfolding round_up_def using assms by linarith
  show "round_up c a < c + a" unfolding round_up_def using assms by linarith
qed

lemma round_up_least:
  assumes "0 < a" and "a dvd x" and "c \<le> x"
  shows "round_up c a \<le> x"
proof (rule ccontr)
  assume "\<not> round_up c a \<le> x"
  moreover obtain i j where "round_up c a = a * i" and "x = a * j"
    using round_up_dvd assms(2) by (meson dvdE)
  ultimately have "x + a \<le> round_up c a"
    by (metis Suc_leI add.commute linorder_not_le mult_Suc_right mult_le_mono2 mult_less_cancel1)
  with round_up_bounds(2) [OF assms(1), of c] assms(3) show False by linarith
qed

definition no_wrap :: "V4Arena \<Rightarrow> size_t \<Rightarrow> size_t \<Rightarrow> bool" where
  "no_wrap a bytes align \<longleftrightarrow> unat (arena_used a) + unat align + unat bytes \<le> 2 ^ 64"

lemma aligned_offset:
  assumes nz: "align \<noteq> 0" and pow: "align AND (align - 1) = 0"
    and nw: "unat (current :: size_t) + unat align \<le> 2 ^ 64"
  shows "unat ((current + align - 1) AND NOT (align - 1)) = round_up (unat current) (unat align)"
proof -
  obtain k where k: "k < 64" "align = 2 ^ k" using pow2_word [OF nz pow] by blast
  have al: "unat align = 2 ^ k" using k by (simp add: unat_2p)
  have pos: "0 < unat align" using al by simp
  have "unat (align - 1) = unat align - 1"
    using nz by (simp add: unat_minus_one)
  then have sum: "unat (current + (align - 1)) = unat current + unat align - 1"
    using nw pos by (simp add: unat_word_ariths(1))
  then have sum': "unat (current + align - 1) = unat current + unat align - 1"
    by (simp add: add_diff_eq)
  have "unat ((current + align - 1) AND NOT (align - 1)) =
      unat (current + align - 1) - unat (current + align - 1) mod 2 ^ k"
    using unat_and_not_low [OF k(1)] by (simp only: k(2))
  then show ?thesis
    by (simp only: sum' round_up_def al)
qed

section \<open>The allocator\<close>

definition pow2 :: "size_t \<Rightarrow> bool" where
  "pow2 align \<longleftrightarrow> align \<noteq> 0 \<and> align AND (align - 1) = 0"

text \<open>The contract: the first free offset that is a multiple of the alignment, if the block fits.\<close>

definition alloc_spec :: "V4Arena \<Rightarrow> nat \<Rightarrow> nat \<Rightarrow> nat option" where
  "alloc_spec a bytes align =
    (let off = round_up (unat (arena_used a)) align
     in if off + bytes \<le> unat (arena_size a) then Some off else None)"

lemma alloc_end:
  assumes "pow2 align" and "no_wrap a bytes align"
  defines "aligned \<equiv> (arena_used a + align - 1) AND NOT (align - 1)"
  shows "unat aligned = round_up (unat (arena_used a)) (unat align)"
    and "unat (aligned + bytes) = unat aligned + unat bytes"
proof -
  have nz: "align \<noteq> 0" and pow: "align AND (align - 1) = 0"
    using assms(1) by (simp_all add: pow2_def)
  have "unat (arena_used a) + unat align \<le> 2 ^ 64"
    using assms(2) by (simp add: no_wrap_def)
  then show al: "unat aligned = round_up (unat (arena_used a)) (unat align)"
    unfolding aligned_def by (rule aligned_offset [OF nz pow])
  have "0 < unat align" using nz by (simp add: unat_gt_0)
  then have "unat aligned + unat bytes < 2 ^ 64"
    using round_up_bounds(2) [of "unat align" "unat (arena_used a)"] assms(2) al
    by (simp add: no_wrap_def)
  then show "unat (aligned + bytes) = unat aligned + unat bytes"
    by (simp add: unat_word_ariths(1))
qed

lemma alloc_refines_spec:
  assumes "buffer a \<noteq> None" and "bytes \<noteq> 0" and "pow2 align" and "no_wrap a bytes align"
  shows "v4_arena_alloc (Some a) bytes align =
    (case alloc_spec a (unat bytes) (unat align) of
       None \<Rightarrow> (None, Some a)
     | Some off \<Rightarrow> (Some (word_of_nat off), Some (a\<lparr>arena_used := word_of_nat (off + unat bytes)\<rparr>)))"
proof -
  define aligned where "aligned = (arena_used a + align - 1) AND NOT (align - 1)"
  have off: "unat aligned = round_up (unat (arena_used a)) (unat align)"
    and sum: "unat (aligned + bytes) = unat aligned + unat bytes"
    unfolding aligned_def using alloc_end [OF assms(3,4)] by blast+
  have "aligned + bytes > arena_size a \<longleftrightarrow> \<not> (unat aligned + unat bytes \<le> unat (arena_size a))"
    using sum by (simp add: word_less_nat_alt not_le)
  moreover have "aligned = word_of_nat (unat aligned)"
    and "aligned + bytes = word_of_nat (unat aligned + unat bytes)"
    by simp_all
  ultimately show ?thesis
    using assms(1-3) off
    by (simp add: v4_arena_alloc_def alloc_spec_def pow2_def Let_def flip: aligned_def)
qed

lemma alloc_refused:
  "v4_arena_alloc None bytes align = (None, None)"
  "buffer a = None \<or> bytes = 0 \<or> \<not> pow2 align \<Longrightarrow> v4_arena_alloc (Some a) bytes align = (None, Some a)"
  by (auto simp: v4_arena_alloc_def pow2_def)

lemma alloc_frame:
  "v4_arena_alloc (Some a) bytes align = (r, a') \<Longrightarrow>
    \<exists>u. a' = Some (a\<lparr>arena_used := u\<rparr>) \<and> (r = None \<longrightarrow> u = arena_used a)"
  by (auto simp: v4_arena_alloc_def Let_def split: if_splits intro: exI [of _ "arena_used a"])

text \<open>A granted block is aligned, lies behind all earlier ones and within the buffer size.\<close>

lemma alloc_sound:
  assumes alloc: "v4_arena_alloc (Some a) bytes align = (Some off, Some a')"
    and nw: "no_wrap a bytes align"
  shows "unat align dvd unat off"
    and "unat (arena_used a) \<le> unat off"
    and "unat off + unat bytes = unat (arena_used a')"
    and "unat (arena_used a') \<le> unat (arena_size a)"
proof -
  have "\<not> (buffer a = None \<or> bytes = 0 \<or> \<not> pow2 align)"
    using alloc alloc_refused(2) [of a bytes align] by (metis option.distinct(1) prod.inject)
  then have valid: "buffer a \<noteq> None" "bytes \<noteq> 0" "pow2 align"
    by (simp_all only: de_Morgan_disj not_not simp_thms)
  then have pos: "0 < unat align" by (simp add: pow2_def unat_gt_0)
  obtain x where x: "alloc_spec a (unat bytes) (unat align) = Some x"
    and off: "off = word_of_nat x" and a': "a' = a\<lparr>arena_used := word_of_nat (x + unat bytes)\<rparr>"
    using alloc alloc_refines_spec [OF valid nw] by (auto split: option.splits)
  have le: "x + unat bytes \<le> unat (arena_size a)" and x_eq: "x = round_up (unat (arena_used a)) (unat align)"
    using x by (auto simp: alloc_spec_def Let_def split: if_splits)
  have "unat (arena_size a) < 2 ^ 64" using unsigned_less [where ?'a = nat, of "arena_size a"] by simp
  with le have "unat off = x" and "unat (arena_used a') = x + unat bytes"
    by (simp_all add: off a' unat_of_nat del: of_nat_add)
  then show "unat align dvd unat off" and "unat (arena_used a) \<le> unat off"
    and "unat off + unat bytes = unat (arena_used a')"
    and "unat (arena_used a') \<le> unat (arena_size a)"
    using le x_eq round_up_dvd round_up_bounds(1) [OF pos] by simp_all
qed

text \<open>A sequence of requests (size and alignment), and the blocks (offset and size) granted.\<close>

fun arena_run :: "V4Arena option \<Rightarrow> (size_t \<times> size_t) list \<Rightarrow> (nat \<times> nat) list" where
  "arena_run arena [] = []"
| "arena_run arena ((bytes, align) # rs) =
    (case v4_arena_alloc arena bytes align of
       (None, arena') \<Rightarrow> arena_run arena' rs
     | (Some off, arena') \<Rightarrow> (unat off, unat bytes) # arena_run arena' rs)"

definition before :: "nat \<times> nat \<Rightarrow> nat \<times> nat \<Rightarrow> bool" where
  "before x y \<longleftrightarrow> fst x + snd x \<le> fst y"

lemma arena_run_blocks:
  assumes "unat (arena_used a) \<le> unat (arena_size a)"
    and "\<And>b al. (b, al) \<in> set rs \<Longrightarrow> unat (arena_size a) + unat al + unat b \<le> 2 ^ 64"
  shows "sorted_wrt before (arena_run (Some a) rs) \<and>
    (\<forall>x \<in> set (arena_run (Some a) rs).
       unat (arena_used a) \<le> fst x \<and> fst x + snd x \<le> unat (arena_size a))"
  using assms
proof (induction rs arbitrary: a)
  case Nil
  then show ?case by simp
next
  case (Cons req rs)
  obtain b al where req: "req = (b, al)" by (cases req)
  obtain r a1 where alloc: "v4_arena_alloc (Some a) b al = (r, a1)" by (cases "v4_arena_alloc (Some a) b al")
  obtain u where a1: "a1 = Some (a\<lparr>arena_used := u\<rparr>)" and keep: "r = None \<longrightarrow> u = arena_used a"
    using alloc_frame [OF alloc] by blast
  let ?a = "a\<lparr>arena_used := u\<rparr>"
  have nw: "no_wrap a b al"
    using Cons.prems(1) Cons.prems(2) [of b al] req by (simp add: no_wrap_def)
  have IH: "unat u \<le> unat (arena_size a) \<Longrightarrow> sorted_wrt before (arena_run (Some ?a) rs) \<and>
      (\<forall>x \<in> set (arena_run (Some ?a) rs). unat u \<le> fst x \<and> fst x + snd x \<le> unat (arena_size a))"
    using Cons.IH [of ?a] Cons.prems(2) req by simp
  show ?case
  proof (cases r)
    case None
    then show ?thesis
      using IH Cons.prems(1) keep alloc a1 req by simp
  next
    case (Some off)
    have snd: "unat (arena_used a) \<le> unat off" "unat off + unat b = unat u" "unat u \<le> unat (arena_size a)"
      using alloc_sound [OF _ nw, of off ?a] alloc Some a1 by simp_all
    have run: "arena_run (Some a) (req # rs) = (unat off, unat b) # arena_run (Some ?a) rs"
      using alloc Some a1 req by simp
    have IH1: "sorted_wrt before (arena_run (Some ?a) rs)"
      and IH2: "\<forall>x \<in> set (arena_run (Some ?a) rs). unat u \<le> fst x \<and> fst x + snd x \<le> unat (arena_size a)"
      using IH [OF snd(3)] by blast+
    have "\<forall>x \<in> set (arena_run (Some ?a) rs). before (unat off, unat b) x"
      using IH2 snd(2) by (simp add: before_def)
    moreover have "\<forall>x \<in> set (arena_run (Some ?a) rs).
        unat (arena_used a) \<le> fst x \<and> fst x + snd x \<le> unat (arena_size a)"
      using IH2 snd by fastforce
    ultimately show ?thesis
      unfolding run using IH1 snd by simp
  qed
qed

end
