(* ===== verification/V4_State.thy ===== *)
theory V4_State
  imports V4_Errors V4_Opcodes V4_Arena
begin

text \<open>
  The data of the engine: \<open>Word\<close> and \<open>Vm\<close> of \<^verbatim>\<open>include/v4/internal/vm.h\<close>, the task, scheduler and message
  structures of \<^verbatim>\<open>include/v4/internal/task.hpp\<close>, the MMIO windows and the configuration of
  \<^verbatim>\<open>include/v4/vm_api.h\<close>, and \<open>V4PanicInfo\<close> of \<^verbatim>\<open>include/v4/panic.h\<close>.

  Pointers. A pointer into one of the VM's own arrays is an offset (\<open>sp\<close> and \<open>rp\<close> from the bottom of
  their stacks, \<open>fp\<close> an offset into \<open>RS\<close>); a nullable pointer is an \<open>option\<close>; a pointer to a byte buffer of
  the embedder (bytecode, RAM) is the list of the bytes of that buffer, so an access past its end can
  be seen. Comparisons of such pointers are comparisons of offsets. Buffers of bytecode and RAM are
  taken not to overlap. A \<^verbatim>\<open>void *\<close> user pointer is a number.

  The world. Code the engine calls but does not contain (MMIO callbacks, the panic handler, the SYS
  handler, the task platform, \<open>malloc\<close>) acts on a state of type \<open>'d\<close>, about which the model knows nothing.
  Callbacks that get only a user pointer act on the world, not on the VM.
\<close>

section \<open>Words of the dictionary\<close>

text \<open>A word's name is a copy made by \<open>strdup\<close>, or lies in the arena's buffer at an offset.\<close>

datatype name_ptr = NullName | HeapName string | ArenaName size_t

record Word =
  w_name :: name_ptr
  w_code :: "u8 list option"
  w_code_len :: int

definition null_word :: Word where
  "null_word = \<lparr>w_name = NullName, w_code = None, w_code_len = 0\<rparr>"

section \<open>MMIO windows\<close>

text \<open>
  A read callback gets the user pointer, the address and the current contents of \<open>*out\<close>, and returns
  its code, the contents of \<open>*out\<close> afterwards and the world; a write callback gets the value.
\<close>

type_synonym 'd mmio_read = "nat \<Rightarrow> u32 \<Rightarrow> u32 \<Rightarrow> 'd \<Rightarrow> v4_err \<times> u32 \<times> 'd"
type_synonym 'd mmio_write = "nat \<Rightarrow> u32 \<Rightarrow> u32 \<Rightarrow> 'd \<Rightarrow> v4_err \<times> 'd"

record 'd V4_Mmio =
  mmio_base :: u32
  mmio_size :: u32
  read32 :: "'d mmio_read option"
  write32 :: "'d mmio_write option"
  mmio_user :: nat

definition zero_mmio :: "'d V4_Mmio" where
  "zero_mmio = \<lparr>mmio_base = 0, mmio_size = 0, read32 = None, write32 = None, mmio_user = 0\<rparr>"

record 'd VmConfig =
  cfg_mem :: "u8 list option"
  cfg_mem_size :: u32
  cfg_mmio :: "'d V4_Mmio list option"
  cfg_mmio_count :: int
  cfg_arena :: "V4Arena option"

section \<open>Tasks and messages\<close>

datatype v4_task_state_t = DEAD | READY | RUNNING | BLOCKED

text \<open>
  A task's own stack: a block of \<open>cap\<close> elements from \<open>malloc\<close>, of which a prefix has been written
  (the rest is indeterminate).
\<close>

record stack_block =
  cap :: nat
  written :: "i32 list"

record v4_task_t =
  t_word_idx :: u16
  t_pc :: u16
  ds_base :: "stack_block option"
  rs_base :: "stack_block option"
  ds_depth :: u8
  rs_depth :: u8
  t_state :: v4_task_state_t
  t_priority :: u8
  sleep_until_tick :: u32
  ds_size :: u8
  rs_size :: u8
  exec_count :: u16

definition V4_MAX_TASKS :: nat where "V4_MAX_TASKS = 8"

definition V4_MSG_QUEUE_SIZE :: nat where "V4_MSG_QUEUE_SIZE = 16"

record v4_scheduler_t =
  tasks :: "v4_task_t list"
  current_task :: u8
  task_count :: u8
  tick_count :: u32
  time_slice_ms :: u32
  context_switches :: u32
  preemptions :: u32
  critical_nesting :: u8

record v4_message_t =
  src_task :: u8
  dst_task :: u8
  msg_type :: u8
  m_flags :: u8
  m_data :: i32

record v4_msg_queue_t =
  ring :: "v4_message_t list"
  read_idx :: u8
  write_idx :: u8
  msg_count :: u8

text \<open>The structures after \<open>memset(.., 0, ..)\<close>; \<open>V4_TASK_STATE_DEAD\<close> is 0.\<close>

definition zero_task :: v4_task_t where
  "zero_task = \<lparr>t_word_idx = 0, t_pc = 0, ds_base = None, rs_base = None, ds_depth = 0, rs_depth = 0,
     t_state = DEAD, t_priority = 0, sleep_until_tick = 0, ds_size = 0, rs_size = 0, exec_count = 0\<rparr>"

definition zero_scheduler :: v4_scheduler_t where
  "zero_scheduler = \<lparr>tasks = replicate V4_MAX_TASKS zero_task, current_task = 0, task_count = 0,
     tick_count = 0, time_slice_ms = 0, context_switches = 0, preemptions = 0, critical_nesting = 0\<rparr>"

definition zero_message :: v4_message_t where
  "zero_message = \<lparr>src_task = 0, dst_task = 0, msg_type = 0, m_flags = 0, m_data = 0\<rparr>"

definition zero_msg_queue :: v4_msg_queue_t where
  "zero_msg_queue = \<lparr>ring = replicate V4_MSG_QUEUE_SIZE zero_message, read_idx = 0, write_idx = 0,
     msg_count = 0\<rparr>"

section \<open>Panic information\<close>

record V4PanicInfo =
  error_code :: v4_err
  panic_pc :: u32
  tos :: i32
  nos :: i32
  info_ds_depth :: u8
  info_rs_depth :: u8
  has_stack_data :: bool
  info_stack :: "i32 list"

type_synonym 'd panic_handler = "nat \<Rightarrow> V4PanicInfo \<Rightarrow> 'd \<Rightarrow> 'd"

text \<open>The lines the panic diagnostics print, by what they show.\<close>

datatype panic_line =
    Banner
  | ErrorLine string v4_err
  | PcLine u32
  | DataStackLine u8 "i32 option" "i32 option"
  | ReturnStackLine u8
  | CallTrace
  | TraceEntry nat u32
  | MoreEntries int
  | Rule

section \<open>The virtual machine\<close>

definition DS_SIZE :: nat where "DS_SIZE = 256"

definition RS_SIZE :: nat where "RS_SIZE = 64"

definition V4_MAX_MMIO :: nat where "V4_MAX_MMIO = 16"

definition V4_MAX_WORDS :: nat where "V4_MAX_WORDS = 256"

record 'd Vm =
  DS :: "i32 list"
  RS :: "i32 list"
  sp :: nat
  rp :: nat
  fp :: "nat option"
  mem :: "u8 list option"
  mem_size :: u32
  mmio :: "'d V4_Mmio list"
  mmio_count :: int
  last_err :: int
  words :: "Word list"
  word_count :: int
  arena :: "V4Arena option"
  boot_cfg_snapshot :: "'d VmConfig option"
  scheduler :: v4_scheduler_t
  msg_queue :: v4_msg_queue_t
  panic_handler :: "'d panic_handler option"
  panic_user_data :: nat

text \<open>A VM together with the world its callbacks act on and the standard output.\<close>

record 'd machine = "'d Vm" +
  world :: 'd
  console :: "panic_line list"

text \<open>
  What the engine is built with and linked to: the build options \<open>V4_ENABLE_TASKS\<close>,
  \<open>V4_PANIC_DIAGNOSTICS\<close> and \<open>NDEBUG\<close>, the functions of \<^verbatim>\<open>include/v4/task_platform.h\<close>, whether
  \<open>malloc\<close> (and \<open>strdup\<close>) grants a request, and the global \<open>g_sys_handler\<close> of \<^verbatim>\<open>src/core.cpp\<close>.
\<close>

type_synonym 'd sys_handler = "'d machine \<Rightarrow> i32 \<Rightarrow> i32 \<Rightarrow> i32 \<Rightarrow> i32 \<Rightarrow> i32 \<times> 'd machine"

record 'd env =
  enable_tasks :: bool
  panic_diagnostics :: bool
  ndebug :: bool
  get_tick_ms :: "'d \<Rightarrow> u32 \<times> 'd"
  platform_critical_enter :: "'d \<Rightarrow> 'd"
  platform_critical_exit :: "'d \<Rightarrow> 'd"
  malloc_ok :: "nat \<Rightarrow> 'd \<Rightarrow> bool \<times> 'd"
  g_sys_handler :: "'d sys_handler option"

text \<open>\<open>v4_register_sys_handler\<close> sets the global.\<close>

definition v4_register_sys_handler :: "'d sys_handler option \<Rightarrow> 'd env \<Rightarrow> 'd env" where
  "v4_register_sys_handler handler E = E\<lparr>g_sys_handler := handler\<rparr>"

text \<open>A call of an external function that changes only the world.\<close>

definition on_world :: "('d \<Rightarrow> 'a \<times> 'd) \<Rightarrow> ('d machine, 'a) act" where
  "on_world f s = (case f (world s) of (a, w) \<Rightarrow> Ret a (s\<lparr>world := w\<rparr>))"

section \<open>Well-formed machines\<close>

text \<open>
  What the engine keeps true of its own data (array sizes, stack pointers, counters), and what it
  relies on the embedder for: every registered word's buffer has at least \<open>code_len\<close> bytes, the RAM
  buffer at least \<open>mem_size\<close> bytes, and the arena buffer at least \<open>size\<close> bytes.
\<close>

definition wf_stacks :: "('d, 'm) Vm_scheme \<Rightarrow> bool" where
  "wf_stacks s \<longleftrightarrow> length (DS s) = DS_SIZE \<and> sp s \<le> DS_SIZE \<and> length (RS s) = RS_SIZE \<and> rp s \<le> RS_SIZE"

definition wf_buffer :: "u8 list option \<Rightarrow> nat \<Rightarrow> bool" where
  "wf_buffer buf n \<longleftrightarrow> (case buf of None \<Rightarrow> True | Some b \<Rightarrow> n \<le> length b)"

definition wf_mem :: "('d, 'm) Vm_scheme \<Rightarrow> bool" where
  "wf_mem s \<longleftrightarrow> wf_buffer (mem s) (unat (mem_size s)) \<and>
     length (mmio s) = V4_MAX_MMIO \<and> 0 \<le> mmio_count s \<and> mmio_count s \<le> int V4_MAX_MMIO"

definition wf_word :: "Word \<Rightarrow> bool" where
  "wf_word w \<longleftrightarrow> (case w_code w of None \<Rightarrow> False | Some c \<Rightarrow> 0 < w_code_len w \<and> w_code_len w \<le> int (length c))"

text \<open>An object has less than \<open>2 ^ 63\<close> bytes, the largest \<open>ptrdiff_t\<close>.\<close>

definition wf_arena :: "V4Arena option \<Rightarrow> bool" where
  "wf_arena ar \<longleftrightarrow> (case ar of None \<Rightarrow> True | Some a \<Rightarrow>
     unat (arena_used a) \<le> unat (arena_size a) \<and> unat (arena_size a) < 2 ^ 63 \<and>
     wf_buffer (buffer a) (unat (arena_size a)))"

definition wf_dict :: "('d, 'm) Vm_scheme \<Rightarrow> bool" where
  "wf_dict s \<longleftrightarrow> length (words s) = V4_MAX_WORDS \<and> 0 \<le> word_count s \<and> word_count s \<le> int V4_MAX_WORDS \<and>
     list_all wf_word (take (nat (word_count s)) (words s)) \<and> wf_arena (arena s)"

definition wf_queue :: "v4_msg_queue_t \<Rightarrow> bool" where
  "wf_queue q \<longleftrightarrow> length (ring q) = V4_MSG_QUEUE_SIZE \<and> unat (read_idx q) < V4_MSG_QUEUE_SIZE \<and>
     unat (write_idx q) < V4_MSG_QUEUE_SIZE \<and> unat (msg_count q) \<le> V4_MSG_QUEUE_SIZE"

definition wf_block :: "stack_block option \<Rightarrow> nat \<Rightarrow> bool" where
  "wf_block b depth \<longleftrightarrow> (case b of None \<Rightarrow> True | Some blk \<Rightarrow>
     depth \<le> length (written blk) \<and> length (written blk) \<le> cap blk)"

definition wf_task :: "v4_task_t \<Rightarrow> bool" where
  "wf_task t \<longleftrightarrow> wf_block (ds_base t) (unat (ds_depth t)) \<and> wf_block (rs_base t) (unat (rs_depth t)) \<and>
     unat (rs_depth t) \<le> RS_SIZE"

definition wf_sched :: "v4_scheduler_t \<Rightarrow> bool" where
  "wf_sched sc \<longleftrightarrow> length (tasks sc) = V4_MAX_TASKS \<and> unat (current_task sc) < V4_MAX_TASKS \<and>
     list_all wf_task (tasks sc)"

definition wf_vm :: "('d, 'm) Vm_scheme \<Rightarrow> bool" where
  "wf_vm s \<longleftrightarrow> wf_stacks s \<and> wf_mem s \<and> wf_dict s \<and> wf_queue (msg_queue s) \<and> wf_sched (scheduler s)"

lemma wf_zero_queue [simp]: "wf_queue zero_msg_queue"
  by (simp add: wf_queue_def zero_msg_queue_def V4_MSG_QUEUE_SIZE_def)

lemma wf_zero_task [simp]: "wf_task zero_task"
  by (simp add: wf_task_def zero_task_def wf_block_def)

lemma wf_zero_scheduler [simp]: "wf_sched zero_scheduler"
  by (simp add: wf_sched_def zero_scheduler_def V4_MAX_TASKS_def list_all_iff)

lemma on_world_keeps [keeps_intros]:
  "(\<And>s w. I s \<Longrightarrow> I (s\<lparr>world := w\<rparr>)) \<Longrightarrow> keeps I U (on_world f)"
  by (auto simp: keeps_def on_world_def split: prod.splits)

lemma wf_vm_world [simp]: "wf_vm (s\<lparr>world := w\<rparr>) = wf_vm s"
  and wf_vm_console [simp]: "wf_vm (s\<lparr>console := c\<rparr>) = wf_vm s"
  by (simp_all add: wf_vm_def wf_stacks_def wf_mem_def wf_dict_def)

end
