(* ===== verification/V4_Panic.thy ===== *)
theory V4_Panic
  imports V4_State
begin

text \<open>
  Stack inspection (\<open>vm_ds_depth_public\<close> and its kin at the end of \<^verbatim>\<open>src/core.cpp\<close>) and the panic
  handler of \<^verbatim>\<open>src/panic.cpp\<close>, which reads the stacks through them. A panic prints the diagnostics,
  calls the embedder's handler and returns the error code it was given.
\<close>

section \<open>Stack inspection\<close>

definition vm_ds_depth_public :: "('d, 'm) Vm_scheme option \<Rightarrow> int" where
  "vm_ds_depth_public vm = (case vm of None \<Rightarrow> 0 | Some s \<Rightarrow> int (sp s))"

definition vm_ds_peek_public :: "('d, 'm) Vm_scheme option \<Rightarrow> int \<Rightarrow> i32" where
  "vm_ds_peek_public vm index_from_top = (case vm of None \<Rightarrow> 0 | Some s \<Rightarrow>
     (let depth = int (sp s)
      in if index_from_top < 0 \<or> index_from_top \<ge> depth then 0
         else DS s ! nat (int (sp s) - 1 - index_from_top)))"

text \<open>The output array of the caller has at least \<open>max_count\<close> elements.\<close>

definition vm_ds_copy_to_array ::
    "('d, 'm) Vm_scheme option \<Rightarrow> i32 list option \<Rightarrow> int \<Rightarrow> int \<times> i32 list option" where
  "vm_ds_copy_to_array vm out_array max_count = (case (vm, out_array) of
     (Some s, Some out) \<Rightarrow>
       if max_count \<le> 0 then (0, out_array)
       else (let depth = int (sp s); copy_count = (if depth < max_count then depth else max_count)
             in (copy_count, Some (blit (DS s) (nat copy_count) out)))
   | _ \<Rightarrow> (0, out_array))"

definition vm_rs_depth_public :: "('d, 'm) Vm_scheme option \<Rightarrow> int" where
  "vm_rs_depth_public vm = (case vm of None \<Rightarrow> 0 | Some s \<Rightarrow> int (rp s))"

definition vm_rs_copy_to_array ::
    "('d, 'm) Vm_scheme option \<Rightarrow> i32 list option \<Rightarrow> int \<Rightarrow> int \<times> i32 list option" where
  "vm_rs_copy_to_array vm out_array max_count = (case (vm, out_array) of
     (Some s, Some out) \<Rightarrow>
       if max_count \<le> 0 then (0, out_array)
       else (let depth = int (rp s); copy_count = (if depth < max_count then depth else max_count)
             in (copy_count, Some (blit (RS s) (nat copy_count) out)))
   | _ \<Rightarrow> (0, out_array))"

text \<open>The stacks as lists, from the bottom to the top.\<close>

definition data_stack :: "('d, 'm) Vm_scheme \<Rightarrow> i32 list" where
  "data_stack s = take (sp s) (DS s)"

definition return_stack :: "('d, 'm) Vm_scheme \<Rightarrow> i32 list" where
  "return_stack s = take (rp s) (RS s)"

lemma length_data_stack [simp]: "wf_stacks s \<Longrightarrow> length (data_stack s) = sp s"
  and length_return_stack [simp]: "wf_stacks s \<Longrightarrow> length (return_stack s) = rp s"
  by (simp_all add: data_stack_def return_stack_def wf_stacks_def)

lemma peek_public_eq:
  assumes "wf_stacks s"
  shows "vm_ds_peek_public (Some s) (int i) = (if i < sp s then rev (data_stack s) ! i else 0)"
proof (cases "i < sp s")
  case True
  have "nat (int (sp s) - 1 - int i) = sp s - Suc i" by simp
  moreover have "length (data_stack s) = sp s" using assms by simp
  ultimately show ?thesis
    using True by (simp add: vm_ds_peek_public_def rev_nth) (simp add: data_stack_def)
qed (simp add: vm_ds_peek_public_def)

section \<open>The panic handler\<close>

definition vm_set_panic_handler ::
    "'d panic_handler option \<Rightarrow> nat \<Rightarrow> ('d, 'm) Vm_scheme option \<Rightarrow> ('d, 'm) Vm_scheme option" where
  "vm_set_panic_handler handler user_data vm = (case vm of None \<Rightarrow> None
     | Some s \<Rightarrow> Some (s\<lparr>panic_handler := handler, panic_user_data := user_data\<rparr>))"

text \<open>\<open>v4::set_panic_handler\<close>, whose user data is null by default.\<close>

definition set_panic_handler ::
    "'d panic_handler option \<Rightarrow> nat option \<Rightarrow> ('d, 'm) Vm_scheme option \<Rightarrow> ('d, 'm) Vm_scheme option" where
  "set_panic_handler handler user_data vm =
    vm_set_panic_handler handler (case user_data of None \<Rightarrow> 0 | Some u \<Rightarrow> u) vm"

text \<open>
  The snapshot. The depths go into \<open>uint8_t\<close> fields; the four stack values are read under the
  converted depth.
\<close>

definition panic_info :: "v4_err \<Rightarrow> ('d, 'm) Vm_scheme \<Rightarrow> V4PanicInfo" where
  "panic_info e s =
    (let d = (word_of_int (vm_ds_depth_public (Some s)) :: u8);
         r = (word_of_int (vm_rs_depth_public (Some s)) :: u8);
         st = map (\<lambda>i. if i < unat d then vm_ds_peek_public (Some s) (int i) else 0) [0, 1, 2, 3]
     in \<lparr>error_code = e, panic_pc = 0, tos = st ! 0, nos = st ! 1, info_ds_depth = d, info_rs_depth = r,
         has_stack_data = (unat d > 0), info_stack = st\<rparr>)"

definition print_panic :: "('d, 'm) Vm_scheme \<Rightarrow> V4PanicInfo \<Rightarrow> panic_line list" where
  "print_panic s info =
     [Banner, ErrorLine (err_str (error_code info)) (error_code info), PcLine (panic_pc info),
      DataStackLine (info_ds_depth info)
        (if has_stack_data info then Some (tos info) else None)
        (if has_stack_data info \<and> unat (info_ds_depth info) \<ge> 2 then Some (nos info) else None),
      ReturnStackLine (info_rs_depth info)] @
     (if unat (info_rs_depth info) > 0 then
        (case vm_rs_copy_to_array (Some s) (Some (replicate 16 0)) 16 of
           (n, Some rs_data) \<Rightarrow> CallTrace # map (\<lambda>i. TraceEntry i (rs_data ! i)) [0..<nat n]
         | (n, None) \<Rightarrow> [CallTrace]) @
        (if unat (info_rs_depth info) > 16 then [MoreEntries (uint (info_rs_depth info) - 16)] else [])
      else []) @
     [Rule]"

definition vm_panic :: "'d env \<Rightarrow> v4_err \<Rightarrow> 'd machine \<Rightarrow> v4_err \<times> 'd machine" where
  "vm_panic E e s =
    (let info = panic_info e s;
         s1 = (if panic_diagnostics E then s\<lparr>console := console s @ print_panic s info\<rparr> else s);
         s2 = (case panic_handler s1 of
                 None \<Rightarrow> s1
               | Some h \<Rightarrow> s1\<lparr>world := h (panic_user_data s1) info (world s1)\<rparr>)
     in (e, s2))"

text \<open>\<^verbatim>\<open>return vm_panic(vm, V4_ERR(x));\<close> inside the engine.\<close>

definition panic :: "'d env \<Rightarrow> Err \<Rightarrow> ('d machine, 'a) act" where
  "panic E x s = (case vm_panic E (V4_ERR x) s of (e, s') \<Rightarrow> Fail e s')"

text \<open>A panic changes nothing of the VM: only the world (by the handler) and the output.\<close>

lemma vm_panic_eq:
  "vm_panic E e s = (e, s\<lparr>
     world := (case panic_handler s of None \<Rightarrow> world s | Some h \<Rightarrow> h (panic_user_data s) (panic_info e s) (world s)),
     console := (if panic_diagnostics E then console s @ print_panic s (panic_info e s) else console s)\<rparr>)"
  by (simp add: vm_panic_def Let_def split: option.split)

lemma vm_panic_frame:
  obtains w c where "vm_panic E e s = (e, s\<lparr>world := w, console := c\<rparr>)"
  using vm_panic_eq by blast

lemma panic_frame:
  obtains w c where "panic E x s = Fail (V4_ERR x) (s\<lparr>world := w, console := c\<rparr>)"
  by (rule vm_panic_frame [of E "V4_ERR x" s]) (simp add: panic_def)

lemma panic_not_Ret [simp]: "panic E x s \<noteq> Ret a t"
  and panic_not_Undef [simp]: "panic E x s \<noteq> Undef u"
  and panic_not_Timeout [simp]: "panic E x s \<noteq> Timeout"
  by (simp_all add: panic_def split: prod.splits)

lemma panic_Fail_code: "panic E x s = Fail e t \<Longrightarrow> e = V4_ERR x"
  by (simp add: panic_def vm_panic_eq)

lemma keeps_panic [keeps_intros]:
  assumes "\<And>s w c. I s \<Longrightarrow> I (s\<lparr>world := w, console := c\<rparr>)"
  shows "keeps I U (panic E x)"
proof (rule keepsI)
  fix s e t assume "I s" and "panic E x s = Fail e t"
  then obtain w c where "t = s\<lparr>world := w, console := c\<rparr>"
    by (auto simp: panic_def vm_panic_eq)
  with assms [OF \<open>I s\<close>] show "I t" by blast
qed simp_all

end
