(* ===== verification/V4_Stack.thy ===== *)
theory V4_Stack
  imports V4_Panic
begin

text \<open>
  The data and return stack operations at the head of \<^verbatim>\<open>src/core.cpp\<close>, and the public stack functions
  at its end (push, pop, clear, snapshot, restore). The locale \<open>bounded_stack\<close> states what a client
  of either stack relies on; both stacks are instances.
\<close>

section \<open>Operations\<close>

definition ds_push :: "'d env \<Rightarrow> i32 \<Rightarrow> ('d machine, unit) act" where
  "ds_push E v s =
    (if sp s \<ge> DS_SIZE then panic E StackOverflow s
     else Ret () (s\<lparr>DS := (DS s)[sp s := v], sp := sp s + 1\<rparr>))"

definition ds_pop :: "'d env \<Rightarrow> ('d machine, i32) act" where
  "ds_pop E s =
    (if sp s \<le> 0 then panic E StackUnderflow s
     else Ret (DS s ! (sp s - 1)) (s\<lparr>sp := sp s - 1\<rparr>))"

definition ds_peek :: "'d env \<Rightarrow> nat \<Rightarrow> ('d machine, i32) act" where
  "ds_peek E i s =
    (if int (sp s) - 1 - int i < 0 then panic E StackUnderflow s
     else Ret (DS s ! (sp s - 1 - i)) s)"

definition rs_push :: "'d env \<Rightarrow> i32 \<Rightarrow> ('d machine, unit) act" where
  "rs_push E v s =
    (if rp s \<ge> RS_SIZE then panic E StackOverflow s
     else Ret () (s\<lparr>RS := (RS s)[rp s := v], rp := rp s + 1\<rparr>))"

definition rs_pop :: "'d env \<Rightarrow> ('d machine, i32) act" where
  "rs_pop E s =
    (if rp s \<le> 0 then panic E StackUnderflow s
     else Ret (RS s ! (rp s - 1)) (s\<lparr>rp := rp s - 1\<rparr>))"

definition rs_peek :: "'d env \<Rightarrow> nat \<Rightarrow> ('d machine, i32) act" where
  "rs_peek E i s =
    (if int (rp s) - 1 - int i < 0 then panic E StackUnderflow s
     else Ret (RS s ! (rp s - 1 - i)) s)"

definition vm_reset_stacks :: "('d, 'm) Vm_scheme option \<Rightarrow> ('d, 'm) Vm_scheme option" where
  "vm_reset_stacks vm = map_option (\<lambda>s. s\<lparr>sp := 0, rp := 0, fp := None\<rparr>) vm"

section \<open>Public functions\<close>

definition vm_ds_push :: "'d env \<Rightarrow> i32 \<Rightarrow> ('d machine option, v4_err) act" where
  "vm_ds_push E value = null_checked (V4_ERR InvalidArg) (code_of (ds_push E value))"

text \<open>\<open>out_value\<close> is the old value behind the pointer, \<^term>\<open>None\<close> for a null pointer.\<close>

definition vm_ds_pop :: "'d env \<Rightarrow> i32 option \<Rightarrow> ('d machine option, v4_err \<times> i32 option) act" where
  "vm_ds_pop E out_value = null_checked (V4_ERR InvalidArg, out_value)
    (\<lambda>s. case ds_pop E s of
       Ret v s' \<Rightarrow> Ret (0, map_option (\<lambda>_. v) out_value) s'
     | Fail e s' \<Rightarrow> Ret (e, out_value) s'
     | Undef u \<Rightarrow> Undef u
     | Timeout \<Rightarrow> Timeout)"

definition vm_ds_clear :: "('d, 'm) Vm_scheme option \<Rightarrow> ('d, 'm) Vm_scheme option" where
  "vm_ds_clear vm = map_option (\<lambda>s. s\<lparr>sp := 0\<rparr>) vm"

record VmStackSnapshot =
  snap_data :: "i32 list option"
  snap_depth :: int

definition sizeof_snapshot :: nat where "sizeof_snapshot = 16"

definition vm_ds_snapshot :: "'d env \<Rightarrow> ('d machine option, VmStackSnapshot option) act" where
  "vm_ds_snapshot E = null_checked None
    (\<lambda>s. let depth = sp s in
      if depth = 0 then
        bnd (on_world (malloc_ok E sizeof_snapshot)) (\<lambda>ok.
          Ret (if ok then Some \<lparr>snap_data = None, snap_depth = 0\<rparr> else None)) s
      else
        bnd (on_world (malloc_ok E sizeof_snapshot)) (\<lambda>ok.
          if \<not> ok then Ret None
          else bnd (on_world (malloc_ok E (depth * 4))) (\<lambda>ok2.
            if \<not> ok2 then Ret None
            else Ret (Some \<lparr>snap_data = Some (take depth (DS s)), snap_depth = int depth\<rparr>))) s)"

definition vm_ds_restore ::
    "'d env \<Rightarrow> VmStackSnapshot option \<Rightarrow> ('d machine option, v4_err) act" where
  "vm_ds_restore E snapshot = (case snapshot of
     None \<Rightarrow> Ret (V4_ERR InvalidArg)
   | Some snap \<Rightarrow> null_checked (V4_ERR InvalidArg) (code_of
      (\<lambda>s. if snap_depth snap > 256 then panic E StackOverflow s
        else (let s1 = s\<lparr>sp := 0\<rparr> in
          case snap_data snap of
            None \<Rightarrow> Ret () s1
          | Some data \<Rightarrow>
              if snap_depth snap > 0 then
                (if snap_depth snap > int (length data) then Undef OutOfBounds
                 else Ret () (s1\<lparr>DS := blit data (nat (snap_depth snap)) (DS s), sp := nat (snap_depth snap)\<rparr>))
              else Ret () s1))))"

text \<open>The blocks that are passed to \<open>free\<close>, in order.\<close>

datatype snapshot_block = SnapData "i32 list" | SnapHeader

definition vm_ds_snapshot_free :: "VmStackSnapshot option \<Rightarrow> snapshot_block list" where
  "vm_ds_snapshot_free snapshot = (case snapshot of
     None \<Rightarrow> []
   | Some snap \<Rightarrow> (case snap_data snap of None \<Rightarrow> [] | Some data \<Rightarrow> [SnapData data]) @ [SnapHeader])"

section \<open>A bounded stack\<close>

text \<open>Pushing a list of values in turn, and popping a number of them.\<close>

primrec push_all :: "(i32 \<Rightarrow> ('s, unit) act) \<Rightarrow> i32 list \<Rightarrow> ('s, unit) act" where
  "push_all push [] = Ret ()"
| "push_all push (v # vs) = bnd (push v) (\<lambda>_. push_all push vs)"

primrec pop_many :: "('s, i32) act \<Rightarrow> nat \<Rightarrow> ('s, i32 list) act" where
  "pop_many pop 0 = Ret []"
| "pop_many pop (Suc n) = bnd pop (\<lambda>v. bnd (pop_many pop n) (\<lambda>vs. Ret (v # vs)))"

text \<open>
  What a client of a stack relies on: the contents are a list of at most \<open>limit\<close> cells; a push appends
  or overflows, a pop removes the last cell or underflows, and a failed operation keeps the contents.
\<close>

locale bounded_stack =
  fixes push :: "i32 \<Rightarrow> ('s, unit) act"
    and pop :: "('s, i32) act"
    and cells :: "'s \<Rightarrow> i32 list"
    and limit :: nat
    and inv :: "'s \<Rightarrow> bool"
  assumes bounded: "inv s \<Longrightarrow> length (cells s) \<le> limit"
    and push_room: "inv s \<Longrightarrow> length (cells s) < limit \<Longrightarrow>
      \<exists>t. push v s = Ret () t \<and> cells t = cells s @ [v] \<and> inv t"
    and push_full: "inv s \<Longrightarrow> length (cells s) = limit \<Longrightarrow>
      \<exists>t. push v s = Fail (V4_ERR StackOverflow) t \<and> cells t = cells s \<and> inv t"
    and pop_cell: "inv s \<Longrightarrow> cells s = xs @ [v] \<Longrightarrow>
      \<exists>t. pop s = Ret v t \<and> cells t = xs \<and> inv t"
    and pop_empty: "inv s \<Longrightarrow> cells s = [] \<Longrightarrow>
      \<exists>t. pop s = Fail (V4_ERR StackUnderflow) t \<and> cells t = [] \<and> inv t"
begin

lemma push_pop:
  assumes "inv s" and "length (cells s) < limit"
  shows "\<exists>t. bnd (push v) (\<lambda>_. pop) s = Ret v t \<and> cells t = cells s \<and> inv t"
proof -
  obtain t where t: "push v s = Ret () t" "cells t = cells s @ [v]" "inv t"
    using push_room [OF assms] by blast
  then show ?thesis using pop_cell [OF t(3,2)] by simp
qed

lemma keeps_push: "keeps inv U (push v)"
proof (rule keeps_outcome)
  fix s assume s: "inv s"
  then consider "length (cells s) < limit" | "length (cells s) = limit"
    using bounded [OF s] by linarith
  then show "\<exists>t. inv t \<and> ((\<exists>a. push v s = Ret a t) \<or> (\<exists>e. push v s = Fail e t))"
    using push_room [OF s] push_full [OF s] by cases blast+
qed

lemma keeps_pop: "keeps inv U pop"
proof (rule keeps_outcome)
  fix s assume s: "inv s"
  show "\<exists>t. inv t \<and> ((\<exists>a. pop s = Ret a t) \<or> (\<exists>e. pop s = Fail e t))"
    using pop_cell [OF s] pop_empty [OF s] by (cases "cells s" rule: rev_cases) blast+
qed

lemma push_all_room:
  "inv s \<Longrightarrow> length (cells s) + length vs \<le> limit \<Longrightarrow>
    \<exists>t. push_all push vs s = Ret () t \<and> cells t = cells s @ vs \<and> inv t"
proof (induction vs arbitrary: s)
  case Nil
  then show ?case by simp
next
  case (Cons v vs)
  from Cons.prems obtain t where t: "push v s = Ret () t" "cells t = cells s @ [v]" "inv t"
    using push_room [of s v] by auto
  with Cons.prems have "length (cells t) + length vs \<le> limit" by simp
  from Cons.IH [OF t(3) this] t show ?case by auto
qed

lemma push_all_overflow:
  "inv s \<Longrightarrow> length (cells s) + length vs > limit \<Longrightarrow>
    \<exists>t. push_all push vs s = Fail (V4_ERR StackOverflow) t \<and>
        cells t = cells s @ take (limit - length (cells s)) vs \<and> inv t"
proof (induction vs arbitrary: s)
  case Nil
  then show ?case using bounded [of s] by simp
next
  case (Cons v vs)
  show ?case
  proof (cases "length (cells s) < limit")
    case True
    then obtain t where t: "push v s = Ret () t" "cells t = cells s @ [v]" "inv t"
      using push_room [OF Cons.prems(1), of v] by blast
    moreover from t Cons.prems have "length (cells t) + length vs > limit" by simp
    ultimately show ?thesis
      using Cons.IH [OF t(3)] True by (auto simp: take_Cons' Suc_diff_Suc)
  next
    case False
    then have "length (cells s) = limit" using bounded [OF Cons.prems(1)] by simp
    then show ?thesis using push_full [OF Cons.prems(1), of v] by auto
  qed
qed

lemma pop_many_cells:
  "inv s \<Longrightarrow> cells s = xs @ rev vs \<Longrightarrow>
    \<exists>t. pop_many pop (length vs) s = Ret vs t \<and> cells t = xs \<and> inv t"
proof (induction vs arbitrary: s)
  case Nil
  then show ?case by simp
next
  case (Cons v vs)
  then obtain t where t: "pop s = Ret v t" "cells t = xs @ rev vs" "inv t"
    using pop_cell [of s "xs @ rev vs" v] by auto
  from Cons.IH [OF t(3,2)] t show ?case by auto
qed

lemma push_all_pop_many:
  assumes "inv s" and "length (cells s) + length vs \<le> limit"
  shows "\<exists>t. bnd (push_all push vs) (\<lambda>_. pop_many pop (length vs)) s = Ret (rev vs) t \<and> cells t = cells s \<and> inv t"
proof -
  obtain t where t: "push_all push vs s = Ret () t" "cells t = cells s @ vs" "inv t"
    using push_all_room [OF assms] by blast
  then show ?thesis using pop_many_cells [OF t(3), of "cells s" "rev vs"] by simp
qed

end

section \<open>Both stacks\<close>

lemma wf_stacks_world [simp]: "wf_stacks (s\<lparr>world := w\<rparr>) = wf_stacks s"
  and wf_stacks_console [simp]: "wf_stacks (s\<lparr>console := c\<rparr>) = wf_stacks s"
  and data_stack_world [simp]: "data_stack (s\<lparr>world := w\<rparr>) = data_stack s"
  and data_stack_console [simp]: "data_stack (s\<lparr>console := c\<rparr>) = data_stack s"
  and return_stack_world [simp]: "return_stack (s\<lparr>world := w\<rparr>) = return_stack s"
  and return_stack_console [simp]: "return_stack (s\<lparr>console := c\<rparr>) = return_stack s"
  by (simp_all add: wf_stacks_def data_stack_def return_stack_def)

lemma wf_stacks_sp [simp]: "wf_stacks s \<Longrightarrow> sp s \<le> length (DS s)"
  and wf_stacks_rp [simp]: "wf_stacks s \<Longrightarrow> rp s \<le> length (RS s)"
  by (simp_all add: wf_stacks_def)

lemma ds_push_room:
  assumes "wf_stacks s" and "sp s < DS_SIZE"
  shows "\<exists>t. ds_push E v s = Ret () t \<and> data_stack t = data_stack s @ [v] \<and> wf_stacks t"
  using assms by (simp add: ds_push_def data_stack_def wf_stacks_def take_Suc_update)

lemma rs_push_room:
  assumes "wf_stacks s" and "rp s < RS_SIZE"
  shows "\<exists>t. rs_push E v s = Ret () t \<and> return_stack t = return_stack s @ [v] \<and> wf_stacks t"
  using assms by (simp add: rs_push_def return_stack_def wf_stacks_def take_Suc_update)

lemma panic_stacks:
  assumes "wf_stacks s"
  shows "\<exists>t. panic E x s = Fail (V4_ERR x) t \<and> data_stack t = data_stack s \<and>
    return_stack t = return_stack s \<and> wf_stacks t"
  using assms by (simp add: panic_def vm_panic_eq)

interpretation ds: bounded_stack "ds_push E" "ds_pop E" data_stack DS_SIZE wf_stacks for E
proof
  fix s :: "'a machine" and v :: i32 and xs :: "i32 list"
  assume s: "wf_stacks s"
  show "length (data_stack s) \<le> DS_SIZE"
    using s by (simp add: wf_stacks_def)
  show "\<exists>t. ds_push E v s = Ret () t \<and> data_stack t = data_stack s @ [v] \<and> wf_stacks t"
    if "length (data_stack s) < DS_SIZE"
    using that s by (simp add: ds_push_room)
  show "\<exists>t. ds_push E v s = Fail (V4_ERR StackOverflow) t \<and> data_stack t = data_stack s \<and> wf_stacks t"
    if "length (data_stack s) = DS_SIZE"
    using that s panic_stacks [OF s, of E StackOverflow] by (auto simp: ds_push_def)
  show "\<exists>t. ds_pop E s = Ret v t \<and> data_stack t = xs \<and> wf_stacks t"
    if "data_stack s = xs @ [v]"
    using take_snoc [OF wf_stacks_sp [OF s] that [unfolded data_stack_def]] s
    by (simp add: ds_pop_def data_stack_def wf_stacks_def le_diff_conv)
  show "\<exists>t. ds_pop E s = Fail (V4_ERR StackUnderflow) t \<and> data_stack t = [] \<and> wf_stacks t"
    if "data_stack s = []"
    using that length_data_stack [OF s] panic_stacks [OF s, of E StackUnderflow] by (auto simp: ds_pop_def)
qed

interpretation rs: bounded_stack "rs_push E" "rs_pop E" return_stack RS_SIZE wf_stacks for E
proof
  fix s :: "'a machine" and v :: i32 and xs :: "i32 list"
  assume s: "wf_stacks s"
  show "length (return_stack s) \<le> RS_SIZE"
    using s by (simp add: wf_stacks_def)
  show "\<exists>t. rs_push E v s = Ret () t \<and> return_stack t = return_stack s @ [v] \<and> wf_stacks t"
    if "length (return_stack s) < RS_SIZE"
    using that s by (simp add: rs_push_room)
  show "\<exists>t. rs_push E v s = Fail (V4_ERR StackOverflow) t \<and> return_stack t = return_stack s \<and> wf_stacks t"
    if "length (return_stack s) = RS_SIZE"
    using that s panic_stacks [OF s, of E StackOverflow] by (auto simp: rs_push_def)
  show "\<exists>t. rs_pop E s = Ret v t \<and> return_stack t = xs \<and> wf_stacks t"
    if "return_stack s = xs @ [v]"
    using take_snoc [OF wf_stacks_rp [OF s] that [unfolded return_stack_def]] s
    by (simp add: rs_pop_def return_stack_def wf_stacks_def le_diff_conv)
  show "\<exists>t. rs_pop E s = Fail (V4_ERR StackUnderflow) t \<and> return_stack t = [] \<and> wf_stacks t"
    if "return_stack s = []"
    using that length_return_stack [OF s] panic_stacks [OF s, of E StackUnderflow] by (auto simp: rs_pop_def)
qed

section \<open>Peeking, and what an operation leaves alone\<close>

lemma ds_peek_eq:
  assumes "wf_stacks s" and "i < sp s"
  shows "ds_peek E i s = Ret (rev (data_stack s) ! i) s"
  using assms by (simp add: ds_peek_def rev_nth) (simp add: data_stack_def)

lemma rs_peek_eq:
  assumes "wf_stacks s" and "i < rp s"
  shows "rs_peek E i s = Ret (rev (return_stack s) ! i) s"
  using assms by (simp add: rs_peek_def rev_nth) (simp add: return_stack_def)

lemma keeps_ds_push [keeps_intros]: "keeps wf_vm U (ds_push E v)"
  and keeps_ds_pop [keeps_intros]: "keeps wf_vm U (ds_pop E)"
  and keeps_ds_peek [keeps_intros]: "keeps wf_vm U (ds_peek E i)"
  and keeps_rs_push [keeps_intros]: "keeps wf_vm U (rs_push E v)"
  and keeps_rs_pop [keeps_intros]: "keeps wf_vm U (rs_pop E)"
  and keeps_rs_peek [keeps_intros]: "keeps wf_vm U (rs_peek E i)"
  by (auto simp: keeps_def ds_push_def ds_pop_def ds_peek_def rs_push_def rs_pop_def rs_peek_def
      panic_def vm_panic_eq wf_vm_def wf_stacks_def wf_mem_def wf_dict_def split: if_splits)

lemma keeps_panic_wf [keeps_intros]: "keeps wf_vm U (panic E x)"
  by (rule keeps_panic) simp

end
