(* ===== verification/V4_Memory.thy ===== *)
theory V4_Memory
  imports V4_Stack
begin

text \<open>
  \<^verbatim>\<open>src/memory.cpp\<close> and \<^verbatim>\<open>include/v4/internal/memory.hpp\<close>: little-endian accessors of the RAM, the linear
  search of the MMIO windows, the core loads and stores of 32, 16 and 8 bits, the public access
  functions and the registration of windows. The locale \<open>byte_codec\<close> is the interface between a load
  and a store of one width; all three widths are instances.
\<close>

section \<open>Little-endian accessors\<close>

definition ld_le32 :: "u8 list \<Rightarrow> nat \<Rightarrow> u32" where
  "ld_le32 p a = ucast (p ! a) OR push_bit 8 (ucast (p ! (a + 1))) OR
     push_bit 16 (ucast (p ! (a + 2))) OR push_bit 24 (ucast (p ! (a + 3)))"

definition st_le32 :: "u8 list \<Rightarrow> nat \<Rightarrow> u32 \<Rightarrow> u8 list" where
  "st_le32 p a v = p[a := ucast (v AND 0xFF), a + 1 := ucast (drop_bit 8 v AND 0xFF),
     a + 2 := ucast (drop_bit 16 v AND 0xFF), a + 3 := ucast (drop_bit 24 v AND 0xFF)]"

definition ld_le16 :: "u8 list \<Rightarrow> nat \<Rightarrow> u16" where
  "ld_le16 p a = ucast (p ! a) OR push_bit 8 (ucast (p ! (a + 1)))"

definition st_le16 :: "u8 list \<Rightarrow> nat \<Rightarrow> u16 \<Rightarrow> u8 list" where
  "st_le16 p a v = p[a := ucast (v AND 0xFF), a + 1 := ucast (drop_bit 8 v AND 0xFF)]"

section \<open>Checks\<close>

definition v4_is_aligned4 :: "u32 \<Rightarrow> v4_err" where
  "v4_is_aligned4 addr = (if addr AND 3 = 0 then 0 else -12)"

text \<open>The sum is taken in 64 bits, where it does not overflow.\<close>

definition v4_is_in_ram :: "('d, 'm) Vm_scheme \<Rightarrow> u32 \<Rightarrow> u32 \<Rightarrow> v4_err" where
  "v4_is_in_ram s addr bytes =
    (let b = uint addr + uint bytes in if mem s \<noteq> None \<and> b \<le> uint (mem_size s) then 0 else -13)"

fun find_mmio_from :: "'d V4_Mmio list \<Rightarrow> int \<Rightarrow> u32 \<Rightarrow> int" where
  "find_mmio_from [] i addr = -1"
| "find_mmio_from (m # ms) i addr =
    (if addr \<ge> mmio_base m \<and> addr - mmio_base m < mmio_size m then i
     else find_mmio_from ms (i + 1) addr)"

definition find_mmio :: "('d, 'm) Vm_scheme \<Rightarrow> u32 \<Rightarrow> int" where
  "find_mmio s addr = find_mmio_from (take (nat (mmio_count s)) (mmio s)) 0 addr"

text \<open>The RAM buffer when \<open>n\<close> bytes from \<open>addr\<close> lie in it.\<close>

definition ram :: "('d, 'm) Vm_scheme \<Rightarrow> u32 \<Rightarrow> nat \<Rightarrow> u8 list option" where
  "ram s addr n = (case mem s of
      None \<Rightarrow> None
    | Some b \<Rightarrow> if unat addr + n \<le> length b then Some b else None)"

section \<open>Core accessors\<close>

definition v4_mem_read32_core :: "u32 \<Rightarrow> u32 \<Rightarrow> ('d machine, v4_err \<times> u32) act" where
  "v4_mem_read32_core addr out s =
    (let mi = find_mmio s addr in
     if mi \<ge> 0 then
       (if v4_is_aligned4 addr \<noteq> 0 then Ret (v4_is_aligned4 addr, out) s
        else (let m = mmio s ! nat mi in
          case read32 m of
            None \<Rightarrow> Ret (V4_ERR OobMemory, out) s
          | Some f \<Rightarrow> (case f (mmio_user m) addr out (world s) of
              (e, out', w) \<Rightarrow> Ret (e, out') (s\<lparr>world := w\<rparr>))))
     else if v4_is_in_ram s addr 4 \<noteq> 0 then Ret (v4_is_in_ram s addr 4, out) s
     else if v4_is_aligned4 addr \<noteq> 0 then Ret (v4_is_aligned4 addr, out) s
     else (case ram s addr 4 of
         None \<Rightarrow> Undef OutOfBounds
       | Some b \<Rightarrow> Ret (0, ld_le32 b (unat addr)) s))"

definition v4_mem_write32_core :: "u32 \<Rightarrow> u32 \<Rightarrow> ('d machine, v4_err) act" where
  "v4_mem_write32_core addr val s =
    (let mi = find_mmio s addr in
     if mi \<ge> 0 then
       (if v4_is_aligned4 addr \<noteq> 0 then Ret (v4_is_aligned4 addr) s
        else (let m = mmio s ! nat mi in
          case write32 m of
            None \<Rightarrow> Ret (V4_ERR OobMemory) s
          | Some f \<Rightarrow> (case f (mmio_user m) addr val (world s) of
              (e, w) \<Rightarrow> Ret e (s\<lparr>world := w\<rparr>))))
     else if v4_is_in_ram s addr 4 \<noteq> 0 then Ret (v4_is_in_ram s addr 4) s
     else if v4_is_aligned4 addr \<noteq> 0 then Ret (v4_is_aligned4 addr) s
     else (case ram s addr 4 of
         None \<Rightarrow> Undef OutOfBounds
       | Some b \<Rightarrow> Ret 0 (s\<lparr>mem := Some (st_le32 b (unat addr) val)\<rparr>)))"

definition v4_mem_read8_core :: "u32 \<Rightarrow> u32 \<Rightarrow> ('d machine, v4_err \<times> u32) act" where
  "v4_mem_read8_core addr out s =
    (if v4_is_in_ram s addr 1 \<noteq> 0 then Ret (v4_is_in_ram s addr 1, out) s
     else (case ram s addr 1 of
         None \<Rightarrow> Undef OutOfBounds
       | Some b \<Rightarrow> Ret (0, ucast (b ! unat addr)) s))"

definition v4_mem_read16_core :: "u32 \<Rightarrow> u32 \<Rightarrow> ('d machine, v4_err \<times> u32) act" where
  "v4_mem_read16_core addr out s =
    (if v4_is_in_ram s addr 2 \<noteq> 0 then Ret (v4_is_in_ram s addr 2, out) s
     else (case ram s addr 2 of
         None \<Rightarrow> Undef OutOfBounds
       | Some b \<Rightarrow> Ret (0, ucast (ld_le16 b (unat addr))) s))"

definition v4_mem_write8_core :: "u32 \<Rightarrow> u32 \<Rightarrow> ('d machine, v4_err) act" where
  "v4_mem_write8_core addr val s =
    (if v4_is_in_ram s addr 1 \<noteq> 0 then Ret (v4_is_in_ram s addr 1) s
     else (case ram s addr 1 of
         None \<Rightarrow> Undef OutOfBounds
       | Some b \<Rightarrow> Ret 0 (s\<lparr>mem := Some (b[unat addr := ucast (val AND 0xFF)])\<rparr>)))"

definition v4_mem_write16_core :: "u32 \<Rightarrow> u32 \<Rightarrow> ('d machine, v4_err) act" where
  "v4_mem_write16_core addr val s =
    (if v4_is_in_ram s addr 2 \<noteq> 0 then Ret (v4_is_in_ram s addr 2) s
     else (case ram s addr 2 of
         None \<Rightarrow> Undef OutOfBounds
       | Some b \<Rightarrow> Ret 0 (s\<lparr>mem := Some (st_le16 b (unat addr) (ucast (val AND 0xFFFF)))\<rparr>)))"

section \<open>Public functions\<close>

definition vm_mem_read32 :: "u32 \<Rightarrow> u32 \<Rightarrow> ('d machine, v4_err \<times> u32) act" where
  "vm_mem_read32 addr out = bnd (v4_mem_read32_core addr out)
    (\<lambda>(e, v) s. Ret (e, v) (s\<lparr>last_err := e\<rparr>))"

definition vm_mem_write32 :: "u32 \<Rightarrow> u32 \<Rightarrow> ('d machine, v4_err) act" where
  "vm_mem_write32 addr val = bnd (v4_mem_write32_core addr val)
    (\<lambda>e s. Ret e (s\<lparr>last_err := e\<rparr>))"

fun append_mmio :: "'d V4_Mmio list \<Rightarrow> 'd machine \<Rightarrow> int \<times> 'd machine" where
  "append_mmio [] s = (0, s)"
| "append_mmio (m # ms) s =
    (if mmio_count s \<ge> int V4_MAX_MMIO then (0, s)
     else (case append_mmio ms (s\<lparr>mmio := (mmio s)[nat (mmio_count s) := m],
                                 mmio_count := mmio_count s + 1\<rparr>) of
       (n, s') \<Rightarrow> (n + 1, s')))"

definition vm_register_mmio ::
    "'d V4_Mmio list option \<Rightarrow> int \<Rightarrow> ('d machine option, v4_err) act" where
  "vm_register_mmio lst count vm = (case (vm, lst) of
     (Some s, Some ms) \<Rightarrow>
       if count \<le> 0 then Ret (V4_ERR InvalidArg) vm
       else if count > int (length ms) then Undef OutOfBounds
       else (case append_mmio (take (nat count) ms) s of
         (appended, s') \<Rightarrow> Ret (if appended = count then V4_ERR OK else V4_ERR InvalidArg) (Some s'))
   | _ \<Rightarrow> Ret (V4_ERR InvalidArg) vm)"

section \<open>Loads and stores of one width\<close>

locale byte_codec =
  fixes ld :: "u8 list \<Rightarrow> nat \<Rightarrow> 'v"
    and st :: "u8 list \<Rightarrow> nat \<Rightarrow> 'v \<Rightarrow> u8 list"
    and width :: nat
  assumes length_st: "length (st p a v) = length p"
    and ld_st: "a + width \<le> length p \<Longrightarrow> ld (st p a v) a = v"
    and st_other: "i < a \<or> a + width \<le> i \<Longrightarrow> st p a v ! i = p ! i"
    and st_bytes: "a + width \<le> length p \<Longrightarrow> a + width \<le> length q \<Longrightarrow> a \<le> i \<Longrightarrow> i < a + width \<Longrightarrow>
      st p a v ! i = st q a v ! i"
    and ld_cong: "(\<And>i. a \<le> i \<Longrightarrow> i < a + width \<Longrightarrow> p ! i = q ! i) \<Longrightarrow> ld p a = ld q a"
begin

lemma ld_st_disjoint:
  assumes "b + width \<le> a \<or> a + width \<le> b"
  shows "ld (st p a v) b = ld p b"
  using assms by (intro ld_cong st_other) auto

lemma st_st:
  assumes "a + width \<le> length p"
  shows "st (st p a v) a w = st p a w"
proof (rule nth_equalityI)
  fix i assume "i < length (st (st p a v) a w)"
  show "st (st p a v) a w ! i = st p a w ! i"
  proof (cases "a \<le> i \<and> i < a + width")
    case True
    then show ?thesis using assms by (intro st_bytes) (simp_all add: length_st)
  next
    case False
    then have "i < a \<or> a + width \<le> i" by auto
    then show ?thesis by (simp add: st_other)
  qed
qed (simp add: length_st)

lemma st_commute:
  assumes "b + width \<le> a \<or> a + width \<le> b" and "a + width \<le> length p" and "b + width \<le> length p"
  shows "st (st p a v) b w = st (st p b w) a v"
proof (rule nth_equalityI)
  fix i assume "i < length (st (st p a v) b w)"
  consider "a \<le> i" "i < a + width" | "b \<le> i" "i < b + width"
    | "i < a \<or> a + width \<le> i" "i < b \<or> b + width \<le> i"
    by linarith
  then show "st (st p a v) b w ! i = st (st p b w) a v ! i"
  proof cases
    case 1
    then have "st (st p a v) b w ! i = st p a v ! i" using assms(1) by (intro st_other) auto
    also have "\<dots> = st (st p b w) a v ! i" using 1 assms by (intro st_bytes) (simp_all add: length_st)
    finally show ?thesis .
  next
    case 2
    then have "st (st p b w) a v ! i = st p b w ! i" using assms(1) by (intro st_other) auto
    also have "\<dots> = st (st p a v) b w ! i" using 2 assms by (intro st_bytes) (simp_all add: length_st)
    finally show ?thesis by simp
  next
    case 3
    then show ?thesis by (simp add: st_other)
  qed
qed (simp add: length_st)

end

section \<open>All three widths\<close>

lemma low_byte_32 [simp]: "(ucast ((v :: u32) AND 0xFF) :: u8) = ucast v"
  and low_byte_16 [simp]: "(ucast ((w :: u16) AND 0xFF) :: u8) = ucast w"
  and low_half_32 [simp]: "(ucast ((v :: u32) AND 0xFFFF) :: u16) = ucast v"
proof -
  have "v AND 0xFF = take_bit 8 v" and "w AND 0xFF = take_bit 8 w" and "v AND 0xFFFF = take_bit 16 v"
    by (simp_all add: take_bit_eq_mask mask_numeral)
  then show "(ucast (v AND 0xFF) :: u8) = ucast v" and "(ucast (w AND 0xFF) :: u8) = ucast w"
    and "(ucast (v AND 0xFFFF) :: u16) = ucast v"
    by (auto intro!: bit_eqI simp: bit_simps simp del: take_bit_eq_mod)
qed

lemma join_bytes_32:
  "ucast (ucast v :: u8) OR push_bit 8 (ucast (ucast (drop_bit 8 v) :: u8)) OR
     push_bit 16 (ucast (ucast (drop_bit 16 v) :: u8)) OR push_bit 24 (ucast (ucast (drop_bit 24 v) :: u8))
     = (v :: u32)"
proof (rule bit_eqI)
  fix n
  assume "possible_bit TYPE(u32) n"
  then show "bit (ucast (ucast v :: u8) OR push_bit 8 (ucast (ucast (drop_bit 8 v) :: u8)) OR
     push_bit 16 (ucast (ucast (drop_bit 16 v) :: u8)) OR push_bit 24 (ucast (ucast (drop_bit 24 v) :: u8))
     :: u32) n \<longleftrightarrow> bit v n"
    by (cases "n < 8"; cases "n < 16"; cases "n < 24") (auto simp: bit_simps)
qed

lemma join_bytes_16:
  "ucast (ucast v :: u8) OR push_bit 8 (ucast (ucast (drop_bit 8 v) :: u8)) = (v :: u16)"
  by (rule bit_eqI) (auto simp: bit_simps)

interpretation le32: byte_codec ld_le32 st_le32 4
proof
  fix p q :: "u8 list" and a i :: nat and v :: u32
  show "length (st_le32 p a v) = length p"
    by (simp add: st_le32_def)
  show "ld_le32 (st_le32 p a v) a = v" if "a + 4 \<le> length p"
    using that by (simp add: ld_le32_def st_le32_def join_bytes_32)
  show "st_le32 p a v ! i = p ! i" if "i < a \<or> a + 4 \<le> i"
    using that by (auto simp: st_le32_def)
  show "st_le32 p a v ! i = st_le32 q a v ! i"
    if "a + 4 \<le> length p" "a + 4 \<le> length q" "a \<le> i" "i < a + 4"
    using that by (auto simp: st_le32_def nth_list_update)
  show "ld_le32 p a = ld_le32 q a" if "\<And>i. a \<le> i \<Longrightarrow> i < a + 4 \<Longrightarrow> p ! i = q ! i"
    by (simp add: ld_le32_def that)
qed

interpretation le16: byte_codec ld_le16 st_le16 2
proof
  fix p q :: "u8 list" and a i :: nat and v :: u16
  show "length (st_le16 p a v) = length p"
    by (simp add: st_le16_def)
  show "ld_le16 (st_le16 p a v) a = v" if "a + 2 \<le> length p"
    using that by (simp add: ld_le16_def st_le16_def join_bytes_16)
  show "st_le16 p a v ! i = p ! i" if "i < a \<or> a + 2 \<le> i"
    using that by (auto simp: st_le16_def)
  show "st_le16 p a v ! i = st_le16 q a v ! i"
    if "a + 2 \<le> length p" "a + 2 \<le> length q" "a \<le> i" "i < a + 2"
    using that by (auto simp: st_le16_def nth_list_update)
  show "ld_le16 p a = ld_le16 q a" if "\<And>i. a \<le> i \<Longrightarrow> i < a + 2 \<Longrightarrow> p ! i = q ! i"
    by (simp add: ld_le16_def that)
qed

interpretation le8: byte_codec nth list_update 1
proof
  fix p q :: "u8 list" and a i :: nat and v :: u8
  show "p[a := v] ! a = v" if "a + 1 \<le> length p" using that by simp
  show "p[a := v] ! i = p ! i" if "i < a \<or> a + 1 \<le> i" using that by auto
  show "p[a := v] ! i = q[a := v] ! i" if "a + 1 \<le> length p" "a + 1 \<le> length q" "a \<le> i" "i < a + 1"
  proof -
    from that have "i = a" by simp
    with that show ?thesis by simp
  qed
  show "p ! a = q ! a" if "\<And>i. a \<le> i \<Longrightarrow> i < a + 1 \<Longrightarrow> p ! i = q ! i" using that by simp
qed simp

text \<open>The bytes of a word in the order of their addresses: the 8, 16 and 32 bit loads agree.\<close>

lemma ld_le32_bytes:
  "ld_le32 p a = ucast (ld_le16 p a) OR push_bit 16 (ucast (ld_le16 p (a + 2)))"
proof -
  have "ucast b0 OR push_bit 8 (ucast b1) OR push_bit 16 (ucast b2) OR push_bit 24 (ucast b3) =
      (ucast (ucast b0 OR push_bit 8 (ucast b1) :: u16) OR
       push_bit 16 (ucast (ucast b2 OR push_bit 8 (ucast b3) :: u16)) :: u32)" for b0 b1 b2 b3 :: u8
    by (rule bit_eqI) (auto simp: bit_simps dest: bit_imp_le_length)
  then show ?thesis by (simp add: ld_le32_def ld_le16_def numeral_3_eq_3)
qed

section \<open>Bounds and windows\<close>

lemma in_ram_iff:
  "v4_is_in_ram s addr n = 0 \<longleftrightarrow> mem s \<noteq> None \<and> unat addr + unat n \<le> unat (mem_size s)"
proof -
  have "uint addr + uint n \<le> uint (mem_size s) \<longleftrightarrow> unat addr + unat n \<le> unat (mem_size s)"
    unfolding uint_nat by linarith
  then show ?thesis by (simp add: v4_is_in_ram_def Let_def)
qed

lemma in_ram_code: "v4_is_in_ram s addr n = 0 \<or> v4_is_in_ram s addr n = V4_ERR OobMemory"
  by (simp add: v4_is_in_ram_def Let_def)

lemma aligned_code: "v4_is_aligned4 addr = 0 \<or> v4_is_aligned4 addr = V4_ERR Unaligned"
  by (simp add: v4_is_aligned4_def)

lemma aligned4_iff: "v4_is_aligned4 addr = 0 \<longleftrightarrow> 4 dvd unat addr"
proof -
  have "addr AND 3 = take_bit 2 addr"
    by (simp add: take_bit_eq_mask mask_numeral)
  moreover have "unat (take_bit 2 addr) = unat addr mod 4"
    by (simp only: unsigned_take_bit_eq) (simp add: take_bit_eq_mod)
  moreover have "take_bit 2 addr = 0 \<longleftrightarrow> unat (take_bit 2 addr) = 0"
    by (simp only: unsigned_eq_0_iff)
  ultimately show ?thesis
    by (simp add: v4_is_aligned4_def dvd_eq_mod_eq_0)
qed

lemma ram_wf:
  assumes "wf_mem s" and "v4_is_in_ram s addr n = 0"
  obtains b where "mem s = Some b" and "ram s addr (unat n) = Some b" and "unat addr + unat n \<le> length b"
  using assms by (auto simp: in_ram_iff wf_mem_def wf_buffer_def ram_def split: option.splits)

text \<open>The window of an address: the first registered one whose \<open>[base, base + size)\<close> holds it.\<close>

definition in_window :: "u32 \<Rightarrow> 'd V4_Mmio \<Rightarrow> bool" where
  "in_window addr m \<longleftrightarrow> unat (mmio_base m) \<le> unat addr \<and>
     unat addr < unat (mmio_base m) + unat (mmio_size m)"

lemma window_test:
  "addr \<ge> mmio_base m \<and> addr - mmio_base m < mmio_size m \<longleftrightarrow> in_window addr m"
  by (auto simp: in_window_def word_le_nat_alt word_less_nat_alt unat_sub)

lemma find_mmio_from_None:
  "0 \<le> i \<Longrightarrow> find_mmio_from ms i addr < 0 \<longleftrightarrow> (\<forall>m \<in> set ms. \<not> in_window addr m)"
  by (induction ms arbitrary: i) (simp_all add: window_test)

lemma find_mmio_from_range: "find_mmio_from ms i addr \<ge> i \<or> find_mmio_from ms i addr = -1"
  by (induction ms i addr rule: find_mmio_from.induct) auto

lemma find_mmio_from_Some:
  "0 \<le> i \<Longrightarrow> find_mmio_from ms i addr = i + int k \<longleftrightarrow>
     k < length ms \<and> in_window addr (ms ! k) \<and> (\<forall>j < k. \<not> in_window addr (ms ! j))"
proof (induction ms arbitrary: i k)
  case Nil
  then show ?case by simp
next
  case (Cons m ms)
  show ?case
  proof (cases k)
    case 0
    have "find_mmio_from ms (i + 1) addr \<noteq> i"
      using find_mmio_from_range [of "i + 1" ms addr] Cons.prems by auto
    then show ?thesis using 0 by (simp add: window_test)
  next
    case (Suc n)
    have "find_mmio_from ms (i + 1) addr = i + 1 + int n \<longleftrightarrow>
        n < length ms \<and> in_window addr (ms ! n) \<and> (\<forall>j<n. \<not> in_window addr (ms ! j))"
      using Cons.prems by (intro Cons.IH) simp
    then show ?thesis
      using Suc by (auto simp: window_test All_less_Suc2 algebra_simps)
  qed
qed

lemma find_mmio_eq_iff:
  assumes "wf_mem s"
  shows "find_mmio s addr = int k \<longleftrightarrow> k < nat (mmio_count s) \<and> in_window addr (mmio s ! k) \<and>
    (\<forall>j < k. \<not> in_window addr (mmio s ! j))"
proof -
  have len: "length (take (nat (mmio_count s)) (mmio s)) = nat (mmio_count s)"
    using assms by (simp add: wf_mem_def min_absorb2 nat_le_iff)
  have "find_mmio s addr = int k \<longleftrightarrow> find_mmio_from (take (nat (mmio_count s)) (mmio s)) 0 addr = 0 + int k"
    by (simp add: find_mmio_def)
  also have "\<dots> \<longleftrightarrow> k < nat (mmio_count s) \<and> in_window addr (take (nat (mmio_count s)) (mmio s) ! k) \<and>
      (\<forall>j < k. \<not> in_window addr (take (nat (mmio_count s)) (mmio s) ! j))"
    by (simp only: find_mmio_from_Some len order_refl)
  also have "\<dots> \<longleftrightarrow> k < nat (mmio_count s) \<and> in_window addr (mmio s ! k) \<and>
      (\<forall>j < k. \<not> in_window addr (mmio s ! j))"
    by auto
  finally show ?thesis .
qed

section \<open>The accessors\<close>

text \<open>With no window over the address, an access succeeds exactly in RAM, and aligned if 32 bits wide.\<close>

definition ram_only :: "('d, 'm) Vm_scheme \<Rightarrow> u32 \<Rightarrow> bool" where
  "ram_only s addr \<longleftrightarrow> find_mmio s addr < 0"

definition addressable :: "('d, 'm) Vm_scheme \<Rightarrow> u32 \<Rightarrow> nat \<Rightarrow> bool" where
  "addressable s addr n \<longleftrightarrow> mem s \<noteq> None \<and> unat addr + n \<le> unat (mem_size s) \<and> (n = 4 \<longrightarrow> 4 dvd unat addr)"

definition ram_bytes :: "('d, 'm) Vm_scheme \<Rightarrow> u8 list" where
  "ram_bytes s = (case mem s of None \<Rightarrow> [] | Some b \<Rightarrow> b)"

lemma addressable_ram:
  assumes "wf_mem s" and "addressable s addr n"
  shows "ram s addr n = Some (ram_bytes s)" and "unat addr + n \<le> length (ram_bytes s)"
  using assms by (auto simp: addressable_def wf_mem_def wf_buffer_def ram_def ram_bytes_def split: option.splits)

lemma in_ram_addressable:
  "v4_is_in_ram s addr 4 = 0 \<Longrightarrow> v4_is_aligned4 addr = 0 \<Longrightarrow> addressable s addr 4"
  "v4_is_in_ram s addr 2 = 0 \<Longrightarrow> addressable s addr 2"
  "v4_is_in_ram s addr 1 = 0 \<Longrightarrow> addressable s addr 1"
  by (simp_all add: addressable_def in_ram_iff aligned4_iff)

lemma addressable_checks:
  "addressable s addr 4 \<Longrightarrow> v4_is_in_ram s addr 4 = 0" "addressable s addr 4 \<Longrightarrow> v4_is_aligned4 addr = 0"
  "addressable s addr 2 \<Longrightarrow> v4_is_in_ram s addr 2 = 0" "addressable s addr 1 \<Longrightarrow> v4_is_in_ram s addr 1 = 0"
  by (simp_all add: addressable_def in_ram_iff aligned4_iff)

text \<open>What an access to RAM returns and stores.\<close>

lemma read_ram:
  assumes "wf_mem s"
  shows "ram_only s addr \<Longrightarrow> addressable s addr 4 \<Longrightarrow>
      v4_mem_read32_core addr out s = Ret (0, ld_le32 (ram_bytes s) (unat addr)) s"
    and "addressable s addr 2 \<Longrightarrow>
      v4_mem_read16_core addr out s = Ret (0, ucast (ld_le16 (ram_bytes s) (unat addr))) s"
    and "addressable s addr 1 \<Longrightarrow>
      v4_mem_read8_core addr out s = Ret (0, ucast (ram_bytes s ! unat addr)) s"
  using addressable_ram(1) [OF assms]
  by (simp_all add: v4_mem_read32_core_def v4_mem_read16_core_def v4_mem_read8_core_def
      addressable_checks ram_only_def not_le)

lemma write_ram:
  assumes "wf_mem s"
  shows "ram_only s addr \<Longrightarrow> addressable s addr 4 \<Longrightarrow>
      v4_mem_write32_core addr v s = Ret 0 (s\<lparr>mem := Some (st_le32 (ram_bytes s) (unat addr) v)\<rparr>)"
    and "addressable s addr 2 \<Longrightarrow>
      v4_mem_write16_core addr v s = Ret 0 (s\<lparr>mem := Some (st_le16 (ram_bytes s) (unat addr) (ucast v))\<rparr>)"
    and "addressable s addr 1 \<Longrightarrow>
      v4_mem_write8_core addr v s = Ret 0 (s\<lparr>mem := Some ((ram_bytes s)[unat addr := ucast v])\<rparr>)"
  using addressable_ram(1) [OF assms]
  by (simp_all add: v4_mem_write32_core_def v4_mem_write16_core_def v4_mem_write8_core_def
      addressable_checks ram_only_def not_le)

lemma access_refused:
  "ram_only s addr \<Longrightarrow> \<not> addressable s addr 4 \<Longrightarrow>
     v4_mem_read32_core addr out s = Ret (if v4_is_in_ram s addr 4 = 0 then V4_ERR Unaligned else V4_ERR OobMemory, out) s"
  "ram_only s addr \<Longrightarrow> \<not> addressable s addr 4 \<Longrightarrow>
     v4_mem_write32_core addr v s = Ret (if v4_is_in_ram s addr 4 = 0 then V4_ERR Unaligned else V4_ERR OobMemory) s"
  "\<not> addressable s addr 2 \<Longrightarrow> v4_mem_read16_core addr out s = Ret (V4_ERR OobMemory, out) s"
  "\<not> addressable s addr 2 \<Longrightarrow> v4_mem_write16_core addr v s = Ret (V4_ERR OobMemory) s"
  "\<not> addressable s addr 1 \<Longrightarrow> v4_mem_read8_core addr out s = Ret (V4_ERR OobMemory, out) s"
  "\<not> addressable s addr 1 \<Longrightarrow> v4_mem_write8_core addr v s = Ret (V4_ERR OobMemory) s"
  using in_ram_addressable [of s addr] in_ram_code [of s addr] aligned_code [of addr]
  by (auto simp: v4_mem_read32_core_def v4_mem_read16_core_def v4_mem_read8_core_def ram_only_def
      v4_mem_write32_core_def v4_mem_write16_core_def v4_mem_write8_core_def)

lemma wf_mem_update:
  assumes "wf_mem s" and "mem s = Some b" and "length b' = length b"
  shows "wf_mem (s\<lparr>mem := Some b'\<rparr>)"
  using assms by (simp add: wf_mem_def wf_buffer_def)

lemma ram_bytes_update [simp]: "ram_bytes (s\<lparr>mem := Some b\<rparr>) = b"
  and ram_only_update [simp]: "ram_only (s\<lparr>mem := m\<rparr>) addr = ram_only s addr"
  and addressable_update: "mem s \<noteq> None \<Longrightarrow> addressable (s\<lparr>mem := Some b\<rparr>) addr n = addressable s addr n"
  by (simp_all add: ram_bytes_def ram_only_def find_mmio_def addressable_def)

lemma wf_vm_mem: "wf_vm s \<Longrightarrow> wf_mem s"
  by (simp add: wf_vm_def)

lemma wf_vm_ram:
  assumes "wf_vm s" and "addressable s addr n" and "length b = length (ram_bytes s)"
  shows "wf_vm (s\<lparr>mem := Some b\<rparr>)"
proof -
  obtain m where "mem s = Some m" using assms(2) by (auto simp: addressable_def)
  then show ?thesis
    using assms by (simp add: wf_vm_def wf_stacks_def wf_mem_def wf_dict_def wf_buffer_def ram_bytes_def)
qed

text \<open>Every access keeps the machine well-formed and has defined behaviour.\<close>

lemma access_outcome:
  assumes "wf_vm s"
  shows "\<exists>r t. v4_mem_read32_core addr out s = Ret r t \<and> wf_vm t"
    and "\<exists>e t. v4_mem_write32_core addr x s = Ret e t \<and> wf_vm t"
    and "\<exists>r t. v4_mem_read16_core addr out s = Ret r t \<and> wf_vm t"
    and "\<exists>e t. v4_mem_write16_core addr x s = Ret e t \<and> wf_vm t"
    and "\<exists>r t. v4_mem_read8_core addr out s = Ret r t \<and> wf_vm t"
    and "\<exists>e t. v4_mem_write8_core addr x s = Ret e t \<and> wf_vm t"
proof -
  note mem = wf_vm_mem [OF assms]
  note eqs = read_ram [OF mem] write_ram [OF mem] access_refused wf_vm_ram [OF assms]
    le32.length_st le16.length_st assms
  show "\<exists>r t. v4_mem_read32_core addr out s = Ret r t \<and> wf_vm t"
  proof (cases "ram_only s addr")
    case True
    then show ?thesis
      by (cases "addressable s addr 4") (simp_all add: eqs)
  next
    case False
    then show ?thesis
      using assms by (auto simp: v4_mem_read32_core_def ram_only_def Let_def split: option.splits prod.splits)
  qed
  show "\<exists>e t. v4_mem_write32_core addr x s = Ret e t \<and> wf_vm t"
  proof (cases "ram_only s addr")
    case True
    then show ?thesis
      by (cases "addressable s addr 4") (simp_all add: eqs)
  next
    case False
    then show ?thesis
      using assms by (auto simp: v4_mem_write32_core_def ram_only_def Let_def split: option.splits prod.splits)
  qed
  show "\<exists>r t. v4_mem_read16_core addr out s = Ret r t \<and> wf_vm t"
    by (cases "addressable s addr 2") (simp_all add: eqs)
  show "\<exists>e t. v4_mem_write16_core addr x s = Ret e t \<and> wf_vm t"
    by (cases "addressable s addr 2") (simp_all add: eqs)
  show "\<exists>r t. v4_mem_read8_core addr out s = Ret r t \<and> wf_vm t"
    by (cases "addressable s addr 1") (simp_all add: eqs)
  show "\<exists>e t. v4_mem_write8_core addr x s = Ret e t \<and> wf_vm t"
    by (cases "addressable s addr 1") (simp_all add: eqs)
qed

lemma keeps_read32 [keeps_intros]: "keeps wf_vm U (v4_mem_read32_core addr out)"
  and keeps_write32 [keeps_intros]: "keeps wf_vm U (v4_mem_write32_core addr v)"
  and keeps_read16 [keeps_intros]: "keeps wf_vm U (v4_mem_read16_core addr out)"
  and keeps_write16 [keeps_intros]: "keeps wf_vm U (v4_mem_write16_core addr v)"
  and keeps_read8 [keeps_intros]: "keeps wf_vm U (v4_mem_read8_core addr out)"
  and keeps_write8 [keeps_intros]: "keeps wf_vm U (v4_mem_write8_core addr v)"
  by - ((rule keeps_returns, erule access_outcome)+)

end
