(* ===== verification/V4_Messages.thy ===== *)
theory V4_Messages
  imports V4_State
begin

text \<open>
  The message queue of the custom backend (\<^verbatim>\<open>src/task_backend_custom.cpp\<close>): a ring of 16 messages with a
  read index, a write index and a count. \<open>contents\<close> reads it as a list of waiting messages, oldest first,
  which is what both operations are specified over. Receiving is right on the list from every state of
  the ring; sending is right only while the write index is \<open>count\<close> slots ahead of the read index, and
  the first successful receive ends that: it decrements the count and moves neither index.
\<close>

section \<open>Operations\<close>

definition send_message :: "u8 \<Rightarrow> v4_msg_queue_t \<Rightarrow> u8 \<Rightarrow> u8 \<Rightarrow> i32 \<Rightarrow> v4_msg_queue_t" where
  "send_message current q dst mt data =
    q\<lparr>ring := (ring q)[unat (write_idx q) :=
        \<lparr>src_task = current, dst_task = dst, msg_type = mt, m_flags = 0, m_data = data\<rparr>],
      write_idx := word_of_nat ((unat (write_idx q) + 1) mod V4_MSG_QUEUE_SIZE),
      msg_count := msg_count q + 1\<rparr>"

definition v4_backend_task_send ::
    "u8 \<Rightarrow> u8 \<Rightarrow> i32 \<Rightarrow> ('d, 'm) Vm_scheme option \<Rightarrow> v4_err \<times> ('d, 'm) Vm_scheme option" where
  "v4_backend_task_send dst mt data vm = (case vm of
      None \<Rightarrow> (V4_ERR InvalidArg, None)
    | Some s \<Rightarrow>
        if unat dst \<ge> V4_MAX_TASKS \<and> dst \<noteq> 0xFF then (V4_ERR InvalidArg, vm)
        else if unat (msg_count (msg_queue s)) \<ge> V4_MSG_QUEUE_SIZE then (V4_ERR MsgQueueFull, vm)
        else (V4_ERR OK, Some (s\<lparr>msg_queue :=
               send_message (current_task (scheduler s)) (msg_queue s) dst mt data\<rparr>)))"

definition message_matches :: "u8 \<Rightarrow> u8 \<Rightarrow> v4_message_t \<Rightarrow> bool" where
  "message_matches current mt m \<longleftrightarrow>
     (dst_task m = current \<or> dst_task m = 0xFF) \<and> (mt = 0 \<or> msg_type m = mt)"

definition slot :: "v4_msg_queue_t \<Rightarrow> nat \<Rightarrow> nat" where
  "slot q i = (unat (read_idx q) + i) mod V4_MSG_QUEUE_SIZE"

text \<open>The inner loop moves the messages behind index \<open>i\<close> one slot down.\<close>

definition shift_down :: "v4_msg_queue_t \<Rightarrow> nat \<Rightarrow> v4_message_t list" where
  "shift_down q i =
    fold (\<lambda>j r. r[slot q j := r ! slot q (j + 1)]) [i..<unat (msg_count q) - 1] (ring q)"

text \<open>The result is the code, and what is stored through the two output pointers where not null.\<close>

definition v4_backend_task_receive ::
    "u8 \<Rightarrow> ('d, 'm) Vm_scheme option \<Rightarrow> (int \<times> (i32 \<times> u8) option) \<times> ('d, 'm) Vm_scheme option" where
  "v4_backend_task_receive mt vm = (case vm of
      None \<Rightarrow> ((V4_ERR InvalidArg, None), None)
    | Some s \<Rightarrow>
        (let q = msg_queue s; cur = current_task (scheduler s) in
         case find (\<lambda>i. message_matches cur mt (ring q ! slot q i)) [0..<unat (msg_count q)] of
           None \<Rightarrow> ((0, None), vm)
         | Some i \<Rightarrow>
             ((1, Some (m_data (ring q ! slot q i), src_task (ring q ! slot q i))),
              Some (s\<lparr>msg_queue := q\<lparr>ring := shift_down q i, msg_count := msg_count q - 1\<rparr>\<rparr>))))"

section \<open>The queue as a list\<close>

definition contents :: "v4_msg_queue_t \<Rightarrow> v4_message_t list" where
  "contents q = map (\<lambda>i. ring q ! slot q i) [0..<unat (msg_count q)]"

definition in_sync :: "v4_msg_queue_t \<Rightarrow> bool" where
  "in_sync q \<longleftrightarrow> unat (write_idx q) = slot q (unat (msg_count q))"

lemma length_contents [simp]: "length (contents q) = unat (msg_count q)"
  by (simp add: contents_def)

lemma slot_less [simp]: "slot q i < V4_MSG_QUEUE_SIZE"
  by (simp add: slot_def V4_MSG_QUEUE_SIZE_def)

lemma mod_add_left_cancel:
  fixes r :: nat
  assumes "(r + i) mod n = (r + j) mod n" and "i < n" and "j < n"
  shows "i = j"
  using assms
proof (induction i j rule: linorder_wlog)
  case (le i j)
  then have "n dvd (r + j) - (r + i)"
    using mod_eq_dvd_iff_nat [of "r + i" "r + j" n] by simp
  then have "n dvd j - i" by simp
  moreover have "j - i < n" using le by simp
  ultimately have "j - i = 0" using nat_dvd_not_less by blast
  with le show ?case by simp
next
  case (sym i j)
  then show ?case by simp
qed

lemma slot_inj:
  assumes "i < V4_MSG_QUEUE_SIZE" and "j < V4_MSG_QUEUE_SIZE"
  shows "slot q i = slot q j \<longleftrightarrow> i = j"
  using mod_add_left_cancel [of "unat (read_idx q)" i V4_MSG_QUEUE_SIZE j] assms
  by (auto simp: slot_def)

lemma unat_small: "n < 256 \<Longrightarrow> unat (word_of_nat n :: u8) = n"
  by (simp add: unsigned_of_nat take_bit_nat_eq_self)

lemma unat_count_Suc: "unat c < 255 \<Longrightarrow> unat (c + 1 :: u8) = Suc (unat c)"
  by (simp add: unat_word_ariths(1))

lemma unat_count_pred: "0 < unat c \<Longrightarrow> unat (c - 1 :: u8) = unat c - 1"
  by (metis neq0_conv unat_minus_one unsigned_0)

lemma wf_send:
  assumes "wf_queue q" and "unat (msg_count q) < V4_MSG_QUEUE_SIZE"
  shows "wf_queue (send_message c q d t x)"
  using assms by (simp add: wf_queue_def send_message_def V4_MSG_QUEUE_SIZE_def unat_small unat_count_Suc
      del: of_nat_add of_nat_Suc)

text \<open>A message is appended when the indices are in step, and they stay so.\<close>

lemma send_in_sync:
  assumes wf: "wf_queue q" and sync: "in_sync q" and room: "unat (msg_count q) < V4_MSG_QUEUE_SIZE"
  shows "contents (send_message c q d t x) = contents q @
      [\<lparr>src_task = c, dst_task = d, msg_type = t, m_flags = 0, m_data = x\<rparr>]"
    and "in_sync (send_message c q d t x)"
proof -
  let ?m = "\<lparr>src_task = c, dst_task = d, msg_type = t, m_flags = 0, m_data = x\<rparr>"
  let ?q = "send_message c q d t x" and ?n = "unat (msg_count q)"
  have cnt: "unat (msg_count ?q) = Suc ?n"
    using room by (simp add: send_message_def V4_MSG_QUEUE_SIZE_def unat_count_Suc)
  have sl: "slot ?q = slot q" by (simp add: fun_eq_iff slot_def send_message_def)
  have ring: "ring ?q = (ring q)[slot q ?n := ?m]"
    using sync by (simp add: send_message_def in_sync_def)
  have len: "length (ring q) = V4_MSG_QUEUE_SIZE" using wf by (simp add: wf_queue_def)
  have old: "ring ?q ! slot q i = ring q ! slot q i" if "i < ?n" for i
    using that room slot_inj [of i ?n q] by (simp add: ring)
  have new: "ring ?q ! slot q ?n = ?m" by (simp add: ring len)
  show "contents ?q = contents q @ [?m]"
    unfolding contents_def cnt sl using old new by simp
  show "in_sync ?q"
    using sync room
    by (simp add: in_sync_def cnt sl) (simp add: send_message_def slot_def unat_small V4_MSG_QUEUE_SIZE_def mod_Suc_eq
        del: of_nat_add of_nat_Suc)
qed

text \<open>Out of step, what the slot behind the waiting messages holds becomes the newest one.\<close>

lemma send_out_of_sync:
  assumes wf: "wf_queue q" and sync: "\<not> in_sync q" and room: "unat (msg_count q) < V4_MSG_QUEUE_SIZE"
  shows "last (contents (send_message c q d t x)) = ring q ! slot q (unat (msg_count q))"
proof -
  let ?q = "send_message c q d t x" and ?n = "unat (msg_count q)"
  have cnt: "unat (msg_count ?q) = Suc ?n"
    using room by (simp add: send_message_def V4_MSG_QUEUE_SIZE_def unat_count_Suc)
  have sl: "slot ?q = slot q" by (simp add: fun_eq_iff slot_def send_message_def)
  have "ring ?q ! slot q ?n = ring q ! slot q ?n"
    using sync by (simp add: send_message_def in_sync_def)
  then show ?thesis unfolding contents_def cnt sl by simp
qed

text \<open>Removing the element at an index.\<close>

definition remove_at :: "nat \<Rightarrow> 'a list \<Rightarrow> 'a list" where
  "remove_at i xs = take i xs @ drop (Suc i) xs"

lemma shift_down_aux:
  assumes "length r = V4_MSG_QUEUE_SIZE" and "i \<le> k" and "k < V4_MSG_QUEUE_SIZE"
  shows "length (fold (\<lambda>j r. r[slot q j := r ! slot q (j + 1)]) [i..<k] r) = V4_MSG_QUEUE_SIZE \<and>
    (\<forall>j < V4_MSG_QUEUE_SIZE. fold (\<lambda>j r. r[slot q j := r ! slot q (j + 1)]) [i..<k] r ! slot q j =
       (if i \<le> j \<and> j < k then r ! slot q (j + 1) else r ! slot q j))"
  using assms(2,3)
proof (induction k rule: dec_induct)
  case base
  then show ?case using assms(1) by auto
next
  case (step k)
  let ?f = "\<lambda>j r. r[slot q j := r ! slot q (j + 1)]"
  let ?r = "fold ?f [i..<k] r"
  have IH: "length ?r = V4_MSG_QUEUE_SIZE" "\<And>j. j < V4_MSG_QUEUE_SIZE \<Longrightarrow> ?r ! slot q j =
      (if i \<le> j \<and> j < k then r ! slot q (j + 1) else r ! slot q j)"
    using step by auto
  have "fold ?f [i..<Suc k] r = ?r[slot q k := ?r ! slot q (k + 1)]"
    using step by simp
  then show ?case
    using IH step slot_inj [where q = q] by (auto simp: nth_list_update)
qed

lemma receive_contents:
  assumes wf: "wf_queue q" and i: "i < unat (msg_count q)"
  shows "contents (q\<lparr>ring := shift_down q i, msg_count := msg_count q - 1\<rparr>) = remove_at i (contents q)"
    and "wf_queue (q\<lparr>ring := shift_down q i, msg_count := msg_count q - 1\<rparr>)"
proof -
  let ?n = "unat (msg_count q)"
  let ?q = "q\<lparr>ring := shift_down q i, msg_count := msg_count q - 1\<rparr>"
  have len: "length (ring q) = V4_MSG_QUEUE_SIZE" and n: "?n \<le> V4_MSG_QUEUE_SIZE"
    using wf by (simp_all add: wf_queue_def)
  have cnt: "unat (msg_count q - 1) = ?n - 1" using i by (simp add: unat_count_pred)
  have sl: "slot ?q = slot q" by (simp add: fun_eq_iff slot_def)
  have aux: "length (shift_down q i) = V4_MSG_QUEUE_SIZE"
    "\<And>j. j < V4_MSG_QUEUE_SIZE \<Longrightarrow> shift_down q i ! slot q j =
        (if i \<le> j \<and> j < ?n - 1 then ring q ! slot q (j + 1) else ring q ! slot q j)"
    using shift_down_aux [OF len, of i "?n - 1" q] i n by (auto simp: shift_down_def)
  show "contents ?q = remove_at i (contents q)"
  proof (rule nth_equalityI)
    show "length (contents ?q) = length (remove_at i (contents q))"
      using i cnt by (simp add: remove_at_def)
    fix j assume "j < length (contents ?q)"
    then have j: "j < ?n - 1" using cnt by simp
    then have "contents ?q ! j = shift_down q i ! slot q j"
      using cnt sl by (simp add: contents_def)
    also have "\<dots> = (if i \<le> j then ring q ! slot q (j + 1) else ring q ! slot q j)"
      using j n by (simp add: aux(2))
    also have "\<dots> = remove_at i (contents q) ! j"
      using i j by (simp add: remove_at_def nth_append contents_def min_def)
    finally show "contents ?q ! j = remove_at i (contents q) ! j" .
  qed
  show "wf_queue ?q"
    using wf aux(1) cnt i by (auto simp: wf_queue_def)
qed

text \<open>The specification: the first waiting message for the task and of the type is delivered.\<close>

definition receive_spec :: "u8 \<Rightarrow> u8 \<Rightarrow> v4_message_t list \<Rightarrow> (v4_message_t \<times> v4_message_t list) option" where
  "receive_spec current mt ms =
    (case find (\<lambda>i. message_matches current mt (ms ! i)) [0..<length ms] of
       None \<Rightarrow> None
     | Some i \<Rightarrow> Some (ms ! i, remove_at i ms))"

lemma receive_refines:
  assumes wf: "wf_queue (msg_queue s)"
  shows "case receive_spec (current_task (scheduler s)) mt (contents (msg_queue s)) of
      None \<Rightarrow> v4_backend_task_receive mt (Some s) = ((0, None), Some s)
    | Some (m, ms) \<Rightarrow> \<exists>q. v4_backend_task_receive mt (Some s) =
          ((1, Some (m_data m, src_task m)), Some (s\<lparr>msg_queue := q\<rparr>)) \<and> contents q = ms \<and> wf_queue q \<and>
          read_idx q = read_idx (msg_queue s) \<and> write_idx q = write_idx (msg_queue s)"
proof -
  let ?q = "msg_queue s" and ?cur = "current_task (scheduler s)"
  have nth: "contents ?q ! i = ring ?q ! slot ?q i" if "i < unat (msg_count ?q)" for i
    using that by (simp add: contents_def)
  have find: "find (\<lambda>i. message_matches ?cur mt (contents ?q ! i)) [0..<length (contents ?q)] =
      find (\<lambda>i. message_matches ?cur mt (ring ?q ! slot ?q i)) [0..<unat (msg_count ?q)]"
    by (rule find_cong) (simp_all add: nth)
  show ?thesis
  proof (cases "find (\<lambda>i. message_matches ?cur mt (ring ?q ! slot ?q i)) [0..<unat (msg_count ?q)]")
    case None
    then show ?thesis using find by (simp add: receive_spec_def v4_backend_task_receive_def Let_def)
  next
    case (Some i)
    then have i: "i < unat (msg_count ?q)" by (auto simp: find_Some_iff)
    show ?thesis
      using Some find receive_contents [OF wf i] nth [OF i]
      by (auto simp: receive_spec_def v4_backend_task_receive_def Let_def)
  qed
qed

text \<open>Whatever it delivers, a successful receive leaves the write index one slot too far ahead.\<close>

lemma receive_drift:
  assumes wf: "wf_queue (msg_queue s)" and sync: "in_sync (msg_queue s)"
    and run: "v4_backend_task_receive mt (Some s) = ((1, r), Some t)"
  shows "\<not> in_sync (msg_queue t)"
proof -
  obtain i where i: "i < unat (msg_count (msg_queue s))"
    and t: "msg_queue t = (msg_queue s)\<lparr>ring := shift_down (msg_queue s) i, msg_count := msg_count (msg_queue s) - 1\<rparr>"
    using run by (auto simp: v4_backend_task_receive_def Let_def find_Some_iff split: option.splits)
  let ?q = "msg_queue s" and ?n = "unat (msg_count (msg_queue s))"
  have "slot ?q ?n \<noteq> slot ?q (?n - 1)"
  proof
    assume "slot ?q ?n = slot ?q (?n - 1)"
    then have "(unat (read_idx ?q) + (?n - 1) + 1) mod 16 = (unat (read_idx ?q) + (?n - 1) + 0) mod 16"
      using i by (simp add: slot_def V4_MSG_QUEUE_SIZE_def)
    from mod_add_left_cancel [OF this] show False by simp
  qed
  moreover have "slot (msg_queue t) = slot ?q" by (simp add: fun_eq_iff slot_def t)
  moreover have "unat (msg_count (msg_queue t)) = ?n - 1"
    using i by (simp add: t unat_count_pred)
  ultimately show ?thesis
    using sync by (simp add: in_sync_def t)
qed

end
