(* ===== verification/V4_Scheduler.thy ===== *)
theory V4_Scheduler
  imports V4_Stack V4_Messages
begin

text \<open>
  \<^verbatim>\<open>src/scheduler.cpp\<close>: saving and restoring the stacks of a task, the choice of the next task, the
  switch itself and its call from an interrupt. A task has no program counter of its own; a switch
  exchanges the contents of the two stacks.
\<close>

section \<open>Contexts\<close>

text \<open>
  \<open>memcpy\<close> of \<open>d\<close> cells from a stack into a task's block, and back. Copying past the end of the block,
  or out of its part that was never written, is undefined.
\<close>

definition save_block :: "i32 list \<Rightarrow> nat \<Rightarrow> stack_block option \<Rightarrow> ub + stack_block option" where
  "save_block arr d b = (case b of
      None \<Rightarrow> Inr None
    | Some blk \<Rightarrow>
        if d > 0 then
          (if d > cap blk then Inl OutOfBounds
           else Inr (Some (blk\<lparr>written := take d arr @ drop d (written blk)\<rparr>)))
        else Inr b)"

definition load_block :: "stack_block option \<Rightarrow> nat \<Rightarrow> i32 list \<Rightarrow> ub + i32 list" where
  "load_block b d arr = (case b of
      None \<Rightarrow> Inr arr
    | Some blk \<Rightarrow>
        if d > 0 then
          (if d > cap blk \<or> d > length arr then Inl OutOfBounds
           else if d > length (written blk) then Inl Indeterminate
           else Inr (blit (written blk) d arr))
        else Inr arr)"

definition v4_task_save_context :: "('d, 'm) Vm_scheme \<Rightarrow> v4_task_t \<Rightarrow> ub + v4_task_t" where
  "v4_task_save_context s t =
    (let t1 = t\<lparr>ds_depth := word_of_nat (sp s), rs_depth := word_of_nat (rp s)\<rparr> in
     case save_block (DS s) (unat (ds_depth t1)) (ds_base t1) of
       Inl u \<Rightarrow> Inl u
     | Inr db \<Rightarrow>
         (case save_block (RS s) (unat (rs_depth t1)) (rs_base t1) of
            Inl u \<Rightarrow> Inl u
          | Inr rb \<Rightarrow> Inr (t1\<lparr>ds_base := db, rs_base := rb\<rparr>)))"

definition v4_task_restore_context :: "v4_task_t \<Rightarrow> ('d machine, unit) act" where
  "v4_task_restore_context t s =
    (case load_block (ds_base t) (unat (ds_depth t)) (DS s) of
       Inl u \<Rightarrow> Undef u
     | Inr ds \<Rightarrow>
         (case load_block (rs_base t) (unat (rs_depth t)) (RS s) of
            Inl u \<Rightarrow> Undef u
          | Inr rs \<Rightarrow> Ret () (s\<lparr>DS := ds, RS := rs, sp := unat (ds_depth t), rp := unat (rs_depth t)\<rparr>)))"

section \<open>The next task\<close>

definition wake :: "u32 \<Rightarrow> v4_task_t \<Rightarrow> v4_task_t" where
  "wake tick t = (if t_state t = BLOCKED \<and> tick \<ge> sleep_until_tick t then t\<lparr>t_state := READY\<rparr> else t)"

definition runnable :: "v4_task_t \<Rightarrow> bool" where
  "runnable t \<longleftrightarrow> t_state t = READY \<or> t_state t = RUNNING"

text \<open>One round of the loop: the tasks, the highest priority so far and the task selected so far.\<close>

definition select_step ::
    "u32 \<Rightarrow> u8 \<Rightarrow> nat \<Rightarrow> v4_task_t list \<times> u8 \<times> u8 \<Rightarrow> v4_task_t list \<times> u8 \<times> u8" where
  "select_step tick cur i = (\<lambda>(ts, highest_priority, selected_task).
    (let t = ts ! i in
     if t_state t = DEAD then (ts, highest_priority, selected_task)
     else (let t' = wake tick t; ts' = ts[i := t'] in
       if t_state t' = BLOCKED then (ts', highest_priority, selected_task)
       else if t_priority t' > highest_priority then (ts', t_priority t', word_of_nat i)
       else if t_priority t' = highest_priority \<and> selected_task \<noteq> 0xFF \<and>
               i > unat cur \<and> selected_task \<le> cur then (ts', highest_priority, word_of_nat i)
       else (ts', highest_priority, selected_task))))"

definition v4_task_select_next :: "'d env \<Rightarrow> ('d machine, u8) act" where
  "v4_task_select_next E = bnd (on_world (get_tick_ms E)) (\<lambda>tick s.
    (let cur = current_task (scheduler s) in
     case fold (select_step tick cur) [0..<V4_MAX_TASKS] (tasks (scheduler s), 0, 0xFF) of
       (ts, hp, sel) \<Rightarrow>
         Ret (if sel = 0xFF then cur else sel) (s\<lparr>scheduler := (scheduler s)\<lparr>tasks := ts\<rparr>\<rparr>)))"

section \<open>Switching\<close>

definition cur_index :: "('d, 'm) Vm_scheme \<Rightarrow> nat" where
  "cur_index s = unat (current_task (scheduler s))"

definition task_at :: "('d, 'm) Vm_scheme \<Rightarrow> nat \<Rightarrow> v4_task_t" where
  "task_at s i = tasks (scheduler s) ! i"

definition set_task :: "nat \<Rightarrow> v4_task_t \<Rightarrow> ('d, 'm) Vm_scheme \<Rightarrow> ('d, 'm) Vm_scheme" where
  "set_task i t s = s\<lparr>scheduler := (scheduler s)\<lparr>tasks := (tasks (scheduler s))[i := t]\<rparr>\<rparr>"

text \<open>The first half of \<open>vm_schedule\<close>: the running task is saved and made ready.\<close>

definition save_current :: "('d machine, unit) act" where
  "save_current s =
    (let current = task_at s (cur_index s) in
     if t_state current = RUNNING then
       (case v4_task_save_context s current of
          Inl u \<Rightarrow> Undef u
        | Inr t \<Rightarrow> Ret () (set_task (cur_index s) (t\<lparr>t_state := READY\<rparr>) s))
     else Ret () s)"

text \<open>The second half: staying with the current task, or switching.\<close>

definition switch_to :: "u8 \<Rightarrow> ('d machine, v4_err) act" where
  "switch_to next_task_id s =
    (let current = task_at s (cur_index s) in
     if next_task_id = current_task (scheduler s) \<and> t_state current \<noteq> DEAD \<and> t_state current \<noteq> BLOCKED
     then Ret (V4_ERR OK) (set_task (cur_index s) (current\<lparr>t_state := RUNNING\<rparr>) s)
     else (let nt = task_at s (unat next_task_id) in
       bnd (v4_task_restore_context nt) (\<lambda>_ s1.
         let s2 = set_task (unat next_task_id)
               (nt\<lparr>t_state := RUNNING, exec_count := exec_count nt + 1\<rparr>) s1
         in Ret (V4_ERR OK) (s2\<lparr>scheduler := (scheduler s2)\<lparr>current_task := next_task_id,
              context_switches := context_switches (scheduler s2) + 1\<rparr>\<rparr>)) s))"

definition schedule :: "'d env \<Rightarrow> ('d machine, v4_err) act" where
  "schedule E = bnd save_current (\<lambda>_. bnd (v4_task_select_next E) switch_to)"

definition vm_schedule :: "'d env \<Rightarrow> ('d machine option, v4_err) act" where
  "vm_schedule E = null_checked (V4_ERR InvalidArg) (schedule E)"

definition vm_schedule_from_isr :: "'d env \<Rightarrow> ('d machine option, v4_err) act" where
  "vm_schedule_from_isr E = null_checked (V4_ERR InvalidArg)
    (\<lambda>s. if critical_nesting (scheduler s) > 0 then Ret (V4_ERR OK) s
         else schedule E (s\<lparr>scheduler := (scheduler s)\<lparr>preemptions := preemptions (scheduler s) + 1\<rparr>\<rparr>))"

section \<open>Selection\<close>

text \<open>
  Among the runnable tasks of positive priority the ones of the highest priority are candidates; the
  first candidate behind the current task is taken, or the first of all when there is none behind it.
\<close>

definition candidate :: "v4_task_t list \<Rightarrow> nat \<Rightarrow> bool" where
  "candidate ts i \<longleftrightarrow> i < length ts \<and> runnable (ts ! i) \<and> 0 < t_priority (ts ! i) \<and>
     (\<forall>j < length ts. runnable (ts ! j) \<longrightarrow> t_priority (ts ! j) \<le> t_priority (ts ! i))"

definition round_robin :: "v4_task_t list \<Rightarrow> nat \<Rightarrow> nat" where
  "round_robin ts cur =
    (case find (\<lambda>i. cur < i \<and> candidate ts i) [0..<length ts] of
       Some i \<Rightarrow> i
     | None \<Rightarrow> (case find (candidate ts) [0..<length ts] of Some i \<Rightarrow> i | None \<Rightarrow> cur))"

lemma t_state_wake: "t_state (wake tick t) = (if t_state t = BLOCKED \<and> tick \<ge> sleep_until_tick t then READY else t_state t)"
  and t_priority_wake [simp]: "t_priority (wake tick t) = t_priority t"
  by (simp_all add: wake_def)

lemma runnable_wake_iff: "runnable (wake tick t) \<longleftrightarrow> t_state (wake tick t) \<noteq> DEAD \<and> t_state (wake tick t) \<noteq> BLOCKED"
  by (cases "t_state t") (auto simp: runnable_def t_state_wake)

text \<open>What the loop knows after \<open>k\<close> rounds, \<open>run i\<close> and \<open>prio i\<close> being over the woken tasks.\<close>

definition select_inv :: "v4_task_t list \<Rightarrow> nat \<Rightarrow> nat \<Rightarrow> u8 \<Rightarrow> u8 \<Rightarrow> bool" where
  "select_inv ws cur k hp sel \<longleftrightarrow>
    (\<forall>i < k. runnable (ws ! i) \<longrightarrow> t_priority (ws ! i) \<le> hp) \<and>
    (if hp = 0 then sel = 0xFF
     else unat sel < k \<and> runnable (ws ! unat sel) \<and> t_priority (ws ! unat sel) = hp \<and>
       (if cur < unat sel
        then (\<forall>j. cur < j \<and> j < unat sel \<and> runnable (ws ! j) \<longrightarrow> t_priority (ws ! j) < hp)
        else (\<forall>j < k. runnable (ws ! j) \<and> t_priority (ws ! j) = hp \<longrightarrow> j \<le> cur) \<and>
             (\<forall>j < unat sel. runnable (ws ! j) \<longrightarrow> t_priority (ws ! j) < hp)))"

lemma select_step_eq:
  assumes "i < length ts"
  shows "select_step tick cur i (ts, hp, sel) =
    (ts[i := wake tick (ts ! i)],
     (if runnable (wake tick (ts ! i)) \<and> t_priority (ts ! i) > hp then t_priority (ts ! i) else hp),
     (if runnable (wake tick (ts ! i)) \<and>
         (t_priority (ts ! i) > hp \<or>
          t_priority (ts ! i) = hp \<and> sel \<noteq> 0xFF \<and> i > unat cur \<and> sel \<le> cur)
      then word_of_nat i else sel))"
  using assms
  by (cases "t_state (ts ! i)") (auto simp: select_step_def Let_def runnable_def t_state_wake wake_def)

lemma select_inv_step:
  assumes inv: "select_inv ws cur k hp sel" and k: "k < 8" and cur: "cur < 8"
  shows "select_inv ws cur (Suc k)
     (if runnable (ws ! k) \<and> t_priority (ws ! k) > hp then t_priority (ws ! k) else hp)
     (if runnable (ws ! k) \<and> (t_priority (ws ! k) > hp \<or>
          t_priority (ws ! k) = hp \<and> sel \<noteq> 0xFF \<and> k > cur \<and> unat sel \<le> cur)
      then word_of_nat k else sel)"
proof -
  have uk: "unat (word_of_nat k :: u8) = k" using k by (intro unat_small) simp
  consider (higher) "runnable (ws ! k)" "t_priority (ws ! k) > hp"
    | (equal) "runnable (ws ! k)" "t_priority (ws ! k) = hp" "sel \<noteq> 0xFF" "k > cur" "unat sel \<le> cur"
    | (keep) "\<not> runnable (ws ! k) \<or> t_priority (ws ! k) < hp \<or>
        t_priority (ws ! k) = hp \<and> (sel = 0xFF \<or> k \<le> cur \<or> cur < unat sel)"
    by (metis linorder_not_less linorder_neqE)
  then show ?thesis
  proof cases
    case higher
    then have "t_priority (ws ! k) \<noteq> 0" by auto
    moreover have "t_priority (ws ! j) < t_priority (ws ! k)" if "j < k" "runnable (ws ! j)" for j
      using inv that higher(2) by (auto simp: select_inv_def intro: le_less_trans)
    ultimately show ?thesis
      using higher uk by (auto simp: select_inv_def less_Suc_eq le_less)
  next
      case equal
    have hp: "hp \<noteq> 0" using inv equal(3) by (auto simp: select_inv_def)
    have le: "t_priority (ws ! j) \<le> hp" if "j < Suc k" "runnable (ws ! j)" for j
      using inv equal(2) that by (auto simp: select_inv_def less_Suc_eq)
    have behind: "t_priority (ws ! j) < hp" if "cur < j" "j < k" "runnable (ws ! j)" for j
    proof -
      have "t_priority (ws ! j) \<noteq> hp"
        using inv hp equal(5) that by (auto simp: select_inv_def)
      with le [of j] that show ?thesis by simp
    qed
    have "select_inv ws cur (Suc k) hp (word_of_nat k)"
      using hp le behind equal(1,2,4) by (simp add: select_inv_def uk)
    then show ?thesis using equal by simp
  next
    case keep
    have le: "t_priority (ws ! j) \<le> hp" if "j < Suc k" "runnable (ws ! j)" for j
      using inv keep that by (auto simp: select_inv_def less_Suc_eq)
    have "select_inv ws cur (Suc k) hp sel"
    proof (cases "hp = 0")
      case True
      then show ?thesis using inv le by (simp add: select_inv_def)
    next
      case False
      then have "sel \<noteq> 0xFF" using inv k by (auto simp: select_inv_def)
      then have last: "k \<le> cur" if "runnable (ws ! k)" "t_priority (ws ! k) = hp" "\<not> cur < unat sel"
        using keep that by auto
      show ?thesis
        using inv False le last by (simp add: select_inv_def less_Suc_eq split: if_splits)
    qed
    moreover have "(if runnable (ws ! k) \<and> t_priority (ws ! k) > hp then t_priority (ws ! k) else hp) = hp"
      and "(if runnable (ws ! k) \<and> (t_priority (ws ! k) > hp \<or> t_priority (ws ! k) = hp \<and> sel \<noteq> 0xFF \<and>
        k > cur \<and> unat sel \<le> cur) then word_of_nat k else sel) = sel"
      using keep by auto
    ultimately show ?thesis by (simp only:)
  qed
qed

lemma select_fold:
  assumes len: "length ts = 8" and cur: "unat cur < 8" and k: "k \<le> 8"
  shows "\<exists>hp sel. fold (select_step tick cur) [0..<k] (ts, 0, 0xFF) =
      (map (wake tick) (take k ts) @ drop k ts, hp, sel) \<and>
    select_inv (map (wake tick) ts) (unat cur) k hp sel"
  using k
proof (induction k)
  case 0
  then show ?case by (simp add: select_inv_def)
next
  case (Suc k)
  let ?ws = "map (wake tick) ts" and ?ts = "map (wake tick) (take k ts) @ drop k ts"
  from Suc obtain hp sel where
    fold: "fold (select_step tick cur) [0..<k] (ts, 0, 0xFF) = (?ts, hp, sel)" and
    inv: "select_inv ?ws (unat cur) k hp sel" by auto
  have k: "k < 8" using Suc.prems by simp
  have nth: "?ts ! k = ts ! k" using k len by (simp add: nth_append)
  have upd: "?ts[k := wake tick (ts ! k)] = map (wake tick) (take (Suc k) ts) @ drop (Suc k) ts"
    using k len by (simp add: list_update_append take_Suc_conv_app_nth Cons_nth_drop_Suc [symmetric])
  have wk: "?ws ! k = wake tick (ts ! k)" using k len by simp
  have le: "sel \<le> cur \<longleftrightarrow> unat sel \<le> unat cur" by (simp add: word_le_nat_alt)
  have step: "fold (select_step tick cur) [0..<Suc k] (ts, 0, 0xFF) = select_step tick cur k (?ts, hp, sel)"
    using fold by simp
  have eq: "select_step tick cur k (?ts, hp, sel) =
     (map (wake tick) (take (Suc k) ts) @ drop (Suc k) ts,
      (if runnable (wake tick (ts ! k)) \<and> t_priority (ts ! k) > hp then t_priority (ts ! k) else hp),
      (if runnable (wake tick (ts ! k)) \<and> (t_priority (ts ! k) > hp \<or>
           t_priority (ts ! k) = hp \<and> sel \<noteq> 0xFF \<and> k > unat cur \<and> unat sel \<le> unat cur)
       then word_of_nat k else sel))"
    using select_step_eq [of k ?ts tick cur hp sel] k len unfolding nth upd le by simp
  show ?case
    using select_inv_step [OF inv k cur] unfolding step eq wk t_priority_wake by blast
qed

lemma select_next_index:
  assumes len: "length ts = 8" and cur: "cur < 8" and inv: "select_inv ts cur 8 hp sel"
  shows "(if sel = 0xFF then cur else unat sel) = round_robin ts cur"
proof (cases "hp = 0")
  case True
  then have "\<not> candidate ts i" for i
    using inv len by (auto simp: select_inv_def candidate_def)
  then have "round_robin ts cur = cur"
    by (simp add: round_robin_def split: option.split) (auto simp: find_upt_Some_iff)
  then show ?thesis using inv True by (simp add: select_inv_def)
next
  case False
  let ?c = "candidate ts"
  have sel: "unat sel < 8" "runnable (ts ! unat sel)" "t_priority (ts ! unat sel) = hp"
    using inv False by (simp_all add: select_inv_def)
  then have ff: "sel \<noteq> 0xFF" by auto
  have cand: "?c i \<longleftrightarrow> i < 8 \<and> runnable (ts ! i) \<and> t_priority (ts ! i) = hp" for i
    using inv False len sel by (auto simp: candidate_def select_inv_def word_neq_0_conv intro: order_antisym)
  show ?thesis
  proof (cases "cur < unat sel")
    case True
    then have "find (\<lambda>i. cur < i \<and> ?c i) [0..<length ts] = Some (unat sel)"
      using inv False sel len by (auto simp: find_upt_Some_iff cand select_inv_def)
    then show ?thesis using ff by (simp add: round_robin_def)
  next
    case c: False
    have "find (\<lambda>i. cur < i \<and> ?c i) [0..<length ts] = None"
      using inv False c len by (auto simp: find_upt_None_iff cand select_inv_def)
    moreover have "find ?c [0..<length ts] = Some (unat sel)"
      using inv False c sel len by (auto simp: find_upt_Some_iff cand select_inv_def)
    ultimately show ?thesis using ff by (simp add: round_robin_def)
  qed
qed

lemma select_next_spec:
  assumes wf: "wf_sched (scheduler s)" and tick: "get_tick_ms E (world s) = (tick, w)"
  shows "v4_task_select_next E s =
    (let ts = map (wake tick) (tasks (scheduler s))
     in Ret (word_of_nat (round_robin ts (cur_index s)))
          (s\<lparr>world := w, scheduler := (scheduler s)\<lparr>tasks := ts\<rparr>\<rparr>))"
proof -
  let ?ts = "tasks (scheduler s)" and ?cur = "current_task (scheduler s)"
  let ?ws = "map (wake tick) ?ts"
  have len: "length ?ts = 8" and cur: "unat ?cur < 8"
    using wf by (simp_all add: wf_sched_def V4_MAX_TASKS_def)
  obtain hp sel where fold: "fold (select_step tick ?cur) [0..<8] (?ts, 0, 0xFF) = (?ws, hp, sel)"
    and inv: "select_inv ?ws (unat ?cur) 8 hp sel"
    using select_fold [OF len cur order_refl, of tick] len by auto
  have rr: "(if sel = 0xFF then unat ?cur else unat sel) = round_robin ?ws (unat ?cur)"
    using select_next_index [OF _ cur inv] len by simp
  have "(if sel = 0xFF then ?cur else sel) = word_of_nat (round_robin ?ws (unat ?cur))"
    using arg_cong [OF rr, of "word_of_nat :: nat \<Rightarrow> u8"] by (simp split: if_splits)
  then show ?thesis
    using tick fold
    by (simp add: v4_task_select_next_def on_world_def V4_MAX_TASKS_def cur_index_def Let_def split: if_splits)
qed

text \<open>The choice is a task of the highest priority, behind the current one if there is such.\<close>

lemma round_robin_spec:
  assumes "candidate ts i"
  shows "candidate ts (round_robin ts cur)"
    and "cur < i \<Longrightarrow> cur < round_robin ts cur \<and> round_robin ts cur \<le> i"
    and "\<forall>j. candidate ts j \<longrightarrow> j \<le> cur \<Longrightarrow> round_robin ts cur \<le> i"
proof -
  have i: "i < length ts" using assms by (simp add: candidate_def)
  let ?P = "\<lambda>i. cur < i \<and> candidate ts i"
  obtain j where j: "find (candidate ts) [0..<length ts] = Some j" "candidate ts j"
    using assms i by (cases "find (candidate ts) [0..<length ts]") (auto simp: find_upt_None_iff find_upt_Some_iff)
  show "candidate ts (round_robin ts cur)"
    using j by (simp add: round_robin_def split: option.split) (auto simp: find_upt_Some_iff)
  show "cur < round_robin ts cur \<and> round_robin ts cur \<le> i" if lt: "cur < i"
  proof -
    obtain k where k: "find ?P [0..<length ts] = Some k"
      using assms i lt by (cases "find ?P [0..<length ts]") (auto simp: find_upt_None_iff)
    then have "round_robin ts cur = k" by (simp add: round_robin_def)
    moreover have "cur < k" "k \<le> i"
      using k assms lt by (auto simp: find_upt_Some_iff not_less [symmetric])
    ultimately show ?thesis by simp
  qed
  show "round_robin ts cur \<le> i" if "\<forall>j. candidate ts j \<longrightarrow> j \<le> cur"
  proof -
    have "find ?P [0..<length ts] = None" using that by (auto simp: find_upt_None_iff)
    then have "round_robin ts cur = j" using j by (simp add: round_robin_def)
    moreover have "j \<le> i" using j assms by (auto simp: find_upt_Some_iff not_less [symmetric])
    ultimately show ?thesis by simp
  qed
qed

lemma round_robin_none: "(\<And>i. \<not> candidate ts i) \<Longrightarrow> round_robin ts cur = cur"
  by (auto simp: round_robin_def find_upt_Some_iff split: option.split)

lemma round_robin_less: "cur < length ts \<Longrightarrow> round_robin ts cur < length ts"
  by (auto simp: round_robin_def find_upt_Some_iff split: option.split)

section \<open>Contexts are kept\<close>

text \<open>The stacks stored in a task.\<close>

definition stored :: "stack_block option \<Rightarrow> nat \<Rightarrow> i32 list" where
  "stored b d = (case b of None \<Rightarrow> [] | Some blk \<Rightarrow> take d (written blk))"

definition stored_ds :: "v4_task_t \<Rightarrow> i32 list" where
  "stored_ds t = stored (ds_base t) (unat (ds_depth t))"

definition stored_rs :: "v4_task_t \<Rightarrow> i32 list" where
  "stored_rs t = stored (rs_base t) (unat (rs_depth t))"

text \<open>Blocks that hold whatever the VM's stacks can hold: those of the default sizes.\<close>

definition roomy :: "v4_task_t \<Rightarrow> bool" where
  "roomy t \<longleftrightarrow> (case ds_base t of None \<Rightarrow> True | Some b \<Rightarrow> DS_SIZE \<le> cap b) \<and>
     (case rs_base t of None \<Rightarrow> True | Some b \<Rightarrow> RS_SIZE \<le> cap b)"

definition has_blocks :: "v4_task_t \<Rightarrow> bool" where
  "has_blocks t \<longleftrightarrow> ds_base t \<noteq> None \<and> rs_base t \<noteq> None"

lemma save_block_outcome:
  assumes "d \<le> length arr" and "wf_block b d0"
  shows "save_block arr d b = Inl OutOfBounds \<or>
    (\<exists>b'. save_block arr d b = Inr b' \<and> wf_block b' d \<and> (b \<noteq> None \<longrightarrow> stored b' d = take d arr) \<and>
      (b' = None \<longleftrightarrow> b = None) \<and> map_option cap b' = map_option cap b)"
  using assms by (auto simp: save_block_def wf_block_def stored_def split: option.split)

lemma save_block_fits:
  assumes "case b of None \<Rightarrow> True | Some blk \<Rightarrow> n \<le> cap blk" and "d \<le> n"
  shows "save_block arr d b \<noteq> Inl u"
  using assms by (auto simp: save_block_def split: option.splits)

text \<open>A saved task is well-formed; it holds the stacks, unless the data stack is full.\<close>

lemma save_context_outcome:
  assumes s: "wf_stacks s" and t: "wf_task t"
  shows "v4_task_save_context s t = Inl OutOfBounds \<and> \<not> roomy t \<or>
    (\<exists>t'. v4_task_save_context s t = Inr t' \<and> wf_task t' \<and>
      (\<exists>db rb. t' = t\<lparr>ds_depth := word_of_nat (sp s), rs_depth := word_of_nat (rp s), ds_base := db, rs_base := rb\<rparr>) \<and>
      (sp s < DS_SIZE \<and> has_blocks t \<longrightarrow> stored_ds t' = data_stack s \<and> stored_rs t' = return_stack s) \<and>
      (has_blocks t' = has_blocks t) \<and> (roomy t' = roomy t))"
proof -
  let ?d = "unat (word_of_nat (sp s) :: u8)" and ?r = "unat (word_of_nat (rp s) :: u8)"
  have lens: "length (DS s) = 256" "length (RS s) = 64" "sp s \<le> 256" "rp s \<le> 64"
    using s by (simp_all add: wf_stacks_def DS_SIZE_def RS_SIZE_def)
  have d: "?d \<le> sp s" "?d < 256" and deq: "sp s < DS_SIZE \<Longrightarrow> ?d = sp s"
    using lens by (simp_all add: unsigned_of_nat take_bit_nat_less_eq_self take_bit_nat_eq_self DS_SIZE_def)
      (use unsigned_less [of "word_of_nat (sp s) :: u8", where 'a = nat] in \<open>simp add: unsigned_of_nat\<close>)
  have r: "?r = rp s" using lens by (intro unat_small) simp
  have blocks: "wf_block (ds_base t) (unat (ds_depth t))" "wf_block (rs_base t) (unat (rs_depth t))"
    using t by (simp_all add: wf_task_def)
  have ds: "?d \<le> length (DS s)" and rs: "?r \<le> length (RS s)" using lens d r by simp_all
  show ?thesis
  proof (cases "save_block (DS s) ?d (ds_base t)")
    case (Inl u)
    then have "u = OutOfBounds" using save_block_outcome [OF ds blocks(1)] by auto
    moreover have "\<not> roomy t"
      using save_block_fits [where b = "ds_base t" and n = DS_SIZE and d = ?d] Inl d by (auto simp: roomy_def DS_SIZE_def)
    ultimately show ?thesis using Inl by (simp add: v4_task_save_context_def)
  next
    case db: (Inr db)
    show ?thesis
    proof (cases "save_block (RS s) ?r (rs_base t)")
      case (Inl u)
      then have "u = OutOfBounds" using save_block_outcome [OF rs blocks(2)] by auto
      moreover have "\<not> roomy t"
        using save_block_fits [where b = "rs_base t" and n = RS_SIZE and d = ?r] Inl r lens by (auto simp: roomy_def RS_SIZE_def)
      ultimately show ?thesis using Inl db by (simp add: v4_task_save_context_def)
    next
      case rb: (Inr rb)
      let ?t = "t\<lparr>ds_depth := word_of_nat (sp s), rs_depth := word_of_nat (rp s), ds_base := db, rs_base := rb\<rparr>"
      have run: "v4_task_save_context s t = Inr ?t"
        using db rb by (simp add: v4_task_save_context_def)
      have D: "wf_block db ?d" "ds_base t \<noteq> None \<longrightarrow> stored db ?d = take ?d (DS s)"
          "db = None \<longleftrightarrow> ds_base t = None" "map_option cap db = map_option cap (ds_base t)"
        using save_block_outcome [OF ds blocks(1)] db by auto
      have R: "wf_block rb ?r" "rs_base t \<noteq> None \<longrightarrow> stored rb ?r = take ?r (RS s)"
          "rb = None \<longleftrightarrow> rs_base t = None" "map_option cap rb = map_option cap (rs_base t)"
        using save_block_outcome [OF rs blocks(2)] rb by auto
      have "wf_task ?t" using D R r lens by (simp add: wf_task_def RS_SIZE_def)
      moreover have "sp s < DS_SIZE \<and> has_blocks t \<longrightarrow> stored_ds ?t = data_stack s \<and> stored_rs ?t = return_stack s"
        using D(2) R(2) deq r
        by (cases "sp s < DS_SIZE")
          (simp_all add: stored_ds_def stored_rs_def has_blocks_def data_stack_def return_stack_def)
      moreover have "has_blocks ?t = has_blocks t" using D R by (simp add: has_blocks_def)
      moreover have "roomy ?t = roomy t"
        using D(3,4) R(3,4) by (auto simp: roomy_def split: option.splits)
      ultimately show ?thesis using run by blast
    qed
  qed
qed

lemma load_block_eq:
  assumes "wf_block b d" and "d \<le> length arr"
  shows "load_block b d arr = Inr (if b = None then arr else blit (stored b d) d arr)"
  using assms by (auto simp: load_block_def wf_block_def stored_def blit_def split: option.split)

text \<open>Restoring a task makes its stored stacks the stacks of the VM.\<close>

lemma restore_context_outcome:
  assumes s: "wf_stacks s" and t: "wf_task t"
  shows "\<exists>ds rs. v4_task_restore_context t s =
      Ret () (s\<lparr>DS := ds, RS := rs, sp := unat (ds_depth t), rp := unat (rs_depth t)\<rparr>) \<and>
    wf_stacks (s\<lparr>DS := ds, RS := rs, sp := unat (ds_depth t), rp := unat (rs_depth t)\<rparr>) \<and>
    (has_blocks t \<longrightarrow> take (unat (ds_depth t)) ds = stored_ds t \<and> take (unat (rs_depth t)) rs = stored_rs t)"
proof -
  have lens: "length (DS s) = 256" "length (RS s) = 64"
    using s by (simp_all add: wf_stacks_def DS_SIZE_def RS_SIZE_def)
  have d: "unat (ds_depth t) < 256" using unsigned_less [of "ds_depth t", where 'a = nat] by simp
  have r: "unat (rs_depth t) \<le> 64" using t by (simp add: wf_task_def RS_SIZE_def)
  have len: "length (stored b n) = n" if "wf_block b n" "b \<noteq> None" for b n
    using that by (auto simp: stored_def wf_block_def)
  have B: "wf_block (ds_base t) (unat (ds_depth t))" "wf_block (rs_base t) (unat (rs_depth t))"
    using t by (simp_all add: wf_task_def)
  have ds: "load_block (ds_base t) (unat (ds_depth t)) (DS s) =
      Inr (if ds_base t = None then DS s else blit (stored_ds t) (unat (ds_depth t)) (DS s))"
    unfolding stored_ds_def using B d lens by (intro load_block_eq) simp_all
  have rs: "load_block (rs_base t) (unat (rs_depth t)) (RS s) =
      Inr (if rs_base t = None then RS s else blit (stored_rs t) (unat (rs_depth t)) (RS s))"
    unfolding stored_rs_def using B r lens by (intro load_block_eq) simp_all
  let ?ds = "if ds_base t = None then DS s else blit (stored_ds t) (unat (ds_depth t)) (DS s)"
  let ?rs = "if rs_base t = None then RS s else blit (stored_rs t) (unat (rs_depth t)) (RS s)"
  have "length (stored_ds t) = unat (ds_depth t)" if "ds_base t \<noteq> None"
    using len [OF B(1) that] by (simp add: stored_ds_def)
  moreover have "length (stored_rs t) = unat (rs_depth t)" if "rs_base t \<noteq> None"
    using len [OF B(2) that] by (simp add: stored_rs_def)
  ultimately show ?thesis
    using ds rs d r lens
    by (intro exI [of _ ?ds] exI [of _ ?rs] conjI impI)
      (auto simp: v4_task_restore_context_def wf_stacks_def DS_SIZE_def RS_SIZE_def has_blocks_def)
qed

section \<open>A switch\<close>

lemma set_task_simps [simp]:
  "DS (set_task i t s) = DS s" "RS (set_task i t s) = RS s" "sp (set_task i t s) = sp s"
  "rp (set_task i t s) = rp s" "current_task (scheduler (set_task i t s)) = current_task (scheduler s)"
  "tasks (scheduler (set_task i t s)) = (tasks (scheduler s))[i := t]"
  "cur_index (set_task i t s) = cur_index s" "data_stack (set_task i t s) = data_stack s"
  "return_stack (set_task i t s) = return_stack s" "msg_queue (set_task i t s) = msg_queue s"
  by (simp_all add: set_task_def cur_index_def data_stack_def return_stack_def)

lemma world_set_task [simp]: "world (set_task i t s) = world s"
  by (simp add: set_task_def)

lemma set_task_same [simp]: "set_task i (task_at s i) s = s"
  by (simp add: set_task_def task_at_def)

lemma wf_vm_sched: "wf_vm s \<Longrightarrow> wf_sched (scheduler s)" and wf_vm_stacks: "wf_vm s \<Longrightarrow> wf_stacks s"
  by (simp_all add: wf_vm_def)

lemma wf_vm_cur [simp]: "wf_vm s \<Longrightarrow> cur_index s < 8"
  by (simp add: wf_vm_def wf_sched_def cur_index_def V4_MAX_TASKS_def)

lemma wf_vm_task: "wf_vm s \<Longrightarrow> i < 8 \<Longrightarrow> wf_task (task_at s i)"
  by (simp add: wf_vm_def wf_sched_def task_at_def V4_MAX_TASKS_def list_all_length)

text \<open>Changing the scheduler or the stacks within their invariants keeps the machine well-formed.\<close>

lemma wf_vm_replace:
  assumes "wf_vm s" and "wf_sched sc"
  shows "wf_vm (s\<lparr>scheduler := sc\<rparr>)"
  using assms by (simp add: wf_vm_def wf_stacks_def wf_mem_def wf_dict_def)

lemma wf_sched_tasks:
  "wf_sched sc \<Longrightarrow> length ts = length (tasks sc) \<Longrightarrow> list_all wf_task ts \<Longrightarrow> wf_sched (sc\<lparr>tasks := ts\<rparr>)"
  by (simp add: wf_sched_def)

lemma wf_sched_update:
  assumes "wf_sched sc" and "wf_task t" shows "wf_sched (sc\<lparr>tasks := (tasks sc)[i := t]\<rparr>)"
  using assms by (intro wf_sched_tasks) (auto simp: wf_sched_def list_all_iff dest: set_update_subset_insert [THEN subsetD])

lemma wf_set_task: "wf_vm s \<Longrightarrow> wf_task t \<Longrightarrow> wf_vm (set_task i t s)"
  unfolding set_task_def by (intro wf_vm_replace wf_sched_update wf_vm_sched)

lemma wf_task_state [simp]: "wf_task (t\<lparr>t_state := x\<rparr>) = wf_task t"
  and wf_task_exec [simp]: "wf_task (t\<lparr>exec_count := c\<rparr>) = wf_task t"
  and wf_task_wake [simp]: "wf_task (wake tick t) = wf_task t"
  and stored_state [simp]: "stored_ds (t\<lparr>t_state := x\<rparr>) = stored_ds t" "stored_rs (t\<lparr>t_state := x\<rparr>) = stored_rs t"
  and stored_exec [simp]: "stored_ds (t\<lparr>exec_count := c\<rparr>) = stored_ds t" "stored_rs (t\<lparr>exec_count := c\<rparr>) = stored_rs t"
  and stored_wake [simp]: "stored_ds (wake tick t) = stored_ds t" "stored_rs (wake tick t) = stored_rs t"
  and has_blocks_wake [simp]: "has_blocks (wake tick t) = has_blocks t"
  and has_blocks_state [simp]: "has_blocks (t\<lparr>t_state := x\<rparr>) = has_blocks t"
  and has_blocks_exec [simp]: "has_blocks (t\<lparr>exec_count := c\<rparr>) = has_blocks t"
  and roomy_state [simp]: "roomy (t\<lparr>t_state := x\<rparr>) = roomy t"
  and roomy_exec [simp]: "roomy (t\<lparr>exec_count := c\<rparr>) = roomy t"
  and roomy_wake [simp]: "roomy (wake tick t) = roomy t"
  by (simp_all add: wf_task_def wake_def stored_ds_def stored_rs_def has_blocks_def roomy_def)

definition parked :: "v4_task_t \<Rightarrow> ('d, 'm) Vm_scheme \<Rightarrow> v4_task_t \<Rightarrow> bool" where
  "parked a s a' \<longleftrightarrow>
    (if t_state a = RUNNING
     then t_state a' = READY \<and> (sp s < DS_SIZE \<and> has_blocks a \<longrightarrow> stored_ds a' = data_stack s \<and> stored_rs a' = return_stack s)
     else a' = a) \<and>
    wf_task a' \<and> t_priority a' = t_priority a \<and> sleep_until_tick a' = sleep_until_tick a \<and>
    has_blocks a' = has_blocks a \<and> roomy a' = roomy a"

lemma save_current_outcome:
  assumes wf: "wf_vm s"
  shows "save_current s = Undef OutOfBounds \<and> \<not> roomy (task_at s (cur_index s)) \<or>
    (\<exists>a'. save_current s = Ret () (set_task (cur_index s) a' s) \<and> parked (task_at s (cur_index s)) s a')"
proof -
  let ?a = "task_at s (cur_index s)"
  have wa: "wf_task ?a" using wf by (simp add: wf_vm_task)
  show ?thesis
  proof (cases "t_state ?a = RUNNING")
    case True
    show ?thesis
      using save_context_outcome [OF wf_vm_stacks [OF wf] wa] True
      by (auto simp: save_current_def parked_def)
  next
    case False
    then show ?thesis using wa by (auto simp: save_current_def parked_def)
  qed
qed

definition switched :: "('d, 'm) Vm_scheme \<Rightarrow> nat \<Rightarrow> bool" where
  "switched s n \<longleftrightarrow> n \<noteq> cur_index s \<or> \<not> runnable (task_at s (cur_index s))"

lemma runnable_iff: "runnable t \<longleftrightarrow> t_state t \<noteq> DEAD \<and> t_state t \<noteq> BLOCKED"
  by (cases "t_state t") (auto simp: runnable_def)

lemma switch_to_outcome:
  assumes wf: "wf_vm s" and n: "n < 8"
  shows "\<exists>t. switch_to (word_of_nat n) s = Ret 0 t \<and> wf_vm t \<and> cur_index t = n \<and>
    tasks (scheduler t) = (tasks (scheduler s))[n := (task_at s n)\<lparr>t_state := RUNNING,
        exec_count := (if switched s n then exec_count (task_at s n) + 1 else exec_count (task_at s n))\<rparr>] \<and>
    (if switched s n
     then (has_blocks (task_at s n) \<longrightarrow> data_stack t = stored_ds (task_at s n) \<and> return_stack t = stored_rs (task_at s n)) \<and>
       sp t = unat (ds_depth (task_at s n)) \<and> rp t = unat (rs_depth (task_at s n))
     else data_stack t = data_stack s \<and> return_stack t = return_stack s \<and> sp t = sp s \<and> rp t = rp s) \<and>
    world t = world s \<and> mem t = mem s \<and> words t = words s \<and> msg_queue t = msg_queue s"
proof -
  have un: "unat (word_of_nat n :: u8) = n" using n by (intro unat_small) simp
  have eq: "word_of_nat n = current_task (scheduler s) \<longleftrightarrow> n = cur_index s"
    using un by (auto simp: cur_index_def)
  let ?nt = "task_at s n"
  have wn: "wf_task ?nt" using wf_vm_task [OF wf n] .
  show ?thesis
  proof (cases "switched s n")
    case False
    then have n: "n = cur_index s" "t_state (task_at s (cur_index s)) \<noteq> DEAD" "t_state (task_at s (cur_index s)) \<noteq> BLOCKED"
      by (auto simp: switched_def runnable_iff)
    let ?t = "set_task (cur_index s) ((task_at s (cur_index s))\<lparr>t_state := RUNNING\<rparr>) s"
    have "switch_to (word_of_nat n) s = Ret 0 ?t"
      using n eq by (simp add: switch_to_def)
    moreover have "wf_vm ?t" using wn n by (intro wf_set_task wf) simp
    ultimately show ?thesis
      using False n by (auto simp: set_task_def data_stack_def return_stack_def cur_index_def)
  next
    case True
    then have ne: "\<not> (n = cur_index s \<and> t_state (task_at s (cur_index s)) \<noteq> DEAD \<and> t_state (task_at s (cur_index s)) \<noteq> BLOCKED)"
      by (auto simp: switched_def runnable_iff)
    obtain ds rs where rc: "v4_task_restore_context ?nt s =
        Ret () (s\<lparr>DS := ds, RS := rs, sp := unat (ds_depth ?nt), rp := unat (rs_depth ?nt)\<rparr>)"
      and ws: "wf_stacks (s\<lparr>DS := ds, RS := rs, sp := unat (ds_depth ?nt), rp := unat (rs_depth ?nt)\<rparr>)"
      and st: "has_blocks ?nt \<longrightarrow> take (unat (ds_depth ?nt)) ds = stored_ds ?nt \<and> take (unat (rs_depth ?nt)) rs = stored_rs ?nt"
      using restore_context_outcome [OF wf_vm_stacks [OF wf] wn] by auto
    let ?s1 = "s\<lparr>DS := ds, RS := rs, sp := unat (ds_depth ?nt), rp := unat (rs_depth ?nt)\<rparr>"
    let ?nt' = "?nt\<lparr>t_state := RUNNING, exec_count := exec_count ?nt + 1\<rparr>"
    let ?sc = "(scheduler s)\<lparr>tasks := (tasks (scheduler s))[n := ?nt'], current_task := word_of_nat n,
        context_switches := context_switches (scheduler s) + 1\<rparr>"
    have run: "switch_to (word_of_nat n) s = Ret 0 (?s1\<lparr>scheduler := ?sc\<rparr>)"
      using ne eq rc by (auto simp: switch_to_def un set_task_def Let_def)
    have "wf_sched ((scheduler s)\<lparr>tasks := (tasks (scheduler s))[n := ?nt']\<rparr>)"
      using wn by (intro wf_sched_update wf_vm_sched [OF wf]) simp
    then have "wf_sched ?sc" using n un by (simp add: wf_sched_def V4_MAX_TASKS_def)
    moreover have "wf_vm ?s1" using wf ws by (simp add: wf_vm_def wf_mem_def wf_dict_def)
    ultimately have "wf_vm (?s1\<lparr>scheduler := ?sc\<rparr>)" by (intro wf_vm_replace)
    then show ?thesis
      using run True st un by (simp add: cur_index_def data_stack_def return_stack_def)
  qed
qed

section \<open>\<open>vm_schedule\<close>\<close>

text \<open>Everything a call does, by the task chosen.\<close>

definition woken_tasks :: "u32 \<Rightarrow> v4_task_t \<Rightarrow> ('d, 'm) Vm_scheme \<Rightarrow> v4_task_t list" where
  "woken_tasks tick a s = map (wake tick) ((tasks (scheduler s))[cur_index s := a])"

definition scheduled :: "u32 \<Rightarrow> v4_task_t \<Rightarrow> nat \<Rightarrow> 'd machine \<Rightarrow> 'd machine \<Rightarrow> bool" where
  "scheduled tick a n s t \<longleftrightarrow>
    (let ts = woken_tasks tick a s; sw = (n \<noteq> cur_index s \<or> \<not> runnable (ts ! n)) in
     n = round_robin ts (cur_index s) \<and> n < 8 \<and> wf_vm t \<and> cur_index t = n \<and>
     tasks (scheduler t) = ts[n := (ts ! n)\<lparr>t_state := RUNNING,
        exec_count := (if sw then exec_count (ts ! n) + 1 else exec_count (ts ! n))\<rparr>] \<and>
     (if sw
      then (has_blocks (ts ! n) \<longrightarrow> data_stack t = stored_ds (ts ! n) \<and> return_stack t = stored_rs (ts ! n)) \<and>
        sp t = unat (ds_depth (ts ! n)) \<and> rp t = unat (rs_depth (ts ! n))
      else data_stack t = data_stack s \<and> return_stack t = return_stack s \<and> sp t = sp s \<and> rp t = rp s) \<and>
     mem t = mem s \<and> words t = words s \<and> msg_queue t = msg_queue s)"

lemma schedule_outcome:
  assumes wf: "wf_vm s" and tick: "get_tick_ms E (world s) = (tick, w)"
  obtains (overflow) "schedule E s = Undef OutOfBounds" and "\<not> roomy (task_at s (cur_index s))"
  | (returns) a n t where "schedule E s = Ret 0 t" and "parked (task_at s (cur_index s)) s a"
      and "scheduled tick a n s t" and "world t = w"
proof -
  let ?c = "cur_index s"
  consider "save_current s = Undef OutOfBounds" "\<not> roomy (task_at s ?c)"
    | a where "save_current s = Ret () (set_task ?c a s)" "parked (task_at s ?c) s a"
    using save_current_outcome [OF wf] by auto
  then show ?thesis
  proof cases
    case 1
    then show ?thesis using overflow by (simp add: schedule_def)
  next
    case 2
    let ?s1 = "set_task ?c a s"
    have wf1: "wf_vm ?s1" using 2 wf by (intro wf_set_task) (simp_all add: parked_def)
    let ?ts = "woken_tasks tick a s"
    have ts: "map (wake tick) (tasks (scheduler ?s1)) = ?ts" by (simp add: woken_tasks_def)
    let ?s2 = "?s1\<lparr>world := w, scheduler := (scheduler ?s1)\<lparr>tasks := ?ts\<rparr>\<rparr>"
    let ?n = "round_robin ?ts ?c"
    have len: "length ?ts = 8" using wf by (simp add: woken_tasks_def wf_vm_def wf_sched_def V4_MAX_TASKS_def)
    have sel: "v4_task_select_next E ?s1 = Ret (word_of_nat ?n) ?s2"
      using select_next_spec [OF wf_vm_sched [OF wf1], of E tick w] tick by (simp add: woken_tasks_def Let_def)
    have "wf_sched (scheduler ?s1)" using wf1 by (rule wf_vm_sched)
    then have "wf_sched ((scheduler ?s1)\<lparr>tasks := ?ts\<rparr>)"
      by (intro wf_sched_tasks) (auto simp: wf_sched_def list_all_iff woken_tasks_def)
    then have wf2: "wf_vm ?s2" using wf1 by (intro wf_vm_replace) simp
    have n: "?n < 8" using len wf round_robin_less [of ?c ?ts] by simp
    have c2: "cur_index ?s2 = ?c" and at2: "task_at ?s2 i = ?ts ! i" for i
      by (simp_all add: cur_index_def task_at_def)
    have sw: "switched ?s2 ?n \<longleftrightarrow> ?n \<noteq> ?c \<or> \<not> runnable (?ts ! ?n)"
      by (auto simp: switched_def c2 at2)
    have s2: "data_stack ?s2 = data_stack s" "return_stack ?s2 = return_stack s" "sp ?s2 = sp s" "rp ?s2 = rp s"
        "world ?s2 = w" "mem ?s2 = mem s" "words ?s2 = words s" "msg_queue ?s2 = msg_queue s"
        "tasks (scheduler ?s2) = ?ts"
      by (simp_all add: set_task_def data_stack_def return_stack_def)
    note T = switch_to_outcome [OF wf2 n, unfolded at2 sw s2]
    from T obtain t where t: "switch_to (word_of_nat ?n) ?s2 = Ret 0 t" and
        T': "wf_vm t \<and> cur_index t = ?n \<and>
        tasks (scheduler t) = ?ts[?n := (?ts ! ?n)\<lparr>t_state := RUNNING,
           exec_count := (if ?n \<noteq> ?c \<or> \<not> runnable (?ts ! ?n) then exec_count (?ts ! ?n) + 1 else exec_count (?ts ! ?n))\<rparr>] \<and>
        (if ?n \<noteq> ?c \<or> \<not> runnable (?ts ! ?n)
         then (has_blocks (?ts ! ?n) \<longrightarrow> data_stack t = stored_ds (?ts ! ?n) \<and> return_stack t = stored_rs (?ts ! ?n)) \<and>
           sp t = unat (ds_depth (?ts ! ?n)) \<and> rp t = unat (rs_depth (?ts ! ?n))
         else data_stack t = data_stack s \<and> return_stack t = return_stack s \<and> sp t = sp s \<and> rp t = rp s) \<and>
        world t = w \<and> mem t = mem s \<and> words t = words s \<and> msg_queue t = msg_queue s"
      by (elim exE conjE) (rule that, assumption, intro conjI, assumption+)
    have run: "schedule E s = Ret 0 t"
      using 2(1) sel t by (simp add: schedule_def)
    have "scheduled tick a ?n s t"
      using T' n unfolding scheduled_def Let_def by blast
    moreover have "world t = w" using T' by blast
    ultimately show ?thesis using returns [OF run 2(2)] by blast
  qed
qed

lemma nth_woken:
  assumes "wf_vm s" and "i < 8"
  shows "woken_tasks tick a s ! i = wake tick (if i = cur_index s then a else task_at s i)"
  using assms by (auto simp: woken_tasks_def wf_vm_def wf_sched_def V4_MAX_TASKS_def task_at_def)

lemma length_woken [simp]: "wf_vm s \<Longrightarrow> length (woken_tasks tick a s) = 8"
  by (simp add: woken_tasks_def wf_vm_def wf_sched_def V4_MAX_TASKS_def)

text \<open>At most the current task is running before, exactly it is running afterwards.\<close>

definition one_running :: "('d, 'm) Vm_scheme \<Rightarrow> bool" where
  "one_running s \<longleftrightarrow> (\<forall>i < 8. t_state (task_at s i) = RUNNING \<longrightarrow> i = cur_index s)"

lemma scheduled_running:
  assumes wf: "wf_vm s" and one: "one_running s" and p: "parked (task_at s (cur_index s)) s a"
    and sch: "scheduled tick a n s t" and i: "i < 8"
  shows "t_state (task_at t i) = RUNNING \<longleftrightarrow> i = cur_index t"
proof -
  have "t_state (wake tick x) = RUNNING \<longleftrightarrow> t_state x = RUNNING" for x
    by (simp add: t_state_wake)
  then have w: "t_state (woken_tasks tick a s ! i) \<noteq> RUNNING"
    using one p i by (auto simp: nth_woken [OF wf i] one_running_def parked_def split: if_splits)
  show ?thesis
  proof (cases "i = n")
    case True
    then show ?thesis using sch i wf by (auto simp: scheduled_def Let_def task_at_def)
  next
    case False
    then have "task_at t i = woken_tasks tick a s ! i" "cur_index t = n"
      using sch by (auto simp: scheduled_def Let_def task_at_def)
    then show ?thesis using w False by simp
  qed
qed

lemma schedule_roomy:
  assumes "wf_vm s" and "roomy (task_at s (cur_index s))"
  shows "\<exists>t. schedule E s = Ret 0 t \<and> wf_vm t"
proof (cases "get_tick_ms E (world s)")
  case (Pair tick w)
  show ?thesis
    by (rule schedule_outcome [OF assms(1) Pair]) (use assms(2) in \<open>auto simp: scheduled_def Let_def\<close>)
qed

lemma keeps_schedule [keeps_intros]: "OutOfBounds \<in> U \<Longrightarrow> keeps wf_vm U (schedule E)"
proof (rule keepsI)
  fix s a t assume wf: "wf_vm s" and run: "schedule E s = Ret a t"
  obtain tick w where tick: "get_tick_ms E (world s) = (tick, w)" by (cases "get_tick_ms E (world s)")
  show "wf_vm t"
    by (rule schedule_outcome [OF wf tick]) (use run in \<open>auto simp: scheduled_def Let_def\<close>)
next
  fix s e t assume wf: "wf_vm s" and run: "schedule E s = Fail e t"
  obtain tick w where tick: "get_tick_ms E (world s) = (tick, w)" by (cases "get_tick_ms E (world s)")
  show "wf_vm t"
    by (rule schedule_outcome [OF wf tick]) (use run in auto)
next
  fix s u assume wf: "wf_vm s" and run: "schedule E s = Undef u" and U: "OutOfBounds \<in> U"
  obtain tick w where tick: "get_tick_ms E (world s) = (tick, w)" by (cases "get_tick_ms E (world s)")
  show "u \<in> U"
    by (rule schedule_outcome [OF wf tick]) (use run U in auto)
qed

text \<open>A switch keeps the stacks of the running task, and makes those of the chosen one current.\<close>

lemma schedule_switch:
  assumes wf: "wf_vm s" and tick: "get_tick_ms E (world s) = (tick, w)" and run: "schedule E s = Ret r t"
    and cur: "t_state (task_at s (cur_index s)) = RUNNING" "has_blocks (task_at s (cur_index s))"
    and ne: "cur_index t \<noteq> cur_index s"
  shows "sp s < DS_SIZE \<Longrightarrow> stored_ds (task_at t (cur_index s)) = data_stack s \<and>
      stored_rs (task_at t (cur_index s)) = return_stack s"
    and "has_blocks (task_at s (cur_index t)) \<Longrightarrow> data_stack t = stored_ds (task_at s (cur_index t)) \<and>
      return_stack t = stored_rs (task_at s (cur_index t))"
    and "t_state (task_at t (cur_index s)) = READY"
    and "has_blocks (task_at t (cur_index s))"
proof -
  let ?c = "cur_index s"
  obtain a n where p: "parked (task_at s ?c) s a" and sch: "scheduled tick a n s t"
    by (rule schedule_outcome [OF wf tick]) (use run in auto)
  have n: "cur_index t = n" "n < 8" "n \<noteq> ?c"
    using sch ne by (auto simp: scheduled_def Let_def)
  have c: "?c < 8" using wf by simp
  have tc: "task_at t ?c = wake tick a"
    using sch n c by (simp add: scheduled_def Let_def task_at_def nth_woken [OF wf c])
  show "stored_ds (task_at t ?c) = data_stack s \<and> stored_rs (task_at t ?c) = return_stack s" if "sp s < DS_SIZE"
    using that p cur tc by (simp add: parked_def)
  show "t_state (task_at t ?c) = READY"
    using p cur tc by (simp add: parked_def t_state_wake)
  show "has_blocks (task_at t ?c)" using p cur tc by (simp add: parked_def)
  show "data_stack t = stored_ds (task_at s (cur_index t)) \<and> return_stack t = stored_rs (task_at s (cur_index t))"
    if "has_blocks (task_at s (cur_index t))"
    using that sch n by (simp add: scheduled_def Let_def nth_woken [OF wf n(2)])
qed

text \<open>The chosen task, when a runnable task of positive priority exists.\<close>

lemma scheduled_priority:
  assumes wf: "wf_vm s" and sch: "scheduled tick a n s t"
    and i: "i < 8" "runnable (woken_tasks tick a s ! i)" "0 < t_priority (woken_tasks tick a s ! i)"
  shows "candidate (woken_tasks tick a s) n"
proof -
  define ts where "ts = woken_tasks tick a s"
  define P where "P = (\<lambda>j. t_priority (ts ! j)) ` {j. j < 8 \<and> runnable (ts ! j)}"
  have len: "length ts = 8" using wf by (simp add: ts_def)
  have fin: "finite P" and "P \<noteq> {}" using i by (auto simp: P_def ts_def)
  then have "Max P \<in> P" by (rule Max_in)
  then obtain m where m: "m < 8" "runnable (ts ! m)" "t_priority (ts ! m) = Max P"
    by (auto simp: P_def)
  have max: "t_priority (ts ! j) \<le> t_priority (ts ! m)" if "j < 8" "runnable (ts ! j)" for j
    unfolding m(3) by (rule Max_ge [OF fin]) (use that in \<open>auto simp: P_def\<close>)
  have "0 < t_priority (ts ! m)"
    using max [of i] i by (auto simp: ts_def intro: less_le_trans)
  then have "candidate ts m"
    using m max len by (simp add: candidate_def)
  then show ?thesis
    using round_robin_spec(1) sch by (simp add: scheduled_def Let_def ts_def)
qed

end
