(* ===== verification/V4_Dictionary.thy ===== *)
theory V4_Dictionary
  imports V4_Stack
begin

text \<open>
  The dictionary of named words: registration, lookup and reset in \<^verbatim>\<open>src/core.cpp\<close>, and the creation
  and destruction of a VM in \<^verbatim>\<open>src/memory.cpp\<close>. A word's name is copied to the heap, or into the
  arena when the VM has one; both kinds are compared byte by byte as the code does. The locale
  \<open>name_table\<close> is what a client of registration and lookup relies on.
\<close>

section \<open>C strings\<close>

definition byte_of :: "char \<Rightarrow> u8" where
  "byte_of c = word_of_nat (of_char c)"

definition of_byte :: "u8 \<Rightarrow> char" where
  "of_byte b = char_of (unat b)"

text \<open>What \<open>strlen\<close>, \<open>strdup\<close> and \<open>strcmp\<close> see of a string: the characters before the first NUL.\<close>

definition c_str :: "string \<Rightarrow> string" where
  "c_str n = takeWhile (\<lambda>c. c \<noteq> CHR 0x00) n"

definition c_bytes :: "string \<Rightarrow> u8 list" where
  "c_bytes n = map byte_of (c_str n) @ [0]"

text \<open>\<open>strcmp(p, q) == 0\<close>; \<^term>\<open>None\<close> when it would read past the end of a buffer.\<close>

fun strcmp_eq :: "u8 list \<Rightarrow> u8 list \<Rightarrow> bool option" where
  "strcmp_eq (a # as) (b # bs) =
    (if a \<noteq> b then Some False else if a = 0 then Some True else strcmp_eq as bs)"
| "strcmp_eq _ _ = None"

definition c_string :: "u8 list \<Rightarrow> string" where
  "c_string bs = map of_byte (takeWhile (\<lambda>b. b \<noteq> 0) bs)"

lemma of_char_less: "(of_char c :: nat) < 256"
  by simp

lemma of_byte_byte_of [simp]: "of_byte (byte_of c) = c"
proof -
  have "unat (byte_of c) = of_char c"
    unfolding byte_of_def using of_char_less [of c] by (simp add: unsigned_of_nat take_bit_nat_eq_self)
  then show ?thesis by (simp add: of_byte_def)
qed

lemma byte_of_of_byte [simp]: "byte_of (of_byte b) = b"
proof -
  have "unat b < 256" using unsigned_less [of b, where 'a = nat] by simp
  then have "(of_char (char_of (unat b)) :: nat) = unat b"
    by simp
  then show ?thesis by (simp add: byte_of_def of_byte_def)
qed

lemma byte_of_eq_0_iff [simp]: "byte_of c = 0 \<longleftrightarrow> c = CHR 0x00"
proof -
  have "(0 :: u8) = byte_of (CHR 0x00)" by (simp add: byte_of_def)
  then show ?thesis by (metis of_byte_byte_of)
qed

lemma c_str_idem [simp]: "c_str (c_str n) = c_str n"
  by (simp add: c_str_def)

lemma c_str_Cons: "c_str (c # n) = (if c = CHR 0x00 then [] else c # c_str n)"
  by (simp add: c_str_def)

lemma c_bytes_Cons: "c_bytes (c # n) = (if c = CHR 0x00 then [0] else byte_of c # c_bytes n)"
  by (simp add: c_bytes_def c_str_Cons)

lemma length_c_bytes [simp]: "length (c_bytes n) = length (c_str n) + 1"
  by (simp add: c_bytes_def)

lemma takeWhile_c_bytes: "takeWhile (\<lambda>b. b \<noteq> 0) (c_bytes n @ bs) = map byte_of (c_str n)"
  by (induction n) (simp_all add: c_bytes_Cons c_str_Cons, simp_all add: c_bytes_def c_str_def)

lemma c_string_c_bytes [simp]: "c_string (c_bytes n @ bs) = c_str n" "c_string (c_bytes n) = c_str n"
  using takeWhile_c_bytes [of n bs] takeWhile_c_bytes [of n "[]"]
  by (simp_all add: c_string_def comp_def)

lemma strcmp_eq_c_bytes:
  assumes "0 \<in> set bs"
  shows "strcmp_eq bs (c_bytes n) = Some (c_string bs = c_str n)"
  using assms
proof (induction bs arbitrary: n)
  case Nil
  then show ?case by simp
next
  case (Cons b bs)
  have nul: "b = byte_of c \<longleftrightarrow> of_byte b = c" for c by auto
  show ?case
    using Cons nul by (cases n) (auto simp: c_bytes_Cons c_str_Cons c_string_def c_bytes_def c_str_def)
qed

section \<open>Operations\<close>

definition word_bytes :: "('d, 'm) Vm_scheme \<Rightarrow> name_ptr \<Rightarrow> u8 list" where
  "word_bytes s np = (case np of
      NullName \<Rightarrow> []
    | HeapName n \<Rightarrow> c_bytes n
    | ArenaName off \<Rightarrow> (case arena s of
          None \<Rightarrow> []
        | Some a \<Rightarrow> (case buffer a of None \<Rightarrow> [] | Some b \<Rightarrow> drop (unat off) b)))"

definition write_bytes :: "u8 list \<Rightarrow> nat \<Rightarrow> u8 list \<Rightarrow> u8 list" where
  "write_bytes b off bs = take off b @ bs @ drop (off + length bs) b"

definition copy_name :: "'d env \<Rightarrow> string option \<Rightarrow> ('d machine, name_ptr) act" where
  "copy_name E name s = (case name of
      None \<Rightarrow> Ret NullName s
    | Some n \<Rightarrow>
        (let len = (word_of_nat (length (c_str n) + 1) :: size_t) in
         case arena s of
           Some a \<Rightarrow>
             (case v4_arena_alloc (Some a) len 1 of
                (None, a') \<Rightarrow> panic E InvalidArg (s\<lparr>arena := a'\<rparr>)
              | (Some off, a') \<Rightarrow>
                  (case buffer a of
                     None \<Rightarrow> Undef OutOfBounds
                   | Some b \<Rightarrow>
                       if unat off + length (c_bytes n) > length b then Undef OutOfBounds
                       else Ret (ArenaName off)
                         (s\<lparr>arena := map_option (\<lambda>a1. a1\<lparr>buffer := Some (write_bytes b (unat off) (c_bytes n))\<rparr>) a'\<rparr>)))
         | None \<Rightarrow>
             bnd (on_world (malloc_ok E (length (c_str n) + 1))) (\<lambda>ok s1.
               if ok then Ret (HeapName (c_str n)) s1
               else panic E InvalidArg (s1\<lparr>words := (words s1)
                      [nat (word_count s1) := (words s1 ! nat (word_count s1))\<lparr>w_name := NullName\<rparr>]\<rparr>)) s))"

definition register_word :: "'d env \<Rightarrow> string option \<Rightarrow> u8 list \<Rightarrow> int \<Rightarrow> ('d machine, int) act" where
  "register_word E name code code_len s =
    (if word_count s \<ge> int V4_MAX_WORDS then panic E DictionaryFull s
     else bnd (copy_name E name) (\<lambda>np s1.
       Ret (word_count s1)
         (s1\<lparr>words := (words s1)[nat (word_count s1) :=
               \<lparr>w_name = np, w_code = Some code, w_code_len = code_len\<rparr>],
             word_count := word_count s1 + 1\<rparr>)) s)"

definition vm_register_word ::
    "'d env \<Rightarrow> string option \<Rightarrow> u8 list option \<Rightarrow> int \<Rightarrow> ('d machine option, int) act" where
  "vm_register_word E name code code_len = (case code of
      None \<Rightarrow> Ret (V4_ERR InvalidArg)
    | Some c \<Rightarrow>
        if code_len \<le> 0 then Ret (V4_ERR InvalidArg)
        else null_checked (V4_ERR InvalidArg) (returning (register_word E name c code_len)))"

definition vm_get_word :: "('d, 'm) Vm_scheme option \<Rightarrow> int \<Rightarrow> Word option" where
  "vm_get_word vm idx = (case vm of
      None \<Rightarrow> None
    | Some s \<Rightarrow> if idx < 0 \<or> idx \<ge> word_count s then None else Some (words s ! nat idx))"

definition vm_word_get_name :: "Word option \<Rightarrow> name_ptr" where
  "vm_word_get_name w = (case w of None \<Rightarrow> NullName | Some w \<Rightarrow> w_name w)"

definition vm_word_get_code :: "Word option \<Rightarrow> u8 list option" where
  "vm_word_get_code w = (case w of None \<Rightarrow> None | Some w \<Rightarrow> w_code w)"

text \<open>The length, an \<open>int\<close>, is returned as a \<open>v4_u16\<close>.\<close>

definition vm_word_get_code_len :: "Word option \<Rightarrow> u16" where
  "vm_word_get_code_len w = (case w of None \<Rightarrow> 0 | Some w \<Rightarrow> word_of_int (w_code_len w))"

text \<open>The C++ names of the three, in class \<open>v4::Word\<close>.\<close>

definition Word_get_name :: "Word option \<Rightarrow> name_ptr" where
  "Word_get_name w = vm_word_get_name w"

definition Word_get_code :: "Word option \<Rightarrow> u8 list option" where
  "Word_get_code w = vm_word_get_code w"

definition Word_get_code_len :: "Word option \<Rightarrow> u16" where
  "Word_get_code_len w = vm_word_get_code_len w"

text \<open>The backward search from index \<open>n - 1\<close>; \<^term>\<open>None\<close> when a comparison leaves the name's buffer.\<close>

fun find_word_from :: "('d, 'm) Vm_scheme \<Rightarrow> string \<Rightarrow> nat \<Rightarrow> int option" where
  "find_word_from s name 0 = Some (-1)"
| "find_word_from s name (Suc i) =
    (if w_name (words s ! i) = NullName then find_word_from s name i
     else (case strcmp_eq (word_bytes s (w_name (words s ! i))) (c_bytes name) of
         None \<Rightarrow> None
       | Some True \<Rightarrow> Some (int i)
       | Some False \<Rightarrow> find_word_from s name i))"

definition vm_find_word :: "('d, 'm) Vm_scheme option \<Rightarrow> string option \<Rightarrow> int option" where
  "vm_find_word vm name = (case (vm, name) of
      (Some s, Some n) \<Rightarrow> find_word_from s n (nat (word_count s))
    | _ \<Rightarrow> Some (-1))"

text \<open>Without an arena the names are freed and their pointers cleared.\<close>

definition vm_reset_dictionary :: "('d, 'm) Vm_scheme option \<Rightarrow> ('d, 'm) Vm_scheme option" where
  "vm_reset_dictionary vm = (case vm of
      None \<Rightarrow> None
    | Some s \<Rightarrow>
        (let s1 = (if arena s = None
                   then s\<lparr>words := map (\<lambda>w. w\<lparr>w_name := NullName\<rparr>) (take (nat (word_count s)) (words s)) @
                                   drop (nat (word_count s)) (words s)\<rparr>
                   else s)
         in Some (s1\<lparr>word_count := 0\<rparr>)))"

definition vm_reset :: "('d, 'm) Vm_scheme option \<Rightarrow> ('d, 'm) Vm_scheme option" where
  "vm_reset vm = vm_reset_stacks (vm_reset_dictionary vm)"

section \<open>Creation and destruction\<close>

definition v4_vm_version :: int where
  "v4_vm_version = 0"

text \<open>A VM after \<open>memset\<close>; its stack pointers are null until \<open>vm_reset\<close> sets them to the bottom.\<close>

definition zero_vm :: "'d \<Rightarrow> 'd machine" where
  "zero_vm w = \<lparr>DS = replicate DS_SIZE 0, RS = replicate RS_SIZE 0, sp = 0, rp = 0, fp = None,
     mem = None, mem_size = 0, mmio = replicate V4_MAX_MMIO zero_mmio, mmio_count = 0, last_err = 0,
     words = replicate V4_MAX_WORDS null_word, word_count = 0, arena = None, boot_cfg_snapshot = None,
     scheduler = zero_scheduler, msg_queue = zero_msg_queue, panic_handler = None, panic_user_data = 0,
     world = w, console = []\<rparr>"

text \<open>
  Copying the window table of the configuration. \<open>Undef\<close>: the table is shorter than its count says.
\<close>

definition copy_mmio :: "'d VmConfig \<Rightarrow> ('d machine, unit) act" where
  "copy_mmio c s = (case cfg_mmio c of
      None \<Rightarrow> Ret () s
    | Some ms \<Rightarrow>
        if cfg_mmio_count c > 0 then
          (let n = (if cfg_mmio_count c \<le> int V4_MAX_MMIO then cfg_mmio_count c else int V4_MAX_MMIO)
           in if n > int (length ms) then Undef OutOfBounds
              else Ret () (s\<lparr>mmio := blit ms (nat n) (mmio s), mmio_count := n\<rparr>))
        else Ret () s)"

text \<open>The result is the new machine, in the world after the \<open>malloc\<close> of \<open>vm_bytes = sizeof(Vm)\<close>.\<close>

definition vm_create :: "'d env \<Rightarrow> nat \<Rightarrow> 'd VmConfig option \<Rightarrow> ('d, 'd machine option) act" where
  "vm_create E vm_bytes cfg w = (case cfg of
      None \<Rightarrow> Ret None w
    | Some c \<Rightarrow>
        (case malloc_ok E vm_bytes w of (ok, w1) \<Rightarrow>
           if \<not> ok then Ret None w1
           else (case copy_mmio c ((the (vm_reset (Some (zero_vm w1))))
                   \<lparr>mem := cfg_mem c, mem_size := cfg_mem_size c, mmio_count := 0\<rparr>) of
               Ret _ s \<Rightarrow> Ret (Some (s\<lparr>arena := cfg_arena c, last_err := 0, boot_cfg_snapshot := cfg\<rparr>)) w1
             | Fail e s \<Rightarrow> Fail e w1
             | Undef u \<Rightarrow> Undef u
             | Timeout \<Rightarrow> Timeout)))"

text \<open>The name pointers that are passed to \<open>free\<close> before the VM itself is.\<close>

definition vm_destroy :: "('d, 'm) Vm_scheme option \<Rightarrow> name_ptr list" where
  "vm_destroy vm = (case vm of
      None \<Rightarrow> []
    | Some s \<Rightarrow>
        if arena s = None then filter (\<lambda>np. np \<noteq> NullName) (map w_name (take (nat (word_count s)) (words s)))
        else [])"

section \<open>Creation and reset keep the machine well-formed\<close>

definition wf_config :: "'d VmConfig \<Rightarrow> bool" where
  "wf_config c \<longleftrightarrow> wf_buffer (cfg_mem c) (unat (cfg_mem_size c)) \<and> wf_arena (cfg_arena c) \<and>
     (case cfg_mmio c of None \<Rightarrow> True | Some ms \<Rightarrow> cfg_mmio_count c \<le> int (length ms))"

lemma wf_zero_vm: "wf_vm (zero_vm w)"
  by (simp add: wf_vm_def wf_stacks_def wf_mem_def wf_dict_def zero_vm_def wf_buffer_def wf_arena_def)

lemma copy_mmio_outcome:
  assumes "wf_config c" and "length (mmio s) = V4_MAX_MMIO" and "mmio_count s = 0"
  obtains ms k where "copy_mmio c s = Ret () (s\<lparr>mmio := ms, mmio_count := k\<rparr>)"
    and "length ms = V4_MAX_MMIO" and "0 \<le> k" and "k \<le> int V4_MAX_MMIO"
proof (cases "cfg_mmio c = None \<or> cfg_mmio_count c \<le> 0")
  case True
  have "copy_mmio c s = Ret () s"
    using True by (auto simp: copy_mmio_def split: option.split)
  then show ?thesis
    using that [where ms = "mmio s" and k = "mmio_count s"] assms(2,3) by simp
next
  case False
  then obtain ms where ms: "cfg_mmio c = Some ms" by auto
  define k where "k = (if cfg_mmio_count c \<le> int V4_MAX_MMIO then cfg_mmio_count c else int V4_MAX_MMIO)"
  have k: "0 \<le> k" "k \<le> int V4_MAX_MMIO" "k \<le> int (length ms)"
    using assms(1) False ms by (auto simp: k_def wf_config_def)
  show ?thesis
    by (rule that [where ms = "blit ms (nat k) (mmio s)" and k = k])
      (use False ms k assms(2) in \<open>simp_all add: copy_mmio_def nat_le_iff flip: k_def\<close>)
qed

lemma create_outcome:
  assumes "wf_config c"
  obtains w1 where "malloc_ok E n w = (False, w1)" and "vm_create E n (Some c) w = Ret None w1"
  | w1 s where "malloc_ok E n w = (True, w1)" and "vm_create E n (Some c) w = Ret (Some s) w1"
      and "wf_vm s" and "data_stack s = []" and "return_stack s = []" and "word_count s = 0"
      and "arena s = cfg_arena c" and "mem s = cfg_mem c" and "world s = w1"
proof (cases "malloc_ok E n w")
  case (Pair ok w1)
  show ?thesis
  proof (cases ok)
    case False
    then show ?thesis using that(1) [of w1] Pair by (simp add: vm_create_def)
  next
    case True
    let ?s = "zero_vm w1\<lparr>mem := cfg_mem c, mem_size := cfg_mem_size c, mmio_count := 0\<rparr>"
    have "length (mmio ?s) = V4_MAX_MMIO" "mmio_count ?s = 0"
      by (simp_all add: zero_vm_def)
    then obtain ms k where cp: "copy_mmio c ?s = Ret () (?s\<lparr>mmio := ms, mmio_count := k\<rparr>)"
      and k: "length ms = V4_MAX_MMIO" "0 \<le> k" "k \<le> int V4_MAX_MMIO"
      using copy_mmio_outcome [OF assms] by metis
    let ?t = "?s\<lparr>mmio := ms, mmio_count := k, arena := cfg_arena c, last_err := 0, boot_cfg_snapshot := Some c\<rparr>"
    have "the (vm_reset (Some (zero_vm w1))) = zero_vm w1"
      by (simp add: vm_reset_def vm_reset_dictionary_def vm_reset_stacks_def zero_vm_def)
    then have run: "vm_create E n (Some c) w = Ret (Some ?t) w1"
      using Pair True cp by (simp add: vm_create_def)
    have "wf_vm ?t"
      using k assms wf_zero_vm [of w1]
      by (simp add: wf_vm_def wf_stacks_def wf_mem_def wf_dict_def wf_config_def)
    moreover have "malloc_ok E n w = (True, w1)" using Pair True by simp
    ultimately show ?thesis
      using run by (intro that(2) [of w1 ?t]) (simp_all add: data_stack_def return_stack_def, simp_all add: zero_vm_def)
  qed
qed

lemma reset_dictionary_wf:
  assumes "wf_vm s" shows "\<exists>t. vm_reset_dictionary (Some s) = Some t \<and> wf_vm t \<and> word_count t = 0"
  using assms
  by (auto simp: vm_reset_dictionary_def wf_vm_def wf_stacks_def wf_mem_def wf_dict_def Let_def min_absorb2 nat_le_iff)

section \<open>What registration does\<close>

text \<open>A name the comparison of \<open>vm_find_word\<close> stays within.\<close>

definition name_ok :: "('d, 'm) Vm_scheme \<Rightarrow> name_ptr \<Rightarrow> bool" where
  "name_ok s np \<longleftrightarrow> (case np of
      NullName \<Rightarrow> True
    | HeapName n \<Rightarrow> True
    | ArenaName off \<Rightarrow> (case arena s of
          None \<Rightarrow> False
        | Some a \<Rightarrow> 0 \<in> set (take (unat (arena_used a) - unat off) (word_bytes s np))))"

definition word_name :: "('d, 'm) Vm_scheme \<Rightarrow> name_ptr \<Rightarrow> string option" where
  "word_name s np = (if np = NullName then None else Some (c_string (word_bytes s np)))"

definition dict_words :: "('d, 'm) Vm_scheme \<Rightarrow> Word list" where
  "dict_words s = take (nat (word_count s)) (words s)"

definition names_ok :: "('d, 'm) Vm_scheme \<Rightarrow> bool" where
  "names_ok s \<longleftrightarrow> list_all (\<lambda>w. name_ok s (w_name w)) (dict_words s)"

text \<open>The dictionary as a list of names, oldest first.\<close>

definition dict_names :: "('d, 'm) Vm_scheme \<Rightarrow> string option list" where
  "dict_names s = map (\<lambda>w. word_name s (w_name w)) (dict_words s)"

text \<open>The contract of the search: the last index that has the name.\<close>

fun last_index :: "string option list \<Rightarrow> string \<Rightarrow> int" where
  "last_index ns n = (case find (\<lambda>i. ns ! i = Some n) (rev [0..<length ns]) of None \<Rightarrow> -1 | Some i \<Rightarrow> int i)"

lemma last_index_simps:
  "last_index [] n = -1"
  "last_index (ns @ [x]) n = (if x = Some n then int (length ns) else last_index ns n)"
proof -
  have "find (\<lambda>i. (ns @ [x]) ! i = Some n) (rev [0..<length ns]) = find (\<lambda>i. ns ! i = Some n) (rev [0..<length ns])"
    by (rule find_cong) (simp_all add: nth_append)
  then show "last_index (ns @ [x]) n = (if x = Some n then int (length ns) else last_index ns n)"
    by simp
qed simp

lemma last_index_spec:
  "last_index ns n = int i \<longleftrightarrow> i < length ns \<and> ns ! i = Some n \<and> (\<forall>j. i < j \<and> j < length ns \<longrightarrow> ns ! j \<noteq> Some n)"
  "last_index ns n = -1 \<longleftrightarrow> Some n \<notin> set ns"
proof (induction ns rule: rev_induct)
  case (snoc x ns)
  {
    case 1
    show ?case
      using snoc by (auto simp: last_index_simps nth_append less_Suc_eq simp del: last_index.simps)
  next
    case 2
    show ?case
      using snoc by (auto simp: last_index_simps simp del: last_index.simps)
  }
qed (auto simp: last_index_simps simp del: last_index.simps)

declare last_index.simps [simp del]

lemma length_dict_words [simp]: "wf_dict s \<Longrightarrow> length (dict_words s) = nat (word_count s)"
  by (simp add: dict_words_def wf_dict_def min_absorb2 nat_le_iff)

lemma strcmp_word:
  assumes "name_ok s np" and "np \<noteq> NullName"
  shows "strcmp_eq (word_bytes s np) (c_bytes n) = Some (word_name s np = Some (c_str n))"
proof -
  have "0 \<in> set (word_bytes s np)"
    using assms by (cases np) (auto simp: name_ok_def word_bytes_def c_bytes_def
        split: option.splits dest: in_set_takeD)
  then show ?thesis using assms by (simp add: strcmp_eq_c_bytes word_name_def)
qed

lemma find_word_from_names:
  assumes "list_all (\<lambda>w. name_ok s (w_name w)) (take k (words s))" and "k \<le> length (words s)"
  shows "find_word_from s n k = Some (last_index (map (\<lambda>w. word_name s (w_name w)) (take k (words s))) (c_str n))"
  using assms
proof (induction k)
  case 0
  then show ?case by (simp add: last_index_simps)
next
  case (Suc k)
  have snoc: "take (Suc k) (words s) = take k (words s) @ [words s ! k]"
    using Suc.prems(2) by (simp add: take_Suc_conv_app_nth)
  have IH: "find_word_from s n k = Some (last_index (map (\<lambda>w. word_name s (w_name w)) (take k (words s))) (c_str n))"
    using Suc.prems snoc by (intro Suc.IH) simp_all
  have ok: "name_ok s (w_name (words s ! k))"
    using Suc.prems(1) snoc by simp
  show ?case
  proof (cases "w_name (words s ! k) = NullName")
    case True
    then show ?thesis using IH snoc by (simp add: last_index_simps word_name_def)
  next
    case False
    then show ?thesis
      using IH snoc strcmp_word [OF ok False, of n] Suc.prems(2)
      by (simp add: last_index_simps split: bool.split)
  qed
qed

lemma find_word_names:
  assumes "wf_dict s" and "names_ok s"
  shows "vm_find_word (Some s) (Some n) = Some (last_index (dict_names s) (c_str n))"
  using find_word_from_names [of s "nat (word_count s)" n] assms
  by (simp add: vm_find_word_def names_ok_def dict_names_def dict_words_def wf_dict_def nat_le_iff)

lemma c_string_take:
  assumes "take k xs = take k ys" and "0 \<in> set (take k xs)"
  shows "c_string xs = c_string ys"
proof -
  have "takeWhile (\<lambda>b. b \<noteq> 0) zs = takeWhile (\<lambda>b. b \<noteq> 0) (take k zs)" if "0 \<in> set (take k zs)" for zs :: "u8 list"
    using takeWhile_append1 [of 0 "take k zs" "\<lambda>b. b \<noteq> 0" "drop k zs"] that by simp
  then show ?thesis using assms by (metis c_string_def)
qed

text \<open>There is room for a name: the heap grants the copy, or the arena has that many bytes left.\<close>

definition name_fits :: "'d env \<Rightarrow> string option \<Rightarrow> 'd machine \<Rightarrow> bool" where
  "name_fits E name s \<longleftrightarrow> (case name of
      None \<Rightarrow> True
    | Some n \<Rightarrow> (case arena s of
          None \<Rightarrow> fst (malloc_ok E (length (c_str n) + 1) (world s))
        | Some a \<Rightarrow> buffer a \<noteq> None \<and> unat (arena_used a) + length (c_str n) + 1 \<le> unat (arena_size a)))"

lemma alloc_name:
  assumes "buffer a \<noteq> None" and "unat (arena_used a) + k + 1 \<le> unat (arena_size a)"
  shows "v4_arena_alloc (Some a) (word_of_nat (k + 1)) 1 =
    (Some (arena_used a), Some (a\<lparr>arena_used := word_of_nat (unat (arena_used a) + k + 1)\<rparr>))"
proof -
  have lt: "k + 1 < 2 ^ 64"
    using assms(2) unsigned_less [of "arena_size a", where 'a = nat] by simp
  then have len: "unat (word_of_nat (k + 1) :: size_t) = k + 1"
    by (simp add: unsigned_of_nat take_bit_nat_eq_self del: of_nat_add of_nat_Suc)
  have one: "unat (1 :: size_t) = 1" by simp
  have nz: "(word_of_nat (k + 1) :: size_t) \<noteq> 0"
    using len by (metis add_is_0 one_neq_zero unsigned_0)
  have nw: "no_wrap a (word_of_nat (k + 1)) 1"
    using assms(2) unsigned_less [of "arena_size a", where 'a = nat]
    by (simp only: no_wrap_def len one) simp
  have p: "pow2 1" by (simp add: pow2_def)
  have "alloc_spec a (k + 1) 1 = Some (unat (arena_used a))"
    using assms(2) by (simp add: alloc_spec_def round_up_def)
  then show ?thesis
    using alloc_refines_spec [OF assms(1) nz p nw] by (simp only: len one) (simp add: add.assoc)
qed

lemma copy_name_outcome:
  assumes wf: "wf_arena (arena s)" and fits: "name_fits E name s"
  shows "\<exists>np ar w. copy_name E name s = Ret np (s\<lparr>arena := ar, world := w\<rparr>) \<and> wf_arena ar \<and>
    (arena s = None \<longleftrightarrow> ar = None) \<and>
    name_ok (s\<lparr>arena := ar\<rparr>) np \<and> word_name (s\<lparr>arena := ar\<rparr>) np = map_option c_str name \<and>
    (\<forall>old. name_ok s old \<longrightarrow> name_ok (s\<lparr>arena := ar\<rparr>) old \<and> word_name (s\<lparr>arena := ar\<rparr>) old = word_name s old)"
proof (cases name)
  case None
  have "copy_name E name s = Ret NullName (s\<lparr>arena := arena s, world := world s\<rparr>)"
    using None by (simp add: copy_name_def)
  moreover have "name_ok (s\<lparr>arena := arena s\<rparr>) NullName" "word_name (s\<lparr>arena := arena s\<rparr>) NullName = map_option c_str name"
    using None by (simp_all add: name_ok_def word_name_def)
  ultimately show ?thesis
    using wf by (intro exI [of _ NullName] exI [of _ "arena s"] exI [of _ "world s"]) simp
next
  case (Some n)
  show ?thesis
  proof (cases "arena s")
    case None
    obtain w where w: "malloc_ok E (length (c_str n) + 1) (world s) = (True, w)"
      using fits Some None by (cases "malloc_ok E (length (c_str n) + 1) (world s)") (simp add: name_fits_def)
    then have "copy_name E name s = Ret (HeapName (c_str n)) (s\<lparr>arena := arena s, world := w\<rparr>)"
      using Some None by (simp add: copy_name_def on_world_def Let_def)
    moreover have "name_ok s (HeapName (c_str n))" "word_name s (HeapName (c_str n)) = map_option c_str name"
      using Some by (simp_all add: name_ok_def word_name_def word_bytes_def)
    ultimately show ?thesis
      using wf by (intro exI [of _ "HeapName (c_str n)"] exI [of _ "arena s"] exI [of _ w]) simp
  next
    case (Some a)
    note ar = this
    note nm = \<open>name = Some n\<close>
    obtain b where b: "buffer a = Some b" and room: "unat (arena_used a) + length (c_str n) + 1 \<le> unat (arena_size a)"
      using fits nm ar by (auto simp: name_fits_def)
    let ?u = "unat (arena_used a)" and ?L = "length (c_str n) + 1"
    let ?b = "write_bytes b ?u (c_bytes n)"
    let ?a = "a\<lparr>arena_used := word_of_nat (?u + length (c_str n) + 1), buffer := Some ?b\<rparr>"
    have len: "unat (arena_size a) \<le> length b"
      using wf ar b by (simp add: wf_arena_def wf_buffer_def)
    have used: "unat (arena_used ?a) = ?u + ?L"
      using room unsigned_less [of "arena_size a", where 'a = nat]
      by (simp add: unsigned_of_nat take_bit_nat_eq_self del: of_nat_add of_nat_Suc)
    have run: "copy_name E name s = Ret (ArenaName (arena_used a)) (s\<lparr>arena := Some ?a, world := world s\<rparr>)"
      using nm ar b room len alloc_name [of a "length (c_str n)"]
      by (simp add: copy_name_def del: of_nat_add of_nat_Suc)
    have wf': "wf_arena (Some ?a)"
      using wf ar room len used by (simp add: wf_arena_def wf_buffer_def write_bytes_def)
    have drop_u: "drop ?u ?b = c_bytes n @ drop (?u + ?L) b"
      using room len by (simp add: write_bytes_def)
    have new_bytes: "word_bytes (s\<lparr>arena := Some ?a\<rparr>) (ArenaName (arena_used a)) = c_bytes n @ drop (?u + ?L) b"
      using drop_u by (simp add: word_bytes_def)
    have "0 \<in> set (take ?L (c_bytes n @ drop (?u + ?L) b))"
      by (simp add: c_bytes_def)
    then have ok: "name_ok (s\<lparr>arena := Some ?a\<rparr>) (ArenaName (arena_used a))"
      using new_bytes used by (simp add: name_ok_def)
    have nameq: "word_name (s\<lparr>arena := Some ?a\<rparr>) (ArenaName (arena_used a)) = map_option c_str name"
      using new_bytes nm by (simp add: word_name_def)
    have frame: "name_ok (s\<lparr>arena := Some ?a\<rparr>) old \<and> word_name (s\<lparr>arena := Some ?a\<rparr>) old = word_name s old"
      if old: "name_ok s old" for old
    proof (cases old)
      case (ArenaName off)
      have bytes: "word_bytes s old = drop (unat off) b" "word_bytes (s\<lparr>arena := Some ?a\<rparr>) old = drop (unat off) ?b"
        using ArenaName ar b by (simp_all add: word_bytes_def)
      have eq: "take (?u - unat off) (drop (unat off) b) = take (?u - unat off) (drop (unat off) ?b)"
        using room len by (cases "unat off \<le> ?u") (simp_all add: take_drop write_bytes_def)
      have nul: "0 \<in> set (take (?u - unat off) (drop (unat off) b))"
        using old ArenaName ar bytes(1) by (simp add: name_ok_def)
      have "take (?u + ?L - unat off) (drop (unat off) ?b) =
          take (?u - unat off) (drop (unat off) ?b) @ take (?u + ?L - unat off - (?u - unat off)) (drop (?u - unat off) (drop (unat off) ?b))"
        by (metis add_diff_inverse_nat diff_le_mono le_add1 linorder_not_less take_add)
      then have "0 \<in> set (take (?u + ?L - unat off) (drop (unat off) ?b))"
        using nul eq by simp
      then have "name_ok (s\<lparr>arena := Some ?a\<rparr>) old"
        using ArenaName bytes used by (simp add: name_ok_def)
      moreover have "c_string (drop (unat off) ?b) = c_string (drop (unat off) b)"
        using c_string_take [OF eq nul] by simp
      ultimately show ?thesis using ArenaName bytes by (simp add: word_name_def)
    qed (simp_all add: name_ok_def word_name_def word_bytes_def)
    show ?thesis
      by (intro exI [of _ "ArenaName (arena_used a)"] exI [of _ "Some ?a"] exI [of _ "world s"] conjI allI impI)
        (rule run wf' ok nameq frame [THEN conjunct1] frame [THEN conjunct2] | assumption | simp add: ar)+
  qed
qed

lemma word_name_cong:
  assumes "arena s = arena t" shows "word_name s = word_name t" and "name_ok s = name_ok t"
proof -
  have eq: "word_bytes s = word_bytes t"
    using assms by (simp add: fun_eq_iff word_bytes_def split: name_ptr.split)
  show "word_name s = word_name t" by (simp add: fun_eq_iff word_name_def eq)
  show "name_ok s = name_ok t" using assms by (simp add: fun_eq_iff name_ok_def fun_cong [OF eq] split: name_ptr.split option.split)
qed

lemma register_outcome:
  assumes wf: "wf_dict s" and names: "names_ok s" and room: "word_count s < int V4_MAX_WORDS"
    and fits: "name_fits E name s" and code: "0 < code_len" "code_len \<le> int (length c)"
  shows "\<exists>t np. vm_register_word E name (Some c) code_len (Some s) = Ret (word_count s) (Some t) \<and>
    wf_dict t \<and> names_ok t \<and> dict_names t = dict_names s @ [map_option c_str name] \<and>
    dict_words t = dict_words s @ [\<lparr>w_name = np, w_code = Some c, w_code_len = code_len\<rparr>] \<and>
    (\<exists>ar w. t = s\<lparr>words := words t, word_count := word_count s + 1, arena := ar, world := w\<rparr>)"
proof -
  have war: "wf_arena (arena s)" using wf by (simp add: wf_dict_def)
  obtain np ar w where cp: "copy_name E name s = Ret np (s\<lparr>arena := ar, world := w\<rparr>)"
    and ar: "wf_arena ar" and ok: "name_ok (s\<lparr>arena := ar\<rparr>) np"
    and nm: "word_name (s\<lparr>arena := ar\<rparr>) np = map_option c_str name"
    and old: "\<And>np'. name_ok s np' \<Longrightarrow> name_ok (s\<lparr>arena := ar\<rparr>) np' \<and> word_name (s\<lparr>arena := ar\<rparr>) np' = word_name s np'"
    using copy_name_outcome [OF war fits] by metis
  let ?w = "\<lparr>w_name = np, w_code = Some c, w_code_len = code_len\<rparr>" and ?k = "nat (word_count s)"
  let ?t = "s\<lparr>words := (words s)[?k := ?w], word_count := word_count s + 1, arena := ar, world := w\<rparr>"
  have run: "vm_register_word E name (Some c) code_len (Some s) = Ret (word_count s) (Some ?t)"
    using code room cp by (simp add: vm_register_word_def null_checked_def returning_def register_word_def)
  have k: "?k < length (words s)" "nat (word_count s + 1) = Suc ?k"
    using wf room by (simp_all add: wf_dict_def nat_add_distrib nat_less_iff)
  have ws: "dict_words ?t = dict_words s @ [?w]"
    using k by (simp add: dict_words_def take_Suc_update)
  have sn: "word_name ?t = word_name (s\<lparr>arena := ar\<rparr>)" "name_ok ?t = name_ok (s\<lparr>arena := ar\<rparr>)"
    by (rule word_name_cong; simp)+
  have all_old: "name_ok s (w_name x)" if "x \<in> set (dict_words s)" for x
    using names that by (simp add: names_ok_def list_all_iff)
  have "names_ok ?t"
    unfolding names_ok_def ws sn using ok old all_old by (simp add: list_all_iff)
  moreover have "dict_names ?t = dict_names s @ [map_option c_str name]"
    unfolding dict_names_def ws sn using nm old all_old by simp
  moreover have "wf_dict ?t"
    using wf room k ar code ws
    by (simp add: wf_dict_def dict_words_def wf_word_def)
  ultimately show ?thesis
    using run ws by (intro exI [of _ ?t] exI [of _ np] conjI exI [of _ ar] exI [of _ w]) simp_all
qed

lemma register_refused:
  "name_code_bad = None \<or> code_len \<le> 0 \<Longrightarrow>
     vm_register_word E name name_code_bad code_len vm = Ret (V4_ERR InvalidArg) vm"
  "vm_register_word E name code code_len None = Ret (V4_ERR InvalidArg) None"
  by (auto simp: vm_register_word_def split: option.split)

lemma register_full:
  assumes "word_count s \<ge> int V4_MAX_WORDS" and "0 < code_len"
  shows "\<exists>w c. vm_register_word E name (Some code) code_len (Some s) =
    Ret (V4_ERR DictionaryFull) (Some (s\<lparr>world := w, console := c\<rparr>))"
proof -
  obtain w c where "panic E DictionaryFull s = (Fail (V4_ERR DictionaryFull) (s\<lparr>world := w, console := c\<rparr>) :: ('a machine, int) res)"
    by (rule panic_frame)
  then show ?thesis
    using assms by (auto simp: vm_register_word_def null_checked_def returning_def register_word_def)
qed

section \<open>The interface of names\<close>

text \<open>A definition of a client: a name or none, the body and its length.\<close>

type_synonym entry = "string option \<times> u8 list \<times> int"

text \<open>A sequence of definitions, each with room when it is made.\<close>

primrec all_room :: "('e \<Rightarrow> 's \<Rightarrow> bool) \<Rightarrow> ('e \<Rightarrow> 's \<Rightarrow> 's) \<Rightarrow> 'e list \<Rightarrow> 's \<Rightarrow> bool" where
  "all_room room add_word [] s = True"
| "all_room room add_word (d # ds) s = (room d s \<and> all_room room add_word ds (add_word d s))"

text \<open>
  What a client of the dictionary relies on: a new definition is appended as the client gave it, a lookup
  returns the last index with the name, and a fetch by index the body. From this: a new definition shadows
  the older ones and hides no other name.
\<close>

locale name_table =
  fixes entries :: "'s \<Rightarrow> (string option \<times> 'b) list"
    and add_word :: "string option \<times> 'b \<Rightarrow> 's \<Rightarrow> 's"
    and lookup :: "'s \<Rightarrow> string \<Rightarrow> int"
    and fetch :: "'s \<Rightarrow> int \<Rightarrow> 'b option"
    and room :: "string option \<times> 'b \<Rightarrow> 's \<Rightarrow> bool"
    and inv :: "'s \<Rightarrow> bool"
  assumes add_word: "inv s \<Longrightarrow> room d s \<Longrightarrow> inv (add_word d s) \<and> entries (add_word d s) = entries s @ [apfst (map_option c_str) d]"
    and lookup: "inv s \<Longrightarrow> c_str n = n \<Longrightarrow> lookup s n = last_index (map fst (entries s)) n"
    and fetch: "inv s \<Longrightarrow> i < length (entries s) \<Longrightarrow> fetch s (int i) = Some (snd (entries s ! i))"
begin

lemma lookup_added:
  assumes "inv s" and "room (Some n, b) s" and "c_str n = n"
  shows "lookup (add_word (Some n, b) s) n = int (length (entries s))"
  using add_word [OF assms(1,2)] lookup [OF _ assms(3)] assms(3) by (simp add: last_index_simps)

lemma lookup_other:
  assumes "inv s" and "room (Some n, b) s" and "m \<noteq> c_str n" and "c_str m = m"
  shows "lookup (add_word (Some n, b) s) m = lookup s m"
  using add_word [OF assms(1,2)] lookup [OF _ assms(4)] assms(1,3) by (simp add: last_index_simps)

text \<open>Every name that has been added is found, at an index with that name.\<close>

lemma lookup_found:
  assumes "inv s" and "c_str n = n" and "Some n \<in> fst ` set (entries s)"
  obtains i where "lookup s n = int i" and "i < length (entries s)" and "fst (entries s ! i) = Some n"
    and "\<And>j. i < j \<Longrightarrow> j < length (entries s) \<Longrightarrow> fst (entries s ! j) \<noteq> Some n"
proof -
  let ?ns = "map fst (entries s)"
  have "last_index ?ns n \<noteq> -1" using assms(3) last_index_spec(2) by (metis set_map)
  then have "last_index ?ns n = int (nat (last_index ?ns n))"
    by (auto simp: last_index.simps split: option.splits)
  with last_index_spec(1) [of ?ns n "nat (last_index ?ns n)"] that lookup [OF assms(1,2)]
  show ?thesis by (metis length_map nth_map)
qed

lemma lookup_missing:
  assumes "inv s" and "c_str n = n"
  shows "lookup s n = -1 \<longleftrightarrow> Some n \<notin> fst ` set (entries s)"
  using lookup [OF assms] last_index_spec(2) by (metis set_map)

lemma add_words:
  "inv s \<Longrightarrow> all_room room add_word ds s \<Longrightarrow>
    inv (fold add_word ds s) \<and> entries (fold add_word ds s) = entries s @ map (apfst (map_option c_str)) ds"
proof (induction ds arbitrary: s)
  case Nil
  then show ?case by simp
next
  case (Cons d ds)
  then have "inv (add_word d s)" "entries (add_word d s) = entries s @ [apfst (map_option c_str) d]"
    using add_word by simp_all
  with Cons show ?case by simp
qed

lemma lookup_after_add_words:
  assumes "inv s" and "all_room room add_word (ds @ (Some n, b) # es) s"
    and "\<forall>(m, b) \<in> set es. map_option c_str m \<noteq> Some n" and "c_str n = n"
  shows "lookup (fold add_word (ds @ (Some n, b) # es) s) n = int (length (entries s) + length ds)"
    and "fetch (fold add_word (ds @ (Some n, b) # es) s) (int (length (entries s) + length ds)) = Some b"
proof -
  let ?t = "fold add_word (ds @ (Some n, b) # es) s" and ?k = "length (entries s) + length ds"
  have inv: "inv ?t" and ents: "entries ?t = entries s @ map (apfst (map_option c_str)) (ds @ (Some n, b) # es)"
    using add_words [OF assms(1,2)] by blast+
  have at_k: "?k < length (entries ?t)" "entries ?t ! ?k = (Some n, b)"
    unfolding ents using assms(4) by (simp_all add: nth_append)
  have later: "fst (entries ?t ! j) \<noteq> Some n" if j: "?k < j" "j < length (entries ?t)" for j
  proof -
    obtain i where i: "j = Suc (?k + i)" using less_imp_Suc_add [OF j(1)] by blast
    then have "i < length es" "entries ?t ! j = apfst (map_option c_str) (es ! i)"
      using j(2) unfolding ents by (simp_all add: nth_append)
    then show ?thesis using assms(3) nth_mem [of i es] by (auto simp: case_prod_beta)
  qed
  have "last_index (map fst (entries ?t)) n = int ?k"
    unfolding last_index_spec(1) using at_k later by simp
  with lookup [OF inv assms(4)] show "lookup ?t n = int ?k" by simp
  show "fetch ?t (int ?k) = Some b" using fetch [OF inv at_k(1)] at_k(2) by simp
qed

end

definition define_word :: "'d env \<Rightarrow> entry \<Rightarrow> 'd machine \<Rightarrow> 'd machine" where
  "define_word E d s = (case d of (name, c, len) \<Rightarrow> case vm_register_word E name (Some c) len (Some s) of
      Ret i (Some t) \<Rightarrow> t
    | _ \<Rightarrow> s)"

definition entry_room :: "'d env \<Rightarrow> entry \<Rightarrow> 'd machine \<Rightarrow> bool" where
  "entry_room E d s \<longleftrightarrow> (case d of (name, c, len) \<Rightarrow> word_count s < int V4_MAX_WORDS \<and> name_fits E name s \<and>
     0 < len \<and> len \<le> int (length c))"

definition word_room :: "'d env \<Rightarrow> u8 list \<Rightarrow> int \<Rightarrow> string \<Rightarrow> 'd machine \<Rightarrow> bool" where
  "word_room E c len n s \<longleftrightarrow> word_count s < int V4_MAX_WORDS \<and> name_fits E (Some n) s \<and> c_str n = n \<and>
     0 < len \<and> len \<le> int (length c)"

definition dict_inv :: "'d machine \<Rightarrow> bool" where
  "dict_inv s \<longleftrightarrow> wf_dict s \<and> names_ok s"

text \<open>The dictionary as the client gave it, and the body of the word at an index.\<close>

definition dict_entries :: "('d, 'm) Vm_scheme \<Rightarrow> entry list" where
  "dict_entries s = map (\<lambda>w. (word_name s (w_name w), the (w_code w), w_code_len w)) (dict_words s)"

definition body_at :: "('d, 'm) Vm_scheme \<Rightarrow> int \<Rightarrow> (u8 list \<times> int) option" where
  "body_at s i = (case vm_get_word (Some s) i of
      None \<Rightarrow> None
    | Some w \<Rightarrow> map_option (\<lambda>c. (c, w_code_len w)) (w_code w))"

lemma names_of_entries [simp]: "map fst (dict_entries s) = dict_names s"
  by (simp add: dict_entries_def dict_names_def comp_def)

lemma define_word_entries:
  assumes s: "dict_inv s" and room: "entry_room E d s"
  shows "dict_inv (define_word E d s)" and "dict_entries (define_word E d s) = dict_entries s @ [apfst (map_option c_str) d]"
proof -
  obtain name c len where d: "d = (name, c, len)" by (cases d)
  obtain t np where run: "vm_register_word E name (Some c) len (Some s) = Ret (word_count s) (Some t)" and t: "wf_dict t" "names_ok t"
    and names: "dict_names t = dict_names s @ [map_option c_str name]"
    and ws: "dict_words t = dict_words s @ [\<lparr>w_name = np, w_code = Some c, w_code_len = len\<rparr>]"
    using register_outcome [of s E name len c] s room d by (auto simp: dict_inv_def entry_room_def)
  have def_t: "define_word E d s = t" using run d by (simp add: define_word_def)
  then show "dict_inv (define_word E d s)" using t by (simp add: dict_inv_def)
  have "map fst (dict_entries t) = map fst (dict_entries s @ [apfst (map_option c_str) d])"
    using names d by simp
  moreover have "map snd (dict_entries t) = map snd (dict_entries s @ [apfst (map_option c_str) d])"
    using ws d by (simp add: dict_entries_def comp_def)
  ultimately show "dict_entries (define_word E d s) = dict_entries s @ [apfst (map_option c_str) d]"
    unfolding def_t by (rule pair_list_eqI)
qed

interpretation dict: name_table dict_entries "define_word E" "\<lambda>s n. the (vm_find_word (Some s) (Some n))" body_at
    "entry_room E" dict_inv for E
proof
  fix s :: "'a machine" and n :: string and i :: nat and d :: entry
  assume s: "dict_inv s"
  show "dict_inv (define_word E d s) \<and> dict_entries (define_word E d s) = dict_entries s @ [apfst (map_option c_str) d]"
    if "entry_room E d s"
    using define_word_entries [OF s that] by simp
  show "the (vm_find_word (Some s) (Some n)) = last_index (map fst (dict_entries s)) n" if "c_str n = n"
    using s that find_word_names [of s n] by (simp add: dict_inv_def)
  show "body_at s (int i) = Some (snd (dict_entries s ! i))" if "i < length (dict_entries s)"
  proof -
    have wf: "wf_dict s" and pos: "i < nat (word_count s)" "words s ! i = dict_words s ! i"
      using s that by (simp_all add: dict_inv_def dict_entries_def dict_words_def)
    have "words s ! i \<in> set (take (nat (word_count s)) (words s))"
      using that pos(2) by (simp add: dict_entries_def dict_words_def [symmetric])
    then have "wf_word (words s ! i)" using wf by (auto simp: wf_dict_def list_all_iff)
    then obtain c where "w_code (words s ! i) = Some c" by (auto simp: wf_word_def split: option.splits)
    then show ?thesis
      using that pos by (simp add: body_at_def vm_get_word_def dict_entries_def)
  qed
qed

end
