(* ===== verification/V4_Tasks.thy ===== *)
theory V4_Tasks
  imports V4_Scheduler V4_Dictionary
begin

text \<open>
  The task API: the custom backend of \<^verbatim>\<open>src/task_backend_custom.cpp\<close>, its public wrappers in
  \<^verbatim>\<open>src/task.cpp\<close> and \<^verbatim>\<open>src/message.cpp\<close>, and the stubs of \<^verbatim>\<open>src/task_disabled.cpp\<close>, which a build without
  \<open>V4_ENABLE_TASKS\<close> links in their place. An operation on a VM that is not null is a definition of its
  own; the functions of the source check the pointer and call it.
\<close>

section \<open>The custom backend\<close>

definition task_init :: "u32 \<Rightarrow> ('d machine, v4_err) act" where
  "task_init ms s = Ret (V4_ERR OK) (s\<lparr>scheduler := zero_scheduler
     \<lparr>time_slice_ms := (if ms > 0 then ms else 10)\<rparr>, msg_queue := zero_msg_queue\<rparr>)"

definition task_cleanup :: "('d machine, v4_err) act" where
  "task_cleanup s = Ret (V4_ERR OK) (s\<lparr>scheduler := (scheduler s)
     \<lparr>tasks := map (\<lambda>t. t\<lparr>ds_base := None, rs_base := None, t_state := DEAD\<rparr>) (tasks (scheduler s)),
      task_count := 0\<rparr>, msg_queue := zero_msg_queue\<rparr>)"

definition fresh_block :: "nat \<Rightarrow> stack_block" where
  "fresh_block n = \<lparr>cap = n, written = []\<rparr>"

definition free_slot :: "('d, 'm) Vm_scheme \<Rightarrow> nat option" where
  "free_slot s = find (\<lambda>i. t_state (task_at s i) = DEAD) [0..<V4_MAX_TASKS]"

text \<open>The sizes are \<open>uint16_t\<close> arguments; the fields that keep them are \<open>uint8_t\<close>.\<close>

definition task_spawn :: "'d env \<Rightarrow> u16 \<Rightarrow> u8 \<Rightarrow> u16 \<Rightarrow> u16 \<Rightarrow> ('d machine, int) act" where
  "task_spawn E word_idx priority dsz rsz s =
    (if uint word_idx \<ge> word_count s then Ret (V4_ERR InvalidWordIdx) s
     else (case free_slot s of
         None \<Rightarrow> Ret (V4_ERR TaskLimit) s
       | Some task_id \<Rightarrow>
           (let d = (if dsz = 0 then 256 else dsz); r = (if rsz = 0 then 64 else rsz) in
            bnd (on_world (malloc_ok E (unat d * 4))) (\<lambda>ok1.
            bnd (on_world (malloc_ok E (unat r * 4))) (\<lambda>ok2 s1.
              let t = task_at s1 task_id in
              if \<not> ok1 \<or> \<not> ok2
              then Ret (V4_ERR NoMemory) (set_task task_id (t\<lparr>ds_base := None, rs_base := None\<rparr>) s1)
              else (let s2 = set_task task_id
                  (t\<lparr>ds_base := Some (fresh_block (unat d)), rs_base := Some (fresh_block (unat r)),
                     t_word_idx := word_idx, t_pc := 0, ds_depth := 0, rs_depth := 0, t_state := READY,
                     t_priority := priority, sleep_until_tick := 0, ds_size := ucast d, rs_size := ucast r,
                     exec_count := 0\<rparr>) s1
                in Ret (int task_id) (s2\<lparr>scheduler := (scheduler s2)
                     \<lparr>task_count := task_count (scheduler s2) + 1\<rparr>\<rparr>)))) s)))"

definition task_exit :: "'d env \<Rightarrow> ('d machine, v4_err) act" where
  "task_exit E s =
    (let i = cur_index s;
         s1 = set_task i ((task_at s i)\<lparr>ds_base := None, rs_base := None, t_state := DEAD\<rparr>) s;
         s2 = s1\<lparr>scheduler := (scheduler s1)\<lparr>task_count := task_count (scheduler s1) - 1\<rparr>\<rparr>
     in bnd (schedule E) (\<lambda>_. Ret (V4_ERR OK)) s2)"

definition task_sleep :: "'d env \<Rightarrow> u32 \<Rightarrow> ('d machine, v4_err) act" where
  "task_sleep E ms_delay = bnd (on_world (get_tick_ms E)) (\<lambda>tick s.
     let i = cur_index s in
     bnd (schedule E) (\<lambda>_. Ret (V4_ERR OK))
       (set_task i ((task_at s i)\<lparr>sleep_until_tick := tick + ms_delay, t_state := BLOCKED\<rparr>) s))"

definition task_yield :: "'d env \<Rightarrow> ('d machine, v4_err) act" where
  "task_yield E = bnd (schedule E) (\<lambda>_. Ret (V4_ERR OK))"

definition v4_backend_task_current :: "('d, 'm) Vm_scheme option \<Rightarrow> u8" where
  "v4_backend_task_current vm = (case vm of None \<Rightarrow> 0 | Some s \<Rightarrow> current_task (scheduler s))"

definition v4_backend_task_get_state ::
    "('d, 'm) Vm_scheme option \<Rightarrow> u8 \<Rightarrow> v4_err \<times> v4_task_state_t option" where
  "v4_backend_task_get_state vm task_id = (case vm of
      None \<Rightarrow> (V4_ERR InvalidArg, None)
    | Some s \<Rightarrow> if unat task_id \<ge> V4_MAX_TASKS then (V4_ERR InvalidArg, None)
        else (V4_ERR OK, Some (t_state (task_at s (unat task_id)))))"

definition task_send :: "u8 \<Rightarrow> u8 \<Rightarrow> i32 \<Rightarrow> ('d machine, v4_err) act" where
  "task_send dst mt data s = (case v4_backend_task_send dst mt data (Some s) of
      (e, Some s') \<Rightarrow> Ret e s'
    | (e, None) \<Rightarrow> Ret e s)"

definition task_receive :: "u8 \<Rightarrow> ('d machine, int \<times> (i32 \<times> u8) option) act" where
  "task_receive mt s = (case v4_backend_task_receive mt (Some s) of
      (r, Some s') \<Rightarrow> Ret r s'
    | (r, None) \<Rightarrow> Ret r s)"

text \<open>The loop of the blocking receive, with fuel; the code's loop has no bound of its own.\<close>

primrec receive_loop :: "'d env \<Rightarrow> u8 \<Rightarrow> u32 \<Rightarrow> u32 \<Rightarrow> nat \<Rightarrow> ('d machine, int \<times> (i32 \<times> u8) option) act" where
  "receive_loop E mt timeout_ms start_tick 0 = (\<lambda>s. Timeout)"
| "receive_loop E mt timeout_ms start_tick (Suc fuel) = bnd (task_receive mt) (\<lambda>r.
     if fst r = 1 then Ret r
     else if timeout_ms > 0 then
       bnd (on_world (get_tick_ms E)) (\<lambda>current_tick.
         if current_tick - start_tick \<ge> timeout_ms then Ret (0, None)
         else bnd (task_sleep E 10) (\<lambda>_. receive_loop E mt timeout_ms start_tick fuel))
     else bnd (task_sleep E 10) (\<lambda>_. receive_loop E mt timeout_ms start_tick fuel))"

definition task_receive_blocking ::
    "'d env \<Rightarrow> nat \<Rightarrow> u8 \<Rightarrow> u32 \<Rightarrow> ('d machine, int \<times> (i32 \<times> u8) option) act" where
  "task_receive_blocking E fuel mt timeout_ms =
     bnd (on_world (get_tick_ms E)) (\<lambda>start_tick. receive_loop E mt timeout_ms start_tick fuel)"

section \<open>Public functions\<close>

text \<open>Every stub of a build without tasks.\<close>

definition unavailable :: "('s option, v4_err) act" where
  "unavailable vm = Ret (case vm of None \<Rightarrow> V4_ERR InvalidArg | Some s \<Rightarrow> V4_ERR UnknownOp) vm"

definition public_task :: "'d env \<Rightarrow> ('d machine, v4_err) act \<Rightarrow> ('d machine option, v4_err) act" where
  "public_task E m = (if enable_tasks E then null_checked (V4_ERR InvalidArg) m else unavailable)"

definition vm_task_init :: "'d env \<Rightarrow> u32 \<Rightarrow> ('d machine option, v4_err) act" where
  "vm_task_init E ms = public_task E (task_init ms)"

definition vm_task_cleanup :: "'d env \<Rightarrow> ('d machine option, v4_err) act" where
  "vm_task_cleanup E = public_task E task_cleanup"

definition vm_task_spawn :: "'d env \<Rightarrow> u16 \<Rightarrow> u8 \<Rightarrow> u16 \<Rightarrow> u16 \<Rightarrow> ('d machine option, int) act" where
  "vm_task_spawn E w p d r = public_task E (task_spawn E w p d r)"

definition vm_task_exit :: "'d env \<Rightarrow> ('d machine option, v4_err) act" where
  "vm_task_exit E = public_task E (task_exit E)"

definition vm_task_sleep :: "'d env \<Rightarrow> u32 \<Rightarrow> ('d machine option, v4_err) act" where
  "vm_task_sleep E ms = public_task E (task_sleep E ms)"

definition vm_task_yield :: "'d env \<Rightarrow> ('d machine option, v4_err) act" where
  "vm_task_yield E = public_task E (task_yield E)"

definition task_critical_enter :: "'d env \<Rightarrow> ('d machine, v4_err) act" where
  "task_critical_enter E s = Ret (V4_ERR OK) (s\<lparr>world := platform_critical_enter E (world s),
     scheduler := (scheduler s)\<lparr>critical_nesting := critical_nesting (scheduler s) + 1\<rparr>\<rparr>)"

definition task_critical_exit :: "'d env \<Rightarrow> ('d machine, v4_err) act" where
  "task_critical_exit E s =
    (if critical_nesting (scheduler s) > 0 then
       (let n = critical_nesting (scheduler s) - 1;
            s1 = s\<lparr>scheduler := (scheduler s)\<lparr>critical_nesting := n\<rparr>\<rparr>
        in Ret (V4_ERR OK) (if n = 0 then s1\<lparr>world := platform_critical_exit E (world s1)\<rparr> else s1))
     else Ret (V4_ERR OK) s)"

definition vm_task_critical_enter :: "'d env \<Rightarrow> ('d machine option, v4_err) act" where
  "vm_task_critical_enter E = public_task E (task_critical_enter E)"

definition vm_task_critical_exit :: "'d env \<Rightarrow> ('d machine option, v4_err) act" where
  "vm_task_critical_exit E = public_task E (task_critical_exit E)"

text \<open>A null VM is task 0 for the custom backend, an error for the stub.\<close>

definition vm_task_self :: "'d env \<Rightarrow> ('d machine option, int) act" where
  "vm_task_self E vm =
    (if enable_tasks E then Ret (uint (v4_backend_task_current vm)) vm else unavailable vm)"

text \<open>The result is the code and what is stored through the two output pointers.\<close>

definition vm_task_get_info ::
    "'d env \<Rightarrow> u8 \<Rightarrow> ('d machine option, v4_err \<times> (v4_task_state_t \<times> u8) option) act" where
  "vm_task_get_info E task_id vm =
    (if \<not> enable_tasks E then (case unavailable vm of Ret e vm' \<Rightarrow> Ret (e, None) vm' | _ \<Rightarrow> Timeout)
     else (case vm of
         None \<Rightarrow> Ret (V4_ERR InvalidArg, None) vm
       | Some s \<Rightarrow> (case v4_backend_task_get_state vm task_id of
             (e, None) \<Rightarrow> Ret (e, None) vm
           | (e, Some st) \<Rightarrow>
               if e \<noteq> V4_ERR OK then Ret (e, None) vm
               else Ret (V4_ERR OK, Some (st, t_priority (task_at s (unat task_id)))) vm)))"

definition vm_task_send :: "'d env \<Rightarrow> u8 \<Rightarrow> u8 \<Rightarrow> i32 \<Rightarrow> ('d machine option, v4_err) act" where
  "vm_task_send E target mt data = public_task E (task_send target mt data)"

definition vm_task_receive :: "'d env \<Rightarrow> u8 \<Rightarrow> ('d machine option, int \<times> (i32 \<times> u8) option) act" where
  "vm_task_receive E mt =
    (if enable_tasks E then null_checked (V4_ERR InvalidArg, None) (task_receive mt)
     else (\<lambda>vm. Ret (case vm of None \<Rightarrow> V4_ERR InvalidArg | Some s \<Rightarrow> V4_ERR UnknownOp, None) vm))"

definition vm_task_receive_blocking ::
    "'d env \<Rightarrow> nat \<Rightarrow> u8 \<Rightarrow> u32 \<Rightarrow> ('d machine option, int \<times> (i32 \<times> u8) option) act" where
  "vm_task_receive_blocking E fuel mt timeout_ms =
    (if enable_tasks E
     then null_checked (V4_ERR InvalidArg, None) (task_receive_blocking E fuel mt timeout_ms)
     else (\<lambda>vm. Ret (case vm of None \<Rightarrow> V4_ERR InvalidArg | Some s \<Rightarrow> V4_ERR UnknownOp, None) vm))"

text \<open>The custom backend hands scheduling on to \<open>vm_schedule\<close>.\<close>

definition v4_backend_schedule :: "'d env \<Rightarrow> ('d machine option, v4_err) act" where
  "v4_backend_schedule E = vm_schedule E"

definition v4_backend_schedule_from_isr :: "'d env \<Rightarrow> ('d machine option, v4_err) act" where
  "v4_backend_schedule_from_isr E = vm_schedule_from_isr E"

section \<open>Well-formedness\<close>

lemma wf_vm_queue:
  assumes "wf_vm s" and "wf_queue q" shows "wf_vm (s\<lparr>msg_queue := q\<rparr>)"
  using assms by (simp add: wf_vm_def wf_stacks_def wf_mem_def wf_dict_def)

lemma wf_vm_queue_of: "wf_vm s \<Longrightarrow> wf_queue (msg_queue s)"
  by (simp add: wf_vm_def)

lemma wf_sched_counts [simp]:
  "wf_sched (sc\<lparr>task_count := c\<rparr>) = wf_sched sc" "wf_sched (sc\<lparr>critical_nesting := c\<rparr>) = wf_sched sc"
  "wf_sched (sc\<lparr>preemptions := k\<rparr>) = wf_sched sc" "wf_sched (sc\<lparr>time_slice_ms := ms\<rparr>) = wf_sched sc"
  by (simp_all add: wf_sched_def)

lemma wf_task_dead:
  "wf_task t \<Longrightarrow> wf_task (t\<lparr>ds_base := None, rs_base := None, t_state := x\<rparr>)"
  "wf_task t \<Longrightarrow> wf_task (t\<lparr>ds_base := None, rs_base := None\<rparr>)"
  "wf_task t \<Longrightarrow> wf_task (t\<lparr>sleep_until_tick := k, t_state := x\<rparr>)"
  by (simp_all add: wf_task_def wf_block_def)

lemma keeps_task_send [keeps_intros]: "keeps wf_vm U (task_send d t x)"
  by (rule keeps_returns)
    (auto simp: task_send_def v4_backend_task_send_def intro!: wf_vm_queue wf_send wf_vm_queue_of)

lemma keeps_task_receive [keeps_intros]: "keeps wf_vm U (task_receive t)"
proof (rule keeps_returns)
  fix s :: "'a machine" assume s: "wf_vm s"
  show "\<exists>r s'. task_receive t s = Ret r s' \<and> wf_vm s'"
    using receive_refines [OF wf_vm_queue_of [OF s], of t]
    by (auto simp: task_receive_def s wf_vm_queue [OF s] split: option.splits)
qed

lemma keeps_task_yield [keeps_intros]: "OutOfBounds \<in> U \<Longrightarrow> keeps wf_vm U (task_yield E)"
  unfolding task_yield_def by (intro keeps_intros)

lemma keeps_pre:
  assumes "keeps I U m" and "\<And>s. I s \<Longrightarrow> I (f s)" shows "keeps I U (\<lambda>s. m (f s))"
  using assms unfolding keeps_def by blast

lemma keeps_task_exit [keeps_intros]: "OutOfBounds \<in> U \<Longrightarrow> keeps wf_vm U (task_exit E)"
  unfolding task_exit_def Let_def
proof (rule keeps_pre)
  assume U: "OutOfBounds \<in> U"
  show "keeps wf_vm U (bnd (schedule E) (\<lambda>_. Ret (V4_ERR OK)))"
    using U by (intro keeps_intros)
  fix s :: "'a machine" assume s: "wf_vm s"
  let ?s1 = "set_task (cur_index s) ((task_at s (cur_index s))\<lparr>ds_base := None, rs_base := None, t_state := DEAD\<rparr>) s"
  have "wf_vm ?s1" using s by (intro wf_set_task wf_task_dead wf_vm_task) simp_all
  then show "wf_vm (?s1\<lparr>scheduler := (scheduler ?s1)\<lparr>task_count := task_count (scheduler ?s1) - 1\<rparr>\<rparr>)"
    by (intro wf_vm_replace) (simp_all add: wf_vm_sched)
qed

lemma keeps_task_sleep [keeps_intros]: "OutOfBounds \<in> U \<Longrightarrow> keeps wf_vm U (task_sleep E ms)"
  unfolding task_sleep_def Let_def
  by (intro keeps_bnd on_world_keeps keeps_pre [where m = "bnd (schedule E) (\<lambda>_. Ret (V4_ERR OK))"] keeps_intros)
    (auto intro!: wf_set_task wf_task_dead wf_vm_task)

lemma keeps_receive_loop: "OutOfBounds \<in> U \<Longrightarrow> keeps wf_vm U (receive_loop E mt ms start fuel)"
proof (induction fuel)
  case 0
  then show ?case by (simp add: keeps_def)
next
  case (Suc fuel)
  then show ?case
    unfolding receive_loop.simps by (intro keeps_intros Suc.IH) simp_all
qed

lemma keeps_receive_blocking [keeps_intros]:
  "OutOfBounds \<in> U \<Longrightarrow> keeps wf_vm U (task_receive_blocking E fuel mt ms)"
  unfolding task_receive_blocking_def by (intro keeps_intros keeps_receive_loop) simp_all

lemma keeps_critical_enter [keeps_intros]: "keeps wf_vm U (task_critical_enter E)"
  and keeps_critical_exit [keeps_intros]: "keeps wf_vm U (task_critical_exit E)"
  by (rule keeps_returns; auto simp: task_critical_enter_def task_critical_exit_def Let_def wf_vm_def
      wf_stacks_def wf_mem_def wf_dict_def)+

text \<open>What a spawn does once the word index is valid and a slot is free.\<close>

definition spawned :: "u16 \<Rightarrow> u8 \<Rightarrow> u16 \<Rightarrow> u16 \<Rightarrow> v4_task_t" where
  "spawned w p d r = \<lparr>t_word_idx = w, t_pc = 0, ds_base = Some (fresh_block (unat d)),
     rs_base = Some (fresh_block (unat r)), ds_depth = 0, rs_depth = 0, t_state = READY, t_priority = p,
     sleep_until_tick = 0, ds_size = ucast d, rs_size = ucast r, exec_count = 0\<rparr>"

lemma spawned_eq:
  "t\<lparr>ds_base := Some (fresh_block (unat d)), rs_base := Some (fresh_block (unat r)),
     t_word_idx := w, t_pc := 0, ds_depth := 0, rs_depth := 0, t_state := READY, t_priority := p,
     sleep_until_tick := 0, ds_size := ucast d, rs_size := ucast r, exec_count := 0\<rparr> = spawned w p d r"
  by (cases t) (simp add: spawned_def)

lemma wf_spawned [simp]: "wf_task (spawned w p d r)"
  by (simp add: wf_task_def wf_block_def spawned_def fresh_block_def)

lemma spawn_run:
  assumes "uint w < word_count s" and "free_slot s = Some i"
    and d: "d = (if dsz = 0 then 256 else dsz)" and r: "r = (if rsz = 0 then 64 else rsz)"
    and m1: "malloc_ok E (unat d * 4) (world s) = (ok1, w1)" and m2: "malloc_ok E (unat r * 4) w1 = (ok2, w2)"
  shows "task_spawn E w p dsz rsz s =
    (if ok1 \<and> ok2
     then (let s2 = set_task i (spawned w p d r) (s\<lparr>world := w2\<rparr>) in
       Ret (int i) (s2\<lparr>scheduler := (scheduler s2)\<lparr>task_count := task_count (scheduler s2) + 1\<rparr>\<rparr>))
     else Ret (V4_ERR NoMemory)
       (set_task i ((task_at s i)\<lparr>ds_base := None, rs_base := None\<rparr>) (s\<lparr>world := w2\<rparr>)))"
  using assms(1,2) m1 m2
  unfolding task_spawn_def d [symmetric] r [symmetric] spawned_eq
  by (simp add: on_world_def task_at_def)

lemma keeps_task_spawn [keeps_intros]: "keeps wf_vm U (task_spawn E w p d r)"
proof (rule keeps_returns)
  fix s :: "'a machine" assume s: "wf_vm s"
  show "\<exists>r' s'. task_spawn E w p d r s = Ret r' s' \<and> wf_vm s'"
  proof (cases "uint w \<ge> word_count s \<or> free_slot s = None")
    case True
    then show ?thesis using s by (auto simp: task_spawn_def)
  next
    case False
    then obtain i where i: "uint w < word_count s" "free_slot s = Some i" "i < 8"
      by (auto simp: free_slot_def find_upt_Some_iff V4_MAX_TASKS_def)
    define d' r' where "d' = (if d = 0 then 256 else d)" and "r' = (if r = 0 then 64 else r)"
    obtain ok1 w1 ok2 w2 where m: "malloc_ok E (unat d' * 4) (world s) = (ok1, w1)"
        "malloc_ok E (unat r' * 4) w1 = (ok2, w2)"
      by (metis surj_pair)
    let ?s2 = "set_task i (spawned w p d' r') (s\<lparr>world := w2\<rparr>)"
    have "wf_vm ?s2" using s by (intro wf_set_task) simp_all
    then have a: "wf_vm (?s2\<lparr>scheduler := (scheduler ?s2)\<lparr>task_count := task_count (scheduler ?s2) + 1\<rparr>\<rparr>)"
      by (intro wf_vm_replace) (simp_all add: wf_vm_sched)
    have b: "wf_vm (set_task i ((task_at s i)\<lparr>ds_base := None, rs_base := None\<rparr>) (s\<lparr>world := w2\<rparr>))"
      using s i by (intro wf_set_task wf_task_dead wf_vm_task) simp_all
    show ?thesis
      unfolding spawn_run [OF i(1,2) d'_def r'_def m] using a b by (simp add: Let_def)
  qed
qed

end
