(* ===== verification/V4_Instr.thy ===== *)
theory V4_Instr
  imports V4_Memory V4_Tasks "HOL-Library.Signed_Division"
begin

text \<open>
  The instructions of \<open>vm_exec_raw\<close> (\<^verbatim>\<open>src/core.cpp\<close>), one definition for each case of its switch. An
  instruction without operand bytes is an action on the machine; one with operand bytes also reads the
  bytecode \<open>bc\<close> at the offset \<open>ip\<close> behind the opcode byte and says where to go on. \<open>len\<close> is the length
  the caller gave, and a read past the end of the buffer itself is undefined.
\<close>

section \<open>Reading the bytecode\<close>

text \<open>Where the loop goes on: at an offset, or back to the caller.\<close>

datatype flow = Continue nat | Return

definition byte_at :: "u8 list \<Rightarrow> nat \<Rightarrow> ('s, u8) act" where
  "byte_at bc i s = (if i < length bc then Ret (bc ! i) s else Undef OutOfBounds)"

definition read_i32_le :: "u8 list \<Rightarrow> nat \<Rightarrow> ('s, i32) act" where
  "read_i32_le p i = bnd (byte_at p i) (\<lambda>b0. bnd (byte_at p (i + 1)) (\<lambda>b1.
     bnd (byte_at p (i + 2)) (\<lambda>b2. bnd (byte_at p (i + 3)) (\<lambda>b3.
       Ret (ucast b0 OR push_bit 8 (ucast b1) OR push_bit 16 (ucast b2) OR push_bit 24 (ucast b3))))))"

definition read_i16_le :: "u8 list \<Rightarrow> nat \<Rightarrow> ('s, u16) act" where
  "read_i16_le p i = bnd (byte_at p i) (\<lambda>b0. bnd (byte_at p (i + 1)) (\<lambda>b1.
     Ret (ucast b0 OR push_bit 8 (ucast b1))))"

definition continue_at :: "nat \<Rightarrow> ('s, unit) act \<Rightarrow> ('s, flow) act" where
  "continue_at ip m = bnd m (\<lambda>_. Ret (Continue ip))"

section \<open>Literals and stack manipulation\<close>

definition exec_LIT :: "'d env \<Rightarrow> u8 list \<Rightarrow> int \<Rightarrow> nat \<Rightarrow> ('d machine, flow) act" where
  "exec_LIT E bc len ip =
    (if int ip + 4 > len then panic E TruncatedLiteral
     else bnd (read_i32_le bc ip) (\<lambda>k. continue_at (ip + 4) (ds_push E k)))"

definition exec_DUP :: "'d env \<Rightarrow> ('d machine, unit) act" where
  "exec_DUP E = bnd (ds_peek E 0) (\<lambda>a. ds_push E a)"

definition exec_DROP :: "'d env \<Rightarrow> ('d machine, unit) act" where
  "exec_DROP E = bnd (ds_pop E) (\<lambda>dummy. Ret ())"

definition exec_SWAP :: "'d env \<Rightarrow> ('d machine, unit) act" where
  "exec_SWAP E = bnd (ds_pop E) (\<lambda>a. bnd (ds_pop E) (\<lambda>b.
     bnd (ds_push E a) (\<lambda>_. ds_push E b)))"

definition exec_OVER :: "'d env \<Rightarrow> ('d machine, unit) act" where
  "exec_OVER E = bnd (ds_peek E 1) (\<lambda>v. ds_push E v)"

definition exec_literal :: "'d env \<Rightarrow> i32 \<Rightarrow> ('d machine, unit) act" where
  "exec_literal E k = ds_push E k"

definition exec_LIT_U8 :: "'d env \<Rightarrow> u8 list \<Rightarrow> int \<Rightarrow> nat \<Rightarrow> ('d machine, flow) act" where
  "exec_LIT_U8 E bc len ip =
    (if int ip \<ge> len then panic E TruncatedLiteral
     else bnd (byte_at bc ip) (\<lambda>b. continue_at (ip + 1) (ds_push E (ucast b))))"

definition exec_LIT_I8 :: "'d env \<Rightarrow> u8 list \<Rightarrow> int \<Rightarrow> nat \<Rightarrow> ('d machine, flow) act" where
  "exec_LIT_I8 E bc len ip =
    (if int ip \<ge> len then panic E TruncatedLiteral
     else bnd (byte_at bc ip) (\<lambda>b. continue_at (ip + 1) (ds_push E (scast b))))"

definition exec_LIT_I16 :: "'d env \<Rightarrow> u8 list \<Rightarrow> int \<Rightarrow> nat \<Rightarrow> ('d machine, flow) act" where
  "exec_LIT_I16 E bc len ip =
    (if int ip + 2 > len then panic E TruncatedLiteral
     else bnd (read_i16_le bc ip) (\<lambda>v. continue_at (ip + 2) (ds_push E (scast v))))"

section \<open>Arithmetic, comparison and bits\<close>

definition V4_TRUE :: i32 where "V4_TRUE = -1"

definition V4_FALSE :: i32 where "V4_FALSE = 0"

definition truth :: "bool \<Rightarrow> i32" where
  "truth b = (if b then V4_TRUE else V4_FALSE)"

text \<open>A signed result: undefined when it does not fit.\<close>

definition exactly :: "int \<Rightarrow> ('s, i32) act" where
  "exactly x = (case exact32 x of Some w \<Rightarrow> Ret w | None \<Rightarrow> (\<lambda>s. Undef SignedOverflow))"

text \<open>
  The inner switch. \<open>a % b\<close> is undefined when \<open>a / b\<close> does not fit; both truncate towards zero.
\<close>

fun binary_result :: "'d env \<Rightarrow> Op \<Rightarrow> i32 \<Rightarrow> i32 \<Rightarrow> ('d machine, i32) act" where
  "binary_result E Op_ADD a b = exactly (sint a + sint b)"
| "binary_result E Op_SUB a b = exactly (sint a - sint b)"
| "binary_result E Op_MUL a b = exactly (sint a * sint b)"
| "binary_result E Op_DIV a b =
    (if b = 0 then panic E DivByZero else exactly (sint a sdiv sint b))"
| "binary_result E Op_MOD a b =
    (if b = 0 then panic E DivByZero
     else bnd (exactly (sint a sdiv sint b)) (\<lambda>_. Ret (word_of_int (sint a smod sint b))))"
| "binary_result E Op_DIVU a b = (if b = 0 then panic E DivByZero else Ret (a div b))"
| "binary_result E Op_MODU a b = (if b = 0 then panic E DivByZero else Ret (a mod b))"
| "binary_result E Op_EQ a b = Ret (truth (a = b))"
| "binary_result E Op_NE a b = Ret (truth (a \<noteq> b))"
| "binary_result E Op_LT a b = Ret (truth (sint a < sint b))"
| "binary_result E Op_LE a b = Ret (truth (sint a \<le> sint b))"
| "binary_result E Op_GT a b = Ret (truth (sint a > sint b))"
| "binary_result E Op_GE a b = Ret (truth (sint a \<ge> sint b))"
| "binary_result E Op_LTU a b = Ret (truth (a < b))"
| "binary_result E Op_LEU a b = Ret (truth (a \<le> b))"
| "binary_result E _ a b = Ret 0"

definition exec_binary :: "'d env \<Rightarrow> Op \<Rightarrow> ('d machine, unit) act" where
  "exec_binary E op = bnd (ds_pop E) (\<lambda>b. bnd (ds_pop E) (\<lambda>a.
     bnd (binary_result E op a b) (\<lambda>result. ds_push E result)))"

definition exec_INC :: "'d env \<Rightarrow> ('d machine, unit) act" where
  "exec_INC E = bnd (ds_pop E) (\<lambda>a. bnd (exactly (sint a + 1)) (ds_push E))"

definition exec_DEC :: "'d env \<Rightarrow> ('d machine, unit) act" where
  "exec_DEC E = bnd (ds_pop E) (\<lambda>a. bnd (exactly (sint a - 1)) (ds_push E))"

definition exec_AND :: "'d env \<Rightarrow> ('d machine, unit) act" where
  "exec_AND E = bnd (ds_pop E) (\<lambda>b. bnd (ds_pop E) (\<lambda>a. ds_push E (a AND b)))"

definition exec_OR :: "'d env \<Rightarrow> ('d machine, unit) act" where
  "exec_OR E = bnd (ds_pop E) (\<lambda>b. bnd (ds_pop E) (\<lambda>a. ds_push E (a OR b)))"

definition exec_XOR :: "'d env \<Rightarrow> ('d machine, unit) act" where
  "exec_XOR E = bnd (ds_pop E) (\<lambda>b. bnd (ds_pop E) (\<lambda>a. ds_push E (a XOR b)))"

definition exec_INVERT :: "'d env \<Rightarrow> ('d machine, unit) act" where
  "exec_INVERT E = bnd (ds_pop E) (\<lambda>a. ds_push E (NOT a))"

definition shift_count :: "i32 \<Rightarrow> nat" where
  "shift_count shift = unat (shift AND 0x1F)"

text \<open>
  \<open>val << n\<close> on a signed value in C++17: undefined when \<open>val\<close> is negative or \<open>val * 2 ^ n\<close> does not fit
  the unsigned type; otherwise that value, converted.
\<close>

definition shift_left :: "i32 \<Rightarrow> nat \<Rightarrow> ('s, i32) act" where
  "shift_left val n =
    (if sint val < 0 \<or> sint val * 2 ^ n \<ge> 2 ^ 32 then (\<lambda>s. Undef ShiftUndefined)
     else Ret (push_bit n val))"

definition exec_SHL :: "'d env \<Rightarrow> ('d machine, unit) act" where
  "exec_SHL E = bnd (ds_pop E) (\<lambda>shift. bnd (ds_pop E) (\<lambda>val.
     bnd (shift_left val (shift_count shift)) (ds_push E)))"

definition exec_SHR :: "'d env \<Rightarrow> ('d machine, unit) act" where
  "exec_SHR E = bnd (ds_pop E) (\<lambda>shift. bnd (ds_pop E) (\<lambda>val.
     ds_push E (drop_bit (shift_count shift) val)))"

text \<open>The right shift of a negative value is the arithmetic one in every compiler the engine supports.\<close>

definition exec_SAR :: "'d env \<Rightarrow> ('d machine, unit) act" where
  "exec_SAR E = bnd (ds_pop E) (\<lambda>shift. bnd (ds_pop E) (\<lambda>val.
     ds_push E (signed_drop_bit (shift_count shift) val)))"

section \<open>Control flow within a word\<close>

definition jump_to :: "'d env \<Rightarrow> int \<Rightarrow> nat \<Rightarrow> u16 \<Rightarrow> ('d machine, flow) act" where
  "jump_to E len ip off =
    (let tgt = int ip + sint off in
     if tgt < 0 \<or> tgt > len then panic E JumpOutOfRange else Ret (Continue (nat tgt)))"

definition exec_JMP :: "'d env \<Rightarrow> u8 list \<Rightarrow> int \<Rightarrow> nat \<Rightarrow> ('d machine, flow) act" where
  "exec_JMP E bc len ip =
    (if int ip + 2 > len then panic E TruncatedJump
     else bnd (read_i16_le bc ip) (\<lambda>off. jump_to E len (ip + 2) off))"

definition exec_JZ :: "'d env \<Rightarrow> u8 list \<Rightarrow> int \<Rightarrow> nat \<Rightarrow> ('d machine, flow) act" where
  "exec_JZ E bc len ip =
    (if int ip + 2 > len then panic E TruncatedJump
     else bnd (read_i16_le bc ip) (\<lambda>off. bnd (ds_pop E) (\<lambda>cond.
       if cond = 0 then jump_to E len (ip + 2) off else Ret (Continue (ip + 2)))))"

definition exec_JNZ :: "'d env \<Rightarrow> u8 list \<Rightarrow> int \<Rightarrow> nat \<Rightarrow> ('d machine, flow) act" where
  "exec_JNZ E bc len ip =
    (if int ip + 2 > len then panic E TruncatedJump
     else bnd (read_i16_le bc ip) (\<lambda>off. bnd (ds_pop E) (\<lambda>cond.
       if cond \<noteq> 0 then jump_to E len (ip + 2) off else Ret (Continue (ip + 2)))))"

definition exec_SELECT :: "'d env \<Rightarrow> ('d machine, unit) act" where
  "exec_SELECT E = bnd (ds_pop E) (\<lambda>a. bnd (ds_pop E) (\<lambda>b. bnd (ds_pop E) (\<lambda>flag.
     ds_push E (if flag \<noteq> 0 then a else b))))"

section \<open>Memory\<close>

text \<open>A failing access returns its code without a panic.\<close>

definition loaded :: "('d machine, v4_err \<times> u32) act \<Rightarrow> ('d machine, u32) act" where
  "loaded m = bnd m (\<lambda>(e, val). if e \<noteq> 0 then Fail e else Ret val)"

definition exec_LOAD :: "'d env \<Rightarrow> ('d machine, unit) act" where
  "exec_LOAD E = bnd (ds_pop E) (\<lambda>addr. bnd (loaded (v4_mem_read32_core addr 0)) (ds_push E))"

definition exec_STORE :: "'d env \<Rightarrow> ('d machine, unit) act" where
  "exec_STORE E = bnd (ds_pop E) (\<lambda>addr. bnd (ds_pop E) (\<lambda>val. check (v4_mem_write32_core addr val)))"

definition exec_LOAD8U :: "'d env \<Rightarrow> ('d machine, unit) act" where
  "exec_LOAD8U E = bnd (ds_pop E) (\<lambda>addr. bnd (loaded (v4_mem_read8_core addr 0)) (ds_push E))"

definition exec_LOAD16U :: "'d env \<Rightarrow> ('d machine, unit) act" where
  "exec_LOAD16U E = bnd (ds_pop E) (\<lambda>addr. bnd (loaded (v4_mem_read16_core addr 0)) (ds_push E))"

definition exec_STORE8 :: "'d env \<Rightarrow> ('d machine, unit) act" where
  "exec_STORE8 E = bnd (ds_pop E) (\<lambda>addr. bnd (ds_pop E) (\<lambda>val. check (v4_mem_write8_core addr val)))"

definition exec_STORE16 :: "'d env \<Rightarrow> ('d machine, unit) act" where
  "exec_STORE16 E = bnd (ds_pop E) (\<lambda>addr. bnd (ds_pop E) (\<lambda>val. check (v4_mem_write16_core addr val)))"

definition exec_LOAD8S :: "'d env \<Rightarrow> ('d machine, unit) act" where
  "exec_LOAD8S E = bnd (ds_pop E) (\<lambda>addr. bnd (loaded (v4_mem_read8_core addr 0)) (\<lambda>val.
     ds_push E (scast (ucast (val AND 0xFF) :: u8))))"

definition exec_LOAD16S :: "'d env \<Rightarrow> ('d machine, unit) act" where
  "exec_LOAD16S E = bnd (ds_pop E) (\<lambda>addr. bnd (loaded (v4_mem_read16_core addr 0)) (\<lambda>val.
     ds_push E (scast (ucast (val AND 0xFFFF) :: u16))))"

section \<open>Return stack and locals\<close>

definition exec_TOR :: "'d env \<Rightarrow> ('d machine, unit) act" where
  "exec_TOR E = bnd (ds_pop E) (\<lambda>val. rs_push E val)"

definition exec_FROMR :: "'d env \<Rightarrow> ('d machine, unit) act" where
  "exec_FROMR E = bnd (rs_pop E) (\<lambda>val. ds_push E val)"

definition exec_RFETCH :: "'d env \<Rightarrow> ('d machine, unit) act" where
  "exec_RFETCH E = bnd (rs_peek E 0) (\<lambda>val. ds_push E val)"

text \<open>The two checks before every use of \<open>fp[idx]\<close>; the result is the offset of that cell in \<open>RS\<close>.\<close>

definition local_cell :: "'d env \<Rightarrow> nat \<Rightarrow> ('d machine, nat) act" where
  "local_cell E idx s = (case fp s of
      None \<Rightarrow> panic E InvalidArg s
    | Some f \<Rightarrow> if f + idx \<ge> rp s then panic E StackUnderflow s else Ret (f + idx) s)"

definition get_cell :: "nat \<Rightarrow> ('d machine, i32) act" where
  "get_cell i s = (if i < length (RS s) then Ret (RS s ! i) s else Undef OutOfBounds)"

definition set_cell :: "nat \<Rightarrow> i32 \<Rightarrow> ('d machine, unit) act" where
  "set_cell i v s = (if i < length (RS s) then Ret () (s\<lparr>RS := (RS s)[i := v]\<rparr>) else Undef OutOfBounds)"

definition local_get :: "'d env \<Rightarrow> nat \<Rightarrow> ('d machine, unit) act" where
  "local_get E idx = bnd (local_cell E idx) (\<lambda>i. bnd (get_cell i) (ds_push E))"

definition local_set :: "'d env \<Rightarrow> nat \<Rightarrow> ('d machine, unit) act" where
  "local_set E idx = bnd (local_cell E idx) (\<lambda>i. bnd (ds_pop E) (\<lambda>val. set_cell i val))"

definition local_tee :: "'d env \<Rightarrow> nat \<Rightarrow> ('d machine, unit) act" where
  "local_tee E idx = bnd (local_cell E idx) (\<lambda>i. bnd (ds_peek E 0) (\<lambda>val. set_cell i val))"

definition local_inc :: "'d env \<Rightarrow> nat \<Rightarrow> ('d machine, unit) act" where
  "local_inc E idx = bnd (local_cell E idx) (\<lambda>i. bnd (get_cell i) (\<lambda>v.
     bnd (exactly (sint v + 1)) (set_cell i)))"

definition local_dec :: "'d env \<Rightarrow> nat \<Rightarrow> ('d machine, unit) act" where
  "local_dec E idx = bnd (local_cell E idx) (\<lambda>i. bnd (get_cell i) (\<lambda>v.
     bnd (exactly (sint v - 1)) (set_cell i)))"

text \<open>The operand byte of \<open>LGET\<close>, \<open>LSET\<close>, \<open>LTEE\<close>, \<open>LINC\<close> and \<open>LDEC\<close> is the index of the local.\<close>

definition with_index ::
    "'d env \<Rightarrow> (nat \<Rightarrow> ('d machine, unit) act) \<Rightarrow> u8 list \<Rightarrow> int \<Rightarrow> nat \<Rightarrow> ('d machine, flow) act" where
  "with_index E m bc len ip =
    (if int ip \<ge> len then panic E TruncatedLiteral
     else bnd (byte_at bc ip) (\<lambda>idx. continue_at (ip + 1) (m (unat idx))))"

definition exec_LGET :: "'d env \<Rightarrow> u8 list \<Rightarrow> int \<Rightarrow> nat \<Rightarrow> ('d machine, flow) act" where
  "exec_LGET E = with_index E (local_get E)"

definition exec_LSET :: "'d env \<Rightarrow> u8 list \<Rightarrow> int \<Rightarrow> nat \<Rightarrow> ('d machine, flow) act" where
  "exec_LSET E = with_index E (local_set E)"

definition exec_LTEE :: "'d env \<Rightarrow> u8 list \<Rightarrow> int \<Rightarrow> nat \<Rightarrow> ('d machine, flow) act" where
  "exec_LTEE E = with_index E (local_tee E)"

definition exec_LINC :: "'d env \<Rightarrow> u8 list \<Rightarrow> int \<Rightarrow> nat \<Rightarrow> ('d machine, flow) act" where
  "exec_LINC E = with_index E (local_inc E)"

definition exec_LDEC :: "'d env \<Rightarrow> u8 list \<Rightarrow> int \<Rightarrow> nat \<Rightarrow> ('d machine, flow) act" where
  "exec_LDEC E = with_index E (local_dec E)"

section \<open>Calls\<close>

text \<open>\<open>run\<close> stands for the recursive call of \<open>vm_exec_raw\<close>.\<close>

definition exec_CALL ::
    "'d env \<Rightarrow> (u8 list \<Rightarrow> int \<Rightarrow> ('d machine, v4_err) act) \<Rightarrow> u8 list \<Rightarrow> int \<Rightarrow> nat \<Rightarrow> ('d machine, flow) act" where
  "exec_CALL E run bc len ip =
    (if int ip + 2 > len then panic E TruncatedJump
     else bnd (read_i16_le bc ip) (\<lambda>word_idx s.
       if word_idx \<ge> word_of_int (word_count s) then panic E InvalidWordIdx s
       else (let word = words s ! unat word_idx in
         case w_code word of
           None \<Rightarrow> panic E InvalidArg s
         | Some code \<Rightarrow>
             if w_code_len word \<le> 0 then panic E InvalidArg s
             else (let old_fp = fp s in
               bnd (run code (w_code_len word)) (\<lambda>e s1.
                 let s2 = s1\<lparr>fp := old_fp\<rparr>
                 in if e \<noteq> 0 then Fail e s2 else Ret (Continue (ip + 2)) s2) (s\<lparr>fp := Some (rp s)\<rparr>)))))"

definition v4_invoke_sys_handler :: "'d env \<Rightarrow> i32 \<Rightarrow> i32 \<Rightarrow> i32 \<Rightarrow> i32 \<Rightarrow> ('d machine, i32) act" where
  "v4_invoke_sys_handler E sys_id arg0 arg1 arg2 s = (case g_sys_handler E of
      Some h \<Rightarrow> (case h s sys_id arg0 arg1 arg2 of (r, s') \<Rightarrow> Ret r s')
    | None \<Rightarrow> Ret (-1) s)"

definition exec_SYS :: "'d env \<Rightarrow> ('d machine, unit) act" where
  "exec_SYS E = bnd (ds_pop E) (\<lambda>sys_id. bnd (ds_pop E) (\<lambda>arg2. bnd (ds_pop E) (\<lambda>arg1.
     bnd (ds_pop E) (\<lambda>arg0. bnd (v4_invoke_sys_handler E sys_id arg0 arg1 arg2) (ds_push E)))))"

section \<open>Tasks\<close>

definition exec_TASK_SPAWN :: "'d env \<Rightarrow> ('d machine, unit) act" where
  "exec_TASK_SPAWN E = bnd (ds_pop E) (\<lambda>rsz. bnd (ds_pop E) (\<lambda>dsz. bnd (ds_pop E) (\<lambda>priority.
     bnd (ds_pop E) (\<lambda>word_idx.
       bnd (task_spawn E (ucast word_idx) (ucast priority) (ucast dsz) (ucast rsz)) (\<lambda>task_id.
         ds_push E (word_of_int task_id))))))"

definition exec_TASK_EXIT :: "'d env \<Rightarrow> ('d machine, flow) act" where
  "exec_TASK_EXIT E = bnd (task_exit E) (\<lambda>_. Ret Return)"

definition exec_TASK_SLEEP :: "'d env \<Rightarrow> ('d machine, unit) act" where
  "exec_TASK_SLEEP E = bnd (ds_pop E) (\<lambda>ms_delay. bnd (task_sleep E ms_delay) (\<lambda>_. Ret ()))"

definition exec_TASK_YIELD :: "'d env \<Rightarrow> ('d machine, unit) act" where
  "exec_TASK_YIELD E = bnd (task_yield E) (\<lambda>_. Ret ())"

definition exec_CRITICAL_ENTER :: "'d env \<Rightarrow> ('d machine, unit) act" where
  "exec_CRITICAL_ENTER E = bnd (task_critical_enter E) (\<lambda>_. Ret ())"

definition exec_CRITICAL_EXIT :: "'d env \<Rightarrow> ('d machine, unit) act" where
  "exec_CRITICAL_EXIT E = bnd (task_critical_exit E) (\<lambda>_. Ret ())"

definition exec_TASK_SEND :: "'d env \<Rightarrow> ('d machine, unit) act" where
  "exec_TASK_SEND E = bnd (ds_pop E) (\<lambda>data. bnd (ds_pop E) (\<lambda>mt. bnd (ds_pop E) (\<lambda>target_task.
     bnd (task_send (ucast target_task) (ucast mt) data) (\<lambda>result. ds_push E (word_of_int result)))))"

text \<open>
  The locals \<open>data\<close> and \<open>src_task\<close> are pushed whether or not the call has written them; reading them
  unwritten is undefined.
\<close>

definition push_received :: "'d env \<Rightarrow> int \<times> (i32 \<times> u8) option \<Rightarrow> ('d machine, unit) act" where
  "push_received E r = (case r of (result, out) \<Rightarrow> (case out of
      None \<Rightarrow> (\<lambda>s. Undef Indeterminate)
    | Some (data, src) \<Rightarrow> bnd (ds_push E data) (\<lambda>_. bnd (ds_push E (ucast src)) (\<lambda>_.
        ds_push E (word_of_int result)))))"

definition exec_TASK_RECEIVE :: "'d env \<Rightarrow> ('d machine, unit) act" where
  "exec_TASK_RECEIVE E = bnd (ds_pop E) (\<lambda>mt. bnd (task_receive (ucast mt)) (push_received E))"

definition exec_TASK_RECEIVE_BLOCKING :: "'d env \<Rightarrow> nat \<Rightarrow> ('d machine, unit) act" where
  "exec_TASK_RECEIVE_BLOCKING E fuel = bnd (ds_pop E) (\<lambda>timeout_ms. bnd (ds_pop E) (\<lambda>mt.
     bnd (task_receive_blocking E fuel (ucast mt) timeout_ms) (push_received E)))"

definition exec_TASK_SELF :: "'d env \<Rightarrow> ('d machine, unit) act" where
  "exec_TASK_SELF E s = ds_push E (ucast (v4_backend_task_current (Some s))) s"

definition exec_TASK_COUNT :: "'d env \<Rightarrow> ('d machine, unit) act" where
  "exec_TASK_COUNT E s = ds_push E (ucast (task_count (scheduler s))) s"

section \<open>Every instruction keeps the machine well-formed\<close>

lemma keeps_case_prod [keeps_intros]: "(\<And>a b. keeps I U (f a b)) \<Longrightarrow> keeps I U (case p of (a, b) \<Rightarrow> f a b)"
  by (cases p) simp

lemma keeps_case_option [keeps_intros]:
  "(x = None \<Longrightarrow> keeps I U m) \<Longrightarrow> (\<And>a. x = Some a \<Longrightarrow> keeps I U (f a)) \<Longrightarrow>
    keeps I U (case x of None \<Rightarrow> m | Some a \<Rightarrow> f a)"
  by (cases x) simp_all

text \<open>Sequencing when the first action says something about its value.\<close>

lemma keeps_bnd_post:
  assumes m: "keeps I U m" and P: "\<And>s a s'. I s \<Longrightarrow> m s = Ret a s' \<Longrightarrow> P a"
    and f: "\<And>a. P a \<Longrightarrow> keeps I U (f a)"
  shows "keeps I U (bnd m f)"
proof (rule keepsI)
  fix s b t assume s: "I s" and "bnd m f s = Ret b t"
  then obtain a s' where "m s = Ret a s'" and "f a s' = Ret b t" by (auto simp: bnd_eq_Ret_iff)
  then show "I t" using keeps_Ret [OF f [OF P [OF s]]] keeps_Ret [OF m s] by blast
next
  fix s e t assume s: "I s" and "bnd m f s = Fail e t"
  then consider "m s = Fail e t" | a s' where "m s = Ret a s'" "f a s' = Fail e t"
    by (auto simp: bnd_def split: res.splits)
  then show "I t"
    by cases (blast intro: keeps_Fail [OF m s], blast intro: keeps_Fail [OF f [OF P [OF s]]] keeps_Ret [OF m s])
next
  fix s u assume s: "I s" and "bnd m f s = Undef u"
  then consider "m s = Undef u" | a s' where "m s = Ret a s'" "f a s' = Undef u"
    by (auto simp: bnd_def split: res.splits)
  then show "u \<in> U"
    by cases (blast intro: keeps_Undef [OF m s], blast intro: keeps_Undef [OF f [OF P [OF s]]] keeps_Ret [OF m s])
qed

lemma keeps_byte_at [keeps_intros]: "i < length bc \<Longrightarrow> keeps I U (byte_at bc i)"
  by (simp add: keeps_def byte_at_def)

lemma keeps_read_i32 [keeps_intros]: "i + 4 \<le> length p \<Longrightarrow> keeps I U (read_i32_le p i)"
  unfolding read_i32_le_def by (intro keeps_intros) simp_all

lemma keeps_read_i16 [keeps_intros]: "i + 2 \<le> length p \<Longrightarrow> keeps I U (read_i16_le p i)"
  unfolding read_i16_le_def by (intro keeps_intros) simp_all

lemma keeps_continue_at [keeps_intros]: "keeps I U m \<Longrightarrow> keeps I U (continue_at ip m)"
  unfolding continue_at_def by (intro keeps_intros)

lemma keeps_exactly [keeps_intros]: "SignedOverflow \<in> U \<Longrightarrow> keeps I U (exactly x)"
  by (simp add: keeps_def exactly_def split: option.splits)

lemma keeps_shift_left [keeps_intros]: "ShiftUndefined \<in> U \<Longrightarrow> keeps I U (shift_left v n)"
  by (simp add: keeps_def shift_left_def)

lemma keeps_binary_result [keeps_intros]: "SignedOverflow \<in> U \<Longrightarrow> keeps wf_vm U (binary_result E op a b)"
  by (cases op) (simp_all only: binary_result.simps, (intro keeps_intros | assumption)+)

lemma keeps_loaded [keeps_intros]: "keeps I U m \<Longrightarrow> keeps I U (loaded m)"
  unfolding loaded_def by (intro keeps_intros)

lemma wf_vm_fp [simp]: "wf_vm (s\<lparr>fp := x\<rparr>) = wf_vm s"
  and wf_vm_last_err [simp]: "wf_vm (s\<lparr>last_err := e\<rparr>) = wf_vm s"
  by (simp_all add: wf_vm_def wf_stacks_def wf_mem_def wf_dict_def)

lemma keeps_cells [keeps_intros]:
  "i < RS_SIZE \<Longrightarrow> keeps wf_vm U (get_cell i)"
  "i < RS_SIZE \<Longrightarrow> keeps wf_vm U (set_cell i v)"
  by (auto simp: keeps_def get_cell_def set_cell_def wf_vm_def wf_stacks_def wf_mem_def wf_dict_def
      split: if_splits)

lemma keeps_local_cell: "keeps wf_vm U (local_cell E idx)"
  unfolding keeps_def local_cell_def
  by (auto split: option.splits if_splits simp: panic_def vm_panic_eq)

lemma keeps_local:
  assumes "\<And>i. i < RS_SIZE \<Longrightarrow> keeps wf_vm U (f i)"
  shows "keeps wf_vm U (bnd (local_cell E idx) f)"
proof (rule keeps_bnd_post [where P = "\<lambda>i. i < RS_SIZE", OF keeps_local_cell _ assms])
  fix s :: "'a machine" and i s' assume "wf_vm s" and "local_cell E idx s = Ret i s'"
  then show "i < RS_SIZE"
    by (auto simp: local_cell_def wf_vm_def wf_stacks_def split: option.splits if_splits)
qed

lemma keeps_locals [keeps_intros]:
  "keeps wf_vm U (local_get E idx)"
  "keeps wf_vm U (local_set E idx)"
  "keeps wf_vm U (local_tee E idx)"
  "SignedOverflow \<in> U \<Longrightarrow> keeps wf_vm U (local_inc E idx)"
  "SignedOverflow \<in> U \<Longrightarrow> keeps wf_vm U (local_dec E idx)"
  unfolding local_get_def local_set_def local_tee_def local_inc_def local_dec_def
  by (intro keeps_local keeps_intros; assumption)+

lemma keeps_with_index [keeps_intros]:
  "len \<le> int (length bc) \<Longrightarrow> (\<And>i. keeps wf_vm U (m i)) \<Longrightarrow> keeps wf_vm U (with_index E m bc len ip)"
  unfolding with_index_def by (intro keeps_intros) auto

lemma keeps_jump_to [keeps_intros]: "keeps wf_vm U (jump_to E len ip off)"
  unfolding jump_to_def Let_def by (intro keeps_intros)

lemma keeps_push_received [keeps_intros]: "Indeterminate \<in> U \<Longrightarrow> keeps wf_vm U (push_received E r)"
  unfolding push_received_def by (intro keeps_intros)

lemmas exec_simple_defs = exec_DUP_def exec_DROP_def exec_SWAP_def exec_OVER_def exec_literal_def
  exec_binary_def exec_INC_def exec_DEC_def exec_AND_def exec_OR_def exec_XOR_def exec_INVERT_def
  exec_SHL_def exec_SHR_def exec_SAR_def exec_SELECT_def exec_LOAD_def exec_STORE_def exec_LOAD8U_def
  exec_LOAD16U_def exec_STORE8_def exec_STORE16_def exec_LOAD8S_def exec_LOAD16S_def exec_TOR_def
  exec_FROMR_def exec_RFETCH_def

lemmas exec_imm_defs = exec_LIT_def exec_LIT_U8_def exec_LIT_I8_def exec_LIT_I16_def exec_JMP_def
  exec_JZ_def exec_JNZ_def exec_LGET_def exec_LSET_def exec_LTEE_def exec_LINC_def exec_LDEC_def

lemmas exec_task_defs = exec_TASK_SPAWN_def exec_TASK_EXIT_def exec_TASK_SLEEP_def exec_TASK_YIELD_def
  exec_CRITICAL_ENTER_def exec_CRITICAL_EXIT_def exec_TASK_SEND_def exec_TASK_RECEIVE_def
  exec_TASK_RECEIVE_BLOCKING_def

lemma keeps_exec_simple:
  "keeps wf_vm U (exec_DUP E)" "keeps wf_vm U (exec_DROP E)" "keeps wf_vm U (exec_SWAP E)"
  "keeps wf_vm U (exec_OVER E)" "keeps wf_vm U (exec_literal E k)"
  "SignedOverflow \<in> U \<Longrightarrow> keeps wf_vm U (exec_binary E op)"
  "SignedOverflow \<in> U \<Longrightarrow> keeps wf_vm U (exec_INC E)" "SignedOverflow \<in> U \<Longrightarrow> keeps wf_vm U (exec_DEC E)"
  "keeps wf_vm U (exec_AND E)" "keeps wf_vm U (exec_OR E)" "keeps wf_vm U (exec_XOR E)"
  "keeps wf_vm U (exec_INVERT E)" "ShiftUndefined \<in> U \<Longrightarrow> keeps wf_vm U (exec_SHL E)"
  "keeps wf_vm U (exec_SHR E)" "keeps wf_vm U (exec_SAR E)" "keeps wf_vm U (exec_SELECT E)"
  "keeps wf_vm U (exec_LOAD E)" "keeps wf_vm U (exec_STORE E)" "keeps wf_vm U (exec_LOAD8U E)"
  "keeps wf_vm U (exec_LOAD16U E)" "keeps wf_vm U (exec_STORE8 E)" "keeps wf_vm U (exec_STORE16 E)"
  "keeps wf_vm U (exec_LOAD8S E)" "keeps wf_vm U (exec_LOAD16S E)" "keeps wf_vm U (exec_TOR E)"
  "keeps wf_vm U (exec_FROMR E)" "keeps wf_vm U (exec_RFETCH E)"
  unfolding exec_simple_defs by (intro keeps_intros; assumption)+

lemma keeps_exec_imm:
  assumes "len \<le> int (length bc)"
  shows "keeps wf_vm U (exec_LIT E bc len ip)" "keeps wf_vm U (exec_LIT_U8 E bc len ip)"
  "keeps wf_vm U (exec_LIT_I8 E bc len ip)" "keeps wf_vm U (exec_LIT_I16 E bc len ip)"
  "keeps wf_vm U (exec_JMP E bc len ip)" "keeps wf_vm U (exec_JZ E bc len ip)"
  "keeps wf_vm U (exec_JNZ E bc len ip)" "keeps wf_vm U (exec_LGET E bc len ip)"
  "keeps wf_vm U (exec_LSET E bc len ip)" "keeps wf_vm U (exec_LTEE E bc len ip)"
  "SignedOverflow \<in> U \<Longrightarrow> keeps wf_vm U (exec_LINC E bc len ip)"
  "SignedOverflow \<in> U \<Longrightarrow> keeps wf_vm U (exec_LDEC E bc len ip)"
  unfolding exec_imm_defs using assms by (auto intro!: keeps_intros)

lemma keeps_exec_tasks:
  assumes "OutOfBounds \<in> U" and "Indeterminate \<in> U"
  shows "keeps wf_vm U (exec_TASK_SPAWN E)" "keeps wf_vm U (exec_TASK_EXIT E)"
  "keeps wf_vm U (exec_TASK_SLEEP E)" "keeps wf_vm U (exec_TASK_YIELD E)"
  "keeps wf_vm U (exec_CRITICAL_ENTER E)" "keeps wf_vm U (exec_CRITICAL_EXIT E)"
  "keeps wf_vm U (exec_TASK_SEND E)" "keeps wf_vm U (exec_TASK_RECEIVE E)"
  "keeps wf_vm U (exec_TASK_RECEIVE_BLOCKING E fuel)"
  unfolding exec_task_defs using assms by (auto intro!: keeps_intros)

lemma keeps_state_dependent:
  assumes "\<And>v. keeps I U (m v)" shows "keeps I U (\<lambda>s. m (g s) s)"
  using assms unfolding keeps_def by blast

lemma keeps_exec_self: "keeps wf_vm U (exec_TASK_SELF E)" "keeps wf_vm U (exec_TASK_COUNT E)"
  unfolding exec_TASK_SELF_def exec_TASK_COUNT_def
  by (rule keeps_state_dependent [where m = "ds_push E"], rule keeps_ds_push)+

text \<open>A system-call handler that keeps the machine well-formed.\<close>

definition sys_safe :: "'d env \<Rightarrow> bool" where
  "sys_safe E \<longleftrightarrow> (\<forall>h. g_sys_handler E = Some h \<longrightarrow> (\<forall>s i a b c. wf_vm s \<longrightarrow> wf_vm (snd (h s i a b c))))"

lemma keeps_invoke_sys [keeps_intros]: "sys_safe E \<Longrightarrow> keeps wf_vm U (v4_invoke_sys_handler E i a b c)"
  by (auto simp: keeps_def v4_invoke_sys_handler_def sys_safe_def split: option.splits prod.splits) (metis snd_conv)

lemma keeps_exec_SYS: "sys_safe E \<Longrightarrow> keeps wf_vm U (exec_SYS E)"
  unfolding exec_SYS_def by (intro keeps_intros)

lemma call_word_wf:
  assumes "wf_vm s" and "\<not> w \<ge> (word_of_int (word_count s) :: u16)"
  shows "unat w < nat (word_count s)" and "wf_word (words s ! unat w)"
proof -
  have wc: "0 \<le> word_count s" "word_count s \<le> 256" "length (words s) = 256"
      and all: "list_all wf_word (take (nat (word_count s)) (words s))"
    using assms(1) by (simp_all add: wf_vm_def wf_dict_def V4_MAX_WORDS_def)
  have "uint (word_of_int (word_count s) :: u16) = word_count s"
    using wc by (simp add: uint_word_of_int)
  then have "uint w < word_count s"
    using assms(2) by (simp add: not_le word_less_def)
  then have "int (unat w) < word_count s" by (simp only: uint_nat)
  then show lt: "unat w < nat (word_count s)" by linarith
  then show "wf_word (words s ! unat w)" using all wc by (simp add: list_all_length)
qed

definition res_ok :: "('s \<Rightarrow> bool) \<Rightarrow> ub set \<Rightarrow> ('s, 'a) res \<Rightarrow> bool" where
  "res_ok I U r \<longleftrightarrow> (case r of Ret a s \<Rightarrow> I s | Fail e s \<Rightarrow> I s | Undef u \<Rightarrow> u \<in> U | Timeout \<Rightarrow> True)"

lemma keeps_res_ok:
  fixes m :: "('s, 'a) act"
  shows "keeps I U m \<longleftrightarrow> (\<forall>s. I s \<longrightarrow> res_ok I U (m s))"
proof -
  have "((\<forall>a s'. r = Ret a s' \<longrightarrow> I s') \<and> (\<forall>e s'. r = Fail e s' \<longrightarrow> I s') \<and> (\<forall>u. r = Undef u \<longrightarrow> u \<in> U)) \<longleftrightarrow>
      res_ok I U r" for r :: "('s, 'a) res"
    by (cases r) (simp_all add: res_ok_def)
  then show ?thesis by (simp only: keeps_def)
qed

lemma keeps_D: "keeps I U m \<Longrightarrow> I s \<Longrightarrow> res_ok I U (m s)"
  by (simp add: keeps_res_ok)

text \<open>A call keeps what the called code keeps, when the frame pointer is no part of it.\<close>

lemma keeps_CALL:
  assumes read: "int ip + 2 \<le> len \<Longrightarrow> keeps I U (read_i16_le bc ip)"
    and pan: "\<And>x. keeps I U (panic E x :: ('d machine, flow) act)"
    and fp: "\<And>s f. I (s\<lparr>fp := f\<rparr>) = I s"
    and run: "\<And>s w c. I s \<Longrightarrow> \<not> w \<ge> (word_of_int (word_count s) :: u16) \<Longrightarrow> w_code (words s ! unat w) = Some c \<Longrightarrow>
      0 < w_code_len (words s ! unat w) \<Longrightarrow> keeps I U (run c (w_code_len (words s ! unat w)))"
  shows "keeps I U (exec_CALL E run bc len ip)"
proof -
  let ?leave = "\<lambda>f (e :: v4_err) s1. let s2 = s1\<lparr>fp := f\<rparr>
     in if e \<noteq> 0 then Fail e s2 else Ret (Continue (ip + 2)) s2"
  let ?rest = "\<lambda>w s. if w \<ge> word_of_int (word_count s) then panic E InvalidWordIdx s
       else (let word = words s ! unat (w :: u16) in
         case w_code word of
           None \<Rightarrow> panic E InvalidArg s
         | Some code \<Rightarrow>
             if w_code_len word \<le> 0 then panic E InvalidArg s
             else (let old_fp = fp s in
               bnd (run code (w_code_len word)) (?leave old_fp) (s\<lparr>fp := Some (rp s)\<rparr>)))"
  have leave: "keeps I U (?leave f e)" for f e
    by (auto simp: keeps_def Let_def fp split: if_splits)
  have rest: "keeps I U (?rest w)" for w
    unfolding keeps_res_ok
  proof (intro allI impI)
    fix s :: "'d machine" assume s: "I s"
    have p: "res_ok I U (panic E x s :: ('d machine, flow) res)" for x by (rule keeps_D [OF pan s])
    have r: "res_ok I U (bnd (run c (w_code_len (words s ! unat w))) (?leave (fp s)) (s\<lparr>fp := Some (rp s)\<rparr>))"
      if "\<not> w \<ge> word_of_int (word_count s)" "w_code (words s ! unat w) = Some c" "0 < w_code_len (words s ! unat w)" for c
      by (rule keeps_D [OF keeps_bnd [OF run [OF s that] leave]]) (simp add: fp s)
    show "res_ok I U (?rest w s)"
      using p r by (simp add: Let_def split: option.split)
  qed
  show ?thesis
    unfolding exec_CALL_def by (intro keeps_if pan keeps_bnd read rest) auto
qed

lemma keeps_exec_CALL:
  assumes len: "len \<le> int (length bc)"
    and run: "\<And>c l. 0 < l \<Longrightarrow> l \<le> int (length c) \<Longrightarrow> keeps wf_vm U (run c l)"
  shows "keeps wf_vm U (exec_CALL E run bc len ip)"
proof (rule keeps_CALL)
  fix s :: "'a machine" and w :: u16 and c
  assume "wf_vm s" "\<not> w \<ge> word_of_int (word_count s)" and c: "w_code (words s ! unat w) = Some c"
  then have "wf_word (words s ! unat w)" by (intro call_word_wf)
  with c show "keeps wf_vm U (run c (w_code_len (words s ! unat w)))" by (intro run) (simp_all add: wf_word_def)
qed (use len in \<open>auto intro!: keeps_read_i16 keeps_panic_wf\<close>)

end
