(* ===== verification/V4_Interp.thy ===== *)
theory V4_Interp
  imports V4_Instr
begin

text \<open>
  \<open>vm_exec_raw\<close> and \<open>vm_exec\<close> of \<^verbatim>\<open>src/core.cpp\<close>: the dispatch of an opcode byte, the loop, and the recursion
  through \<open>CALL\<close>. The loop has fuel, one unit for each instruction on the deepest path; \<open>Timeout\<close> says
  that it ran out. The loop keeps the machine well-formed and shows only the undefined behaviour the
  instructions can show.
\<close>

section \<open>The dispatch\<close>

text \<open>In a build without tasks the task opcodes fall into the default case.\<close>

definition with_tasks :: "'d env \<Rightarrow> ('d machine, flow) act \<Rightarrow> ('d machine, flow) act" where
  "with_tasks E m = (if enable_tasks E then m else panic E UnknownOp)"

primrec exec_op ::
    "Op \<Rightarrow> 'd env \<Rightarrow> nat \<Rightarrow> (u8 list \<Rightarrow> int \<Rightarrow> ('d machine, v4_err) act) \<Rightarrow> u8 list \<Rightarrow> int \<Rightarrow> nat \<Rightarrow>
      ('d machine, flow) act" where
  "exec_op Op_LIT E fuel run bc len ip = exec_LIT E bc len ip"
| "exec_op Op_DUP E fuel run bc len ip = continue_at ip (exec_DUP E)"
| "exec_op Op_DROP E fuel run bc len ip = continue_at ip (exec_DROP E)"
| "exec_op Op_SWAP E fuel run bc len ip = continue_at ip (exec_SWAP E)"
| "exec_op Op_OVER E fuel run bc len ip = continue_at ip (exec_OVER E)"
| "exec_op Op_ADD E fuel run bc len ip = continue_at ip (exec_binary E Op_ADD)"
| "exec_op Op_SUB E fuel run bc len ip = continue_at ip (exec_binary E Op_SUB)"
| "exec_op Op_MUL E fuel run bc len ip = continue_at ip (exec_binary E Op_MUL)"
| "exec_op Op_DIV E fuel run bc len ip = continue_at ip (exec_binary E Op_DIV)"
| "exec_op Op_MOD E fuel run bc len ip = continue_at ip (exec_binary E Op_MOD)"
| "exec_op Op_DIVU E fuel run bc len ip = continue_at ip (exec_binary E Op_DIVU)"
| "exec_op Op_MODU E fuel run bc len ip = continue_at ip (exec_binary E Op_MODU)"
| "exec_op Op_INC E fuel run bc len ip = continue_at ip (exec_INC E)"
| "exec_op Op_DEC E fuel run bc len ip = continue_at ip (exec_DEC E)"
| "exec_op Op_EQ E fuel run bc len ip = continue_at ip (exec_binary E Op_EQ)"
| "exec_op Op_NE E fuel run bc len ip = continue_at ip (exec_binary E Op_NE)"
| "exec_op Op_LT E fuel run bc len ip = continue_at ip (exec_binary E Op_LT)"
| "exec_op Op_LE E fuel run bc len ip = continue_at ip (exec_binary E Op_LE)"
| "exec_op Op_GT E fuel run bc len ip = continue_at ip (exec_binary E Op_GT)"
| "exec_op Op_GE E fuel run bc len ip = continue_at ip (exec_binary E Op_GE)"
| "exec_op Op_LTU E fuel run bc len ip = continue_at ip (exec_binary E Op_LTU)"
| "exec_op Op_LEU E fuel run bc len ip = continue_at ip (exec_binary E Op_LEU)"
| "exec_op Op_AND E fuel run bc len ip = continue_at ip (exec_AND E)"
| "exec_op Op_OR E fuel run bc len ip = continue_at ip (exec_OR E)"
| "exec_op Op_XOR E fuel run bc len ip = continue_at ip (exec_XOR E)"
| "exec_op Op_INVERT E fuel run bc len ip = continue_at ip (exec_INVERT E)"
| "exec_op Op_SHL E fuel run bc len ip = continue_at ip (exec_SHL E)"
| "exec_op Op_SHR E fuel run bc len ip = continue_at ip (exec_SHR E)"
| "exec_op Op_SAR E fuel run bc len ip = continue_at ip (exec_SAR E)"
| "exec_op Op_LOAD E fuel run bc len ip = continue_at ip (exec_LOAD E)"
| "exec_op Op_STORE E fuel run bc len ip = continue_at ip (exec_STORE E)"
| "exec_op Op_LOAD8U E fuel run bc len ip = continue_at ip (exec_LOAD8U E)"
| "exec_op Op_LOAD16U E fuel run bc len ip = continue_at ip (exec_LOAD16U E)"
| "exec_op Op_STORE8 E fuel run bc len ip = continue_at ip (exec_STORE8 E)"
| "exec_op Op_STORE16 E fuel run bc len ip = continue_at ip (exec_STORE16 E)"
| "exec_op Op_LOAD8S E fuel run bc len ip = continue_at ip (exec_LOAD8S E)"
| "exec_op Op_LOAD16S E fuel run bc len ip = continue_at ip (exec_LOAD16S E)"
| "exec_op Op_JMP E fuel run bc len ip = exec_JMP E bc len ip"
| "exec_op Op_JZ E fuel run bc len ip = exec_JZ E bc len ip"
| "exec_op Op_JNZ E fuel run bc len ip = exec_JNZ E bc len ip"
| "exec_op Op_SELECT E fuel run bc len ip = continue_at ip (exec_SELECT E)"
| "exec_op Op_CALL E fuel run bc len ip = exec_CALL E run bc len ip"
| "exec_op Op_RET E fuel run bc len ip = Ret Return"
| "exec_op Op_SYS E fuel run bc len ip = continue_at ip (exec_SYS E)"
| "exec_op Op_TOR E fuel run bc len ip = continue_at ip (exec_TOR E)"
| "exec_op Op_FROMR E fuel run bc len ip = continue_at ip (exec_FROMR E)"
| "exec_op Op_RFETCH E fuel run bc len ip = continue_at ip (exec_RFETCH E)"
| "exec_op Op_LIT0 E fuel run bc len ip = continue_at ip (exec_literal E 0)"
| "exec_op Op_LIT1 E fuel run bc len ip = continue_at ip (exec_literal E 1)"
| "exec_op Op_LITN1 E fuel run bc len ip = continue_at ip (exec_literal E (-1))"
| "exec_op Op_LIT_U8 E fuel run bc len ip = exec_LIT_U8 E bc len ip"
| "exec_op Op_LIT_I8 E fuel run bc len ip = exec_LIT_I8 E bc len ip"
| "exec_op Op_LIT_I16 E fuel run bc len ip = exec_LIT_I16 E bc len ip"
| "exec_op Op_LGET E fuel run bc len ip = exec_LGET E bc len ip"
| "exec_op Op_LSET E fuel run bc len ip = exec_LSET E bc len ip"
| "exec_op Op_LTEE E fuel run bc len ip = exec_LTEE E bc len ip"
| "exec_op Op_LGET0 E fuel run bc len ip = continue_at ip (local_get E 0)"
| "exec_op Op_LGET1 E fuel run bc len ip = continue_at ip (local_get E 1)"
| "exec_op Op_LSET0 E fuel run bc len ip = continue_at ip (local_set E 0)"
| "exec_op Op_LSET1 E fuel run bc len ip = continue_at ip (local_set E 1)"
| "exec_op Op_LINC E fuel run bc len ip = exec_LINC E bc len ip"
| "exec_op Op_LDEC E fuel run bc len ip = exec_LDEC E bc len ip"
| "exec_op Op_TASK_SPAWN E fuel run bc len ip = with_tasks E (continue_at ip (exec_TASK_SPAWN E))"
| "exec_op Op_TASK_EXIT E fuel run bc len ip = with_tasks E (exec_TASK_EXIT E)"
| "exec_op Op_TASK_SLEEP E fuel run bc len ip = with_tasks E (continue_at ip (exec_TASK_SLEEP E))"
| "exec_op Op_TASK_YIELD E fuel run bc len ip = with_tasks E (continue_at ip (exec_TASK_YIELD E))"
| "exec_op Op_CRITICAL_ENTER E fuel run bc len ip = with_tasks E (continue_at ip (exec_CRITICAL_ENTER E))"
| "exec_op Op_CRITICAL_EXIT E fuel run bc len ip = with_tasks E (continue_at ip (exec_CRITICAL_EXIT E))"
| "exec_op Op_TASK_SEND E fuel run bc len ip = with_tasks E (continue_at ip (exec_TASK_SEND E))"
| "exec_op Op_TASK_RECEIVE E fuel run bc len ip = with_tasks E (continue_at ip (exec_TASK_RECEIVE E))"
| "exec_op Op_TASK_RECEIVE_BLOCKING E fuel run bc len ip = with_tasks E (continue_at ip (exec_TASK_RECEIVE_BLOCKING E fuel))"
| "exec_op Op_TASK_SELF E fuel run bc len ip = with_tasks E (continue_at ip (exec_TASK_SELF E))"
| "exec_op Op_TASK_COUNT E fuel run bc len ip = with_tasks E (continue_at ip (exec_TASK_COUNT E))"

section \<open>The loop\<close>

text \<open>One round: fetch, decode, execute.\<close>

definition exec_step ::
    "'d env \<Rightarrow> nat \<Rightarrow> (u8 list \<Rightarrow> int \<Rightarrow> ('d machine, v4_err) act) \<Rightarrow> u8 list \<Rightarrow> int \<Rightarrow> nat \<Rightarrow>
      ('d machine, flow) act" where
  "exec_step E fuel run bc len ip = bnd (byte_at bc ip) (\<lambda>b. (case decode b of
      None \<Rightarrow> panic E UnknownOp
    | Some op \<Rightarrow> exec_op op E fuel run bc len (ip + 1)))"

definition entry_assert :: "'d env \<Rightarrow> int \<Rightarrow> ('d machine, unit) act" where
  "entry_assert E len s = (if \<not> ndebug E \<and> len \<le> 0 then Undef AssertFailed else Ret () s)"

primrec exec_loop :: "nat \<Rightarrow> 'd env \<Rightarrow> u8 list \<Rightarrow> int \<Rightarrow> nat \<Rightarrow> ('d machine, unit) act" where
  "exec_loop 0 E bc len ip = (\<lambda>s. Timeout)"
| "exec_loop (Suc fuel) E bc len ip =
    (if int ip < len then
       bnd (exec_step E fuel (\<lambda>c l. bnd (entry_assert E l) (\<lambda>_. code_of (exec_loop fuel E c l 0))) bc len ip)
         (\<lambda>fl. case fl of Return \<Rightarrow> Ret () | Continue ip' \<Rightarrow> exec_loop fuel E bc len ip')
     else panic E FellOffEnd)"

definition vm_exec_raw :: "'d env \<Rightarrow> nat \<Rightarrow> u8 list \<Rightarrow> int \<Rightarrow> ('d machine, v4_err) act" where
  "vm_exec_raw E fuel bc len = bnd (entry_assert E len) (\<lambda>_. code_of (exec_loop fuel E bc len 0))"

definition vm_exec :: "'d env \<Rightarrow> nat \<Rightarrow> Word option \<Rightarrow> ('d machine option, v4_err) act" where
  "vm_exec E fuel entry = (case entry of
      None \<Rightarrow> Ret (V4_ERR InvalidArg)
    | Some w \<Rightarrow> (case w_code w of
        None \<Rightarrow> Ret (V4_ERR InvalidArg)
      | Some c \<Rightarrow> null_checked (V4_ERR InvalidArg) (vm_exec_raw E fuel c (w_code_len w))))"

lemma exec_loop_Suc:
  "exec_loop (Suc fuel) E bc len ip =
    (if int ip < len then
       bnd (exec_step E fuel (vm_exec_raw E fuel) bc len ip)
         (\<lambda>fl. case fl of Return \<Rightarrow> Ret () | Continue ip' \<Rightarrow> exec_loop fuel E bc len ip')
     else panic E FellOffEnd)"
proof -
  have "(\<lambda>c l. bnd (entry_assert E l) (\<lambda>_. code_of (exec_loop fuel E c l 0))) = vm_exec_raw E fuel"
    by (simp add: fun_eq_iff vm_exec_raw_def)
  then show ?thesis by (simp only: exec_loop.simps)
qed

lemmas exec_loop_0 = exec_loop.simps(1)

declare exec_loop.simps(2) [simp del]

section \<open>Well-formedness and undefined behaviour\<close>

text \<open>
  What a run from a well-formed machine can do that C++ leaves undefined: signed overflow and shifts of
  negative values; and with tasks, saving a stack into a task's smaller block, and pushing the unset
  result of a receive.
\<close>

definition possible_ub :: "'d env \<Rightarrow> ub set" where
  "possible_ub E = {SignedOverflow, ShiftUndefined} \<union> (if enable_tasks E then {OutOfBounds, Indeterminate} else {})"

lemma possible_ub_simps [simp]:
  "SignedOverflow \<in> possible_ub E" "ShiftUndefined \<in> possible_ub E" "AssertFailed \<notin> possible_ub E"
  "OutOfBounds \<in> possible_ub E \<longleftrightarrow> enable_tasks E" "Indeterminate \<in> possible_ub E \<longleftrightarrow> enable_tasks E"
  by (simp_all add: possible_ub_def)

lemma keeps_with_tasks:
  "(enable_tasks E \<Longrightarrow> keeps wf_vm U m) \<Longrightarrow> keeps wf_vm U (with_tasks E m)"
  unfolding with_tasks_def by (intro keeps_intros)

lemma keeps_exec_op:
  assumes len: "len \<le> int (length bc)" and sys: "sys_safe E"
    and run: "\<And>c l. 0 < l \<Longrightarrow> l \<le> int (length c) \<Longrightarrow> keeps wf_vm (possible_ub E) (run c l)"
  shows "keeps wf_vm (possible_ub E) (exec_op op E fuel run bc len ip)"
  by (cases op)
    (simp_all only: exec_op.simps,
      (intro keeps_with_tasks keeps_continue_at keeps_exec_simple keeps_exec_imm keeps_exec_tasks
         keeps_exec_self keeps_exec_SYS keeps_exec_CALL keeps_locals keeps_Ret_act run len sys
         possible_ub_simps; simp)+)

lemma keeps_entry_assert:
  "0 < len \<Longrightarrow> keeps wf_vm U (entry_assert E len)"
  by (simp add: keeps_def entry_assert_def)

lemma keeps_exec_loop:
  assumes sys: "sys_safe E"
  shows "len \<le> int (length bc) \<Longrightarrow> keeps wf_vm (possible_ub E) (exec_loop fuel E bc len ip)"
proof (induction fuel arbitrary: bc len ip)
  case 0
  then show ?case by (simp add: keeps_def)
next
  case (Suc fuel)
  have run: "keeps wf_vm (possible_ub E) (vm_exec_raw E fuel c l)" if "0 < l" "l \<le> int (length c)" for c l
    unfolding vm_exec_raw_def using that by (intro keeps_bnd keeps_entry_assert keeps_code_of Suc.IH)
  have "keeps wf_vm (possible_ub E) (exec_step E fuel (vm_exec_raw E fuel) bc len ip)" if "int ip < len"
    unfolding exec_step_def
    using that Suc.prems
    by (intro keeps_bnd keeps_byte_at keeps_case_option keeps_panic_wf keeps_exec_op sys run) auto
  moreover have "keeps wf_vm (possible_ub E)
      (case fl of Return \<Rightarrow> Ret () | Continue ip' \<Rightarrow> exec_loop fuel E bc len ip')" for fl
    using Suc.IH [OF Suc.prems] by (cases fl) (auto intro: keeps_Ret_act)
  ultimately show ?case
    unfolding exec_loop_Suc by (intro keeps_if keeps_bnd keeps_panic_wf) auto
qed

lemma keeps_vm_exec_raw:
  "sys_safe E \<Longrightarrow> 0 < len \<Longrightarrow> len \<le> int (length bc) \<Longrightarrow> keeps wf_vm (possible_ub E) (vm_exec_raw E fuel bc len)"
  unfolding vm_exec_raw_def by (intro keeps_bnd keeps_entry_assert keeps_code_of keeps_exec_loop)

end
