(* ===== verification/V4_Runs.thy ===== *)
theory V4_Runs
  imports V4_Interp
begin

text \<open>
  Runs of the loop of \<open>V4_Interp\<close>: where each instruction goes on, that more fuel never changes a result,
  and which code ends. Code is layered when its jumps go forward and its calls go to words registered
  before it, as Forth code without loops and recursion is; a run of such code ends within a bound, and
  a word that calls itself never does.
\<close>

section \<open>Where an instruction goes on\<close>

text \<open>\<open>yields P m\<close>: when \<open>m\<close> returns a value, \<open>P\<close> holds of it.\<close>

definition yields :: "('a \<Rightarrow> bool) \<Rightarrow> ('s, 'a) act \<Rightarrow> bool" where
  "yields P m \<longleftrightarrow> (\<forall>s a t. m s = Ret a t \<longrightarrow> P a)"

lemma yields_bnd: "(\<And>a. yields P (f a)) \<Longrightarrow> yields P (bnd m f)"
  unfolding yields_def bnd_eq_Ret_iff by blast

lemma yields_if: "(b \<Longrightarrow> yields P m) \<Longrightarrow> (\<not> b \<Longrightarrow> yields P n) \<Longrightarrow> yields P (if b then m else n)"
  by simp

lemma yields_panic: "yields P (panic E x)"
  by (simp add: yields_def)

lemma yields_Ret: "P a \<Longrightarrow> yields P (Ret a)"
  by (simp add: yields_def)

lemma yields_continue_at: "P (Continue ip) \<Longrightarrow> yields P (continue_at ip m)"
  unfolding continue_at_def by (intro yields_bnd yields_Ret)

lemma yields_jump_to:
  "(\<And>tgt. 0 \<le> int ip + sint off \<Longrightarrow> int ip + sint off \<le> len \<Longrightarrow> tgt = nat (int ip + sint off) \<Longrightarrow> P (Continue tgt)) \<Longrightarrow>
    yields P (jump_to E len ip off)"
  unfolding jump_to_def Let_def by (intro yields_if yields_panic yields_Ret) auto

lemma yields_CALL: "P (Continue (ip + 2)) \<Longrightarrow> yields P (exec_CALL E run bc len ip)"
  unfolding exec_CALL_def
  by (intro yields_if yields_panic yields_bnd)
    (auto simp: yields_def bnd_eq_Ret_iff Let_def split: option.splits if_splits)

lemma yields_with_tasks: "yields P m \<Longrightarrow> yields P (with_tasks E m)"
  unfolding with_tasks_def by (intro yields_if yields_panic)

lemmas yields_intros = yields_if yields_panic yields_Ret yields_continue_at yields_CALL yields_with_tasks yields_bnd

fun is_jump :: "Op \<Rightarrow> bool" where
  "is_jump Op_JMP = True"
| "is_jump Op_JZ = True"
| "is_jump Op_JNZ = True"
| "is_jump _ = False"

text \<open>Behind its operand bytes, as the table of operand kinds says; or, a jump, within the word.\<close>

lemma exec_op_next:
  assumes "\<not> is_jump op"
  shows "yields (\<lambda>fl. fl = Return \<or> fl = Continue (ip + imm_size (prim_kind op))) (exec_op op E fuel run bc len ip)"
  using assms
  by (cases op)
    (simp_all only: exec_op.simps exec_imm_defs exec_TASK_EXIT_def with_index_def is_jump.simps not_True_eq_False,
      (intro yields_intros; simp)+)

lemma exec_jump_next:
  assumes "is_jump op" and "int ip \<le> len"
  shows "yields (\<lambda>fl. \<exists>ip'. fl = Continue ip' \<and> int ip' \<le> len) (exec_op op E fuel run bc len ip)"
  using assms
  by (cases op)
    (simp_all only: exec_op.simps exec_JMP_def exec_JZ_def exec_JNZ_def is_jump.simps,
      (intro yields_if yields_panic yields_bnd yields_jump_to yields_Ret; auto)+)

section \<open>More fuel, same result\<close>

definition res_le :: "('s, 'a) res \<Rightarrow> ('s, 'a) res \<Rightarrow> bool" where
  "res_le r r' \<longleftrightarrow> r = Timeout \<or> r' = r"

definition act_le :: "('s, 'a) act \<Rightarrow> ('s, 'a) act \<Rightarrow> bool" where
  "act_le m m' \<longleftrightarrow> (\<forall>s. res_le (m s) (m' s))"

lemma res_le_refl [simp]: "res_le r r"
  by (simp add: res_le_def)

lemma act_le_refl [simp]: "act_le m m"
  and act_le_Timeout [simp]: "act_le (\<lambda>s. Timeout) m"
  by (simp_all add: act_le_def res_le_def)

lemma act_le_bnd:
  assumes "act_le m m'" and "\<And>a. act_le (f a) (f' a)"
  shows "act_le (bnd m f) (bnd m' f')"
  unfolding act_le_def
proof
  fix s
  consider "m s = Timeout" | "m' s = m s" using assms(1) by (auto simp: act_le_def res_le_def)
  then show "res_le (bnd m f s) (bnd m' f' s)"
    using assms(2) by cases (auto simp: bnd_def act_le_def res_le_def split: res.split)
qed

lemma act_le_cases:
  assumes "act_le m m'" obtains "m s = Timeout" | "m' s = m s"
  using assms unfolding act_le_def res_le_def by blast

lemma act_le_trans: "act_le m n \<Longrightarrow> act_le n k \<Longrightarrow> act_le m k"
  unfolding act_le_def res_le_def by metis

lemma act_le_code_of:
  assumes "act_le m m'" shows "act_le (code_of m) (code_of m')"
  unfolding act_le_def
proof
  fix s
  show "res_le (code_of m s) (code_of m' s)"
    by (rule act_le_cases [OF assms, of s]) (simp_all add: code_of_def res_le_def)
qed

lemma act_le_if: "act_le m m' \<Longrightarrow> act_le n n' \<Longrightarrow> act_le (if b then m else n) (if b then m' else n')"
  by simp

lemma receive_loop_Suc: "act_le (receive_loop E mt ms start fuel) (receive_loop E mt ms start (Suc fuel))"
proof (induction fuel)
  case 0
  then show ?case by simp
next
  case (Suc fuel)
  have sleep: "act_le (bnd (task_sleep E 10) (\<lambda>_. receive_loop E mt ms start fuel))
      (bnd (task_sleep E 10) (\<lambda>_. receive_loop E mt ms start (Suc fuel)))"
    by (rule act_le_bnd [OF act_le_refl Suc.IH])
  show ?case
    unfolding receive_loop.simps(2) [of E mt ms start "Suc fuel"]
    by (subst receive_loop.simps(2)) (intro act_le_bnd act_le_if act_le_refl sleep)
qed

lemma act_le_CALL:
  assumes "\<And>c l. act_le (run c l) (run' c l)"
  shows "act_le (exec_CALL E run bc len ip) (exec_CALL E run' bc len ip)"
proof -
  have b: "res_le (bnd (run c l) f s) (bnd (run' c l) f s)" for c l f s
    by (rule act_le_bnd [OF assms act_le_refl, unfolded act_le_def, rule_format])
  show ?thesis
    unfolding exec_CALL_def
    by (intro act_le_if act_le_refl act_le_bnd) (auto simp: act_le_def Let_def b split: option.split)
qed

lemma act_le_exec_op:
  assumes "\<And>c l. act_le (run c l) (run' c l)"
  shows "act_le (exec_op op E fuel run bc len ip) (exec_op op E (Suc fuel) run' bc len ip)"
proof -
  have recv: "act_le (exec_TASK_RECEIVE_BLOCKING E fuel) (exec_TASK_RECEIVE_BLOCKING E (Suc fuel))"
    unfolding exec_TASK_RECEIVE_BLOCKING_def task_receive_blocking_def
    by (intro act_le_bnd act_le_refl receive_loop_Suc)
  show ?thesis
    by (cases op) (simp_all only: exec_op.simps act_le_refl with_tasks_def continue_at_def act_le_CALL assms,
        intro act_le_if act_le_refl act_le_bnd recv)
qed

lemma exec_loop_more: "act_le (exec_loop fuel E bc len ip) (exec_loop (Suc fuel) E bc len ip)"
proof (induction fuel arbitrary: bc len ip)
  case 0
  then show ?case by (simp add: exec_loop_0)
next
  case (Suc fuel)
  have run: "act_le (vm_exec_raw E fuel c l) (vm_exec_raw E (Suc fuel) c l)" for c l
    unfolding vm_exec_raw_def by (intro act_le_bnd act_le_refl act_le_code_of Suc.IH)
  have step: "act_le (exec_step E fuel (vm_exec_raw E fuel) bc len ip)
      (exec_step E (Suc fuel) (vm_exec_raw E (Suc fuel)) bc len ip)"
    unfolding exec_step_def
    by (intro act_le_bnd act_le_refl) (auto intro: act_le_exec_op run split: option.split)
  have go: "act_le (case fl of Return \<Rightarrow> Ret () | Continue ip' \<Rightarrow> exec_loop fuel E bc len ip')
      (case fl of Return \<Rightarrow> Ret () | Continue ip' \<Rightarrow> exec_loop (Suc fuel) E bc len ip')" for fl
    by (cases fl) (simp_all add: Suc.IH)
  have "act_le
      (if int ip < len then bnd (exec_step E fuel (vm_exec_raw E fuel) bc len ip)
         (\<lambda>fl. case fl of Return \<Rightarrow> Ret () | Continue ip' \<Rightarrow> exec_loop fuel E bc len ip')
       else panic E FellOffEnd)
      (if int ip < len then bnd (exec_step E (Suc fuel) (vm_exec_raw E (Suc fuel)) bc len ip)
         (\<lambda>fl. case fl of Return \<Rightarrow> Ret () | Continue ip' \<Rightarrow> exec_loop (Suc fuel) E bc len ip')
       else panic E FellOffEnd)"
    by (intro act_le_if act_le_refl act_le_bnd step go)
  then show ?case by (fold exec_loop_Suc)
qed

lemma exec_raw_more:
  assumes "n \<le> n'" shows "act_le (vm_exec_raw E n bc len) (vm_exec_raw E n' bc len)"
  using assms
proof (induction n' rule: dec_induct)
  case base
  then show ?case by simp
next
  case (step k)
  have "act_le (vm_exec_raw E k bc len) (vm_exec_raw E (Suc k) bc len)"
    unfolding vm_exec_raw_def by (intro act_le_bnd act_le_refl act_le_code_of exec_loop_more)
  with step.IH show ?case by (rule act_le_trans)
qed

section \<open>Termination of forward code\<close>

text \<open>An action that never runs out of fuel.\<close>

definition total :: "('s, 'a) act \<Rightarrow> bool" where
  "total m \<longleftrightarrow> (\<forall>s. m s \<noteq> Timeout)"

named_theorems total_intros \<open>actions that never run out of fuel\<close>

lemma total_bnd [total_intros]: "total m \<Longrightarrow> (\<And>a. total (f a)) \<Longrightarrow> total (bnd m f)"
  by (simp add: total_def bnd_def split: res.split)

lemma total_if [total_intros]: "(b \<Longrightarrow> total m) \<Longrightarrow> (\<not> b \<Longrightarrow> total n) \<Longrightarrow> total (if b then m else n)"
  by simp

lemma total_case_option [total_intros]:
  "total m \<Longrightarrow> (\<And>a. total (f a)) \<Longrightarrow> total (case x of None \<Rightarrow> m | Some a \<Rightarrow> f a)"
  by (cases x) simp_all

lemma total_case_prod [total_intros]: "(\<And>a b. total (f a b)) \<Longrightarrow> total (case p of (a, b) \<Rightarrow> f a b)"
  by (cases p) simp

lemma total_panic [total_intros]: "total (panic E x)"
  and total_Ret [total_intros]: "total (Ret a)"
  and total_Fail [total_intros]: "total (Fail e)"
  and total_Undef [total_intros]: "total (\<lambda>s. Undef u)"
  and total_on_world [total_intros]: "total (on_world f)"
  by (simp_all add: total_def on_world_def split: prod.split)

lemma total_stacks [total_intros]:
  "total (ds_push E v)" "total (ds_pop E)" "total (ds_peek E i)" "total (rs_push E v)" "total (rs_pop E)" "total (rs_peek E i)"
  by (simp_all add: total_def ds_push_def ds_pop_def ds_peek_def rs_push_def rs_pop_def rs_peek_def)

lemma total_memory [total_intros]:
  "total (v4_mem_read32_core a out)" "total (v4_mem_write32_core a v)" "total (v4_mem_read16_core a out)"
  "total (v4_mem_write16_core a v)" "total (v4_mem_read8_core a out)" "total (v4_mem_write8_core a v)"
  by (simp_all add: total_def v4_mem_read32_core_def v4_mem_write32_core_def v4_mem_read16_core_def
      v4_mem_write16_core_def v4_mem_read8_core_def v4_mem_write8_core_def Let_def split: option.split prod.split)

lemma total_check [total_intros]: "total m \<Longrightarrow> total (check m)"
  unfolding check_def by (rule total_bnd) (simp_all add: total_def)

lemma total_loaded [total_intros]: "total m \<Longrightarrow> total (loaded m)"
  unfolding loaded_def by (intro total_intros)

lemma total_small [total_intros]:
  "total (byte_at bc i)" "total (exactly x)" "total (shift_left v n)" "total (local_cell E idx)"
  "total (get_cell i)" "total (set_cell i v)" "total (v4_invoke_sys_handler E sid a b c)"
  "total save_current" "total (v4_task_restore_context tk)"
  by (simp_all add: total_def byte_at_def exactly_def shift_left_def local_cell_def get_cell_def set_cell_def
      v4_invoke_sys_handler_def save_current_def v4_task_restore_context_def Let_def
      split: option.split prod.split sum.split)

lemma total_binary_result [total_intros]: "total (binary_result E op a b)"
  by (cases op) (simp_all only: binary_result.simps, (intro total_intros)+)

lemma total_pre: "total m \<Longrightarrow> total (\<lambda>s. m (g s))"
  by (simp add: total_def)

lemma total_reads [total_intros]:
  "total (read_i32_le p i)" "total (read_i16_le p i)" "total m \<Longrightarrow> total (continue_at ip m)"
  "total (jump_to E len ip off)"
  unfolding read_i32_le_def read_i16_le_def continue_at_def jump_to_def Let_def by (intro total_intros; assumption)+

lemma total_switch [total_intros]: "total (switch_to n)"
  unfolding total_def switch_to_def Let_def
  using total_small(9) by (auto simp: bnd_def total_def split: res.split)

lemma total_select [total_intros]: "total (v4_task_select_next E)"
  unfolding v4_task_select_next_def
  by (intro total_bnd total_on_world) (simp add: total_def Let_def split: prod.split)

lemma total_schedule [total_intros]: "total (schedule E)"
  unfolding schedule_def by (intro total_intros)

lemma total_tasks [total_intros]:
  "total (task_exit E)" "total (task_sleep E ms)" "total (task_yield E)" "total (task_send d mt x)"
  "total (task_receive mt)" "total (task_critical_enter E)" "total (task_critical_exit E)"
proof -
  have sch: "total (bnd (schedule E) (\<lambda>_. Ret (V4_ERR OK)))" by (intro total_intros)
  show "total (task_exit E)" unfolding task_exit_def Let_def by (rule total_pre [OF sch])
  show "total (task_yield E)" unfolding task_yield_def by (rule sch)
  show "total (task_sleep E ms)"
    unfolding task_sleep_def Let_def by (intro total_bnd total_on_world total_pre [OF sch])
qed (simp_all add: total_def task_send_def task_receive_def task_critical_enter_def task_critical_exit_def Let_def
    split: prod.split option.split)

lemma total_spawn [total_intros]: "total (task_spawn E w p d r)"
proof -
  have "task_spawn E w p d r s \<noteq> Timeout" for s
    by (auto simp: task_spawn_def Let_def bnd_def on_world_def split: option.split prod.split if_splits)
  then show ?thesis by (simp add: total_def)
qed

text \<open>Every instruction of its own ends; \<open>CALL\<close> when the called code does.\<close>

lemma total_push_received [total_intros]: "total (push_received E r)"
  unfolding push_received_def by (intro total_intros)

lemma total_locals [total_intros]:
  "total (local_get E idx)" "total (local_set E idx)" "total (local_tee E idx)" "total (local_inc E idx)"
  "total (local_dec E idx)"
  unfolding local_get_def local_set_def local_tee_def local_inc_def local_dec_def by (intro total_intros)+

lemma total_with_index [total_intros]: "(\<And>i. total (m i)) \<Longrightarrow> total (with_index E m bc len ip)"
  unfolding with_index_def by (intro total_intros)

lemma total_self [total_intros]: "total (exec_TASK_SELF E)" "total (exec_TASK_COUNT E)"
  by (simp_all add: total_def exec_TASK_SELF_def exec_TASK_COUNT_def ds_push_def)

lemma total_simple [total_intros]:
  "total (exec_DUP E)" "total (exec_DROP E)" "total (exec_SWAP E)" "total (exec_OVER E)" "total (exec_literal E k)"
  "total (exec_binary E op)" "total (exec_INC E)" "total (exec_DEC E)" "total (exec_AND E)" "total (exec_OR E)"
  "total (exec_XOR E)" "total (exec_INVERT E)" "total (exec_SHL E)" "total (exec_SHR E)" "total (exec_SAR E)"
  "total (exec_SELECT E)" "total (exec_LOAD E)" "total (exec_STORE E)" "total (exec_LOAD8U E)"
  "total (exec_LOAD16U E)" "total (exec_STORE8 E)" "total (exec_STORE16 E)" "total (exec_LOAD8S E)"
  "total (exec_LOAD16S E)" "total (exec_TOR E)" "total (exec_FROMR E)" "total (exec_RFETCH E)" "total (exec_SYS E)"
  unfolding exec_simple_defs exec_SYS_def by (intro total_intros)+

lemma total_task_ops [total_intros]:
  "total (exec_TASK_SPAWN E)" "total (exec_TASK_EXIT E)" "total (exec_TASK_SLEEP E)" "total (exec_TASK_YIELD E)"
  "total (exec_CRITICAL_ENTER E)" "total (exec_CRITICAL_EXIT E)" "total (exec_TASK_SEND E)" "total (exec_TASK_RECEIVE E)"
  unfolding exec_task_defs by (intro total_intros)+

fun may_wait :: "Op \<Rightarrow> bool" where
  "may_wait Op_CALL = True"
| "may_wait Op_TASK_RECEIVE_BLOCKING = True"
| "may_wait _ = False"

lemma total_exec_op:
  assumes "\<not> may_wait op" shows "total (exec_op op E fuel run bc len ip)"
  using assms
  by (cases op)
    (simp_all only: exec_op.simps exec_imm_defs with_tasks_def may_wait.simps not_True_eq_False,
      (intro total_intros; simp)+)

section \<open>Instructions leave the dictionary alone\<close>

definition has_words :: "Word list \<Rightarrow> int \<Rightarrow> ('d, 'm) Vm_scheme \<Rightarrow> bool" where
  "has_words W n s \<longleftrightarrow> words s = W \<and> word_count s = n"

lemma has_words_outer [simp]:
  "has_words W n (s\<lparr>world := w\<rparr>) = has_words W n s" "has_words W n (s\<lparr>console := c\<rparr>) = has_words W n s"
  by (simp_all add: has_words_def)

lemma has_words_simps [simp]:
  "has_words W n (s\<lparr>fp := f\<rparr>) = has_words W n s" "has_words W n (s\<lparr>scheduler := sc\<rparr>) = has_words W n s"
  "has_words W n (s\<lparr>msg_queue := q\<rparr>) = has_words W n s" "has_words W n (s\<lparr>mem := b\<rparr>) = has_words W n s"
  "has_words W n (s\<lparr>RS := rs\<rparr>) = has_words W n s"
  by (simp_all add: has_words_def)

lemma words_stacks [keeps_intros]:
  "keeps (has_words W n) UNIV (ds_push E v)" "keeps (has_words W n) UNIV (ds_pop E)"
  "keeps (has_words W n) UNIV (ds_peek E i)" "keeps (has_words W n) UNIV (rs_push E v)"
  "keeps (has_words W n) UNIV (rs_pop E)" "keeps (has_words W n) UNIV (rs_peek E i)"
  "keeps (has_words W n) UNIV (panic E x)"
  by (auto simp: keeps_def ds_push_def ds_pop_def ds_peek_def rs_push_def rs_pop_def rs_peek_def
      panic_def vm_panic_eq has_words_def split: if_splits)

lemma words_cells [keeps_intros]:
  "keeps (has_words W n) UNIV (get_cell i)" "keeps (has_words W n) UNIV (set_cell i v)"
  "keeps (has_words W n) UNIV (local_cell E idx)" "keeps (has_words W n) UNIV (byte_at bc i)"
  by (auto simp: keeps_def get_cell_def set_cell_def local_cell_def byte_at_def panic_def vm_panic_eq
      has_words_def split: if_splits option.splits)

lemma words_memory [keeps_intros]:
  "keeps (has_words W n) UNIV (v4_mem_read32_core a out)" "keeps (has_words W n) UNIV (v4_mem_write32_core a v)"
  "keeps (has_words W n) UNIV (v4_mem_read16_core a out)" "keeps (has_words W n) UNIV (v4_mem_write16_core a v)"
  "keeps (has_words W n) UNIV (v4_mem_read8_core a out)" "keeps (has_words W n) UNIV (v4_mem_write8_core a v)"
  by (auto simp: keeps_def v4_mem_read32_core_def v4_mem_write32_core_def v4_mem_read16_core_def
      v4_mem_write16_core_def v4_mem_read8_core_def v4_mem_write8_core_def Let_def
      split: option.splits prod.splits if_splits)

lemma words_reads [keeps_intros]:
  "keeps (has_words W n) UNIV (read_i32_le p i)" "keeps (has_words W n) UNIV (read_i16_le p i)"
  "keeps (has_words W n) UNIV (jump_to E len ip off)"
  unfolding read_i32_le_def read_i16_le_def jump_to_def Let_def by (intro keeps_intros UNIV_I)+

lemma words_binary [keeps_intros]: "keeps (has_words W n) UNIV (binary_result E op a b)"
  by (cases op) (simp_all only: binary_result.simps, (intro keeps_intros UNIV_I)+)

lemma words_locals [keeps_intros]:
  "keeps (has_words W n) UNIV (local_get E idx)" "keeps (has_words W n) UNIV (local_set E idx)"
  "keeps (has_words W n) UNIV (local_tee E idx)" "keeps (has_words W n) UNIV (local_inc E idx)"
  "keeps (has_words W n) UNIV (local_dec E idx)"
  unfolding local_get_def local_set_def local_tee_def local_inc_def local_dec_def by (intro keeps_intros UNIV_I)+

lemma words_with_index [keeps_intros]:
  "(\<And>i. keeps (has_words W n) UNIV (m i)) \<Longrightarrow> keeps (has_words W n) UNIV (with_index E m bc len ip)"
  unfolding with_index_def by (intro keeps_intros UNIV_I)

lemma words_push_received [keeps_intros]: "keeps (has_words W n) UNIV (push_received E r)"
  unfolding push_received_def by (intro keeps_intros UNIV_I)

lemma words_set_task [simp]: "has_words W n (set_task i t s) = has_words W n s"
  by (simp add: set_task_def)

lemma words_save [keeps_intros]: "keeps (has_words W n) UNIV save_current"
  by (auto simp: keeps_def save_current_def Let_def split: if_splits sum.splits)

lemma words_restore [keeps_intros]: "keeps (has_words W n) UNIV (v4_task_restore_context t)"
  by (auto simp: keeps_def v4_task_restore_context_def has_words_def split: sum.splits)

lemma words_switch [keeps_intros]: "keeps (has_words W n) UNIV (switch_to i)"
proof -
  have "res_ok (has_words W n) UNIV (switch_to i s)" if s: "has_words W n s" for s :: "'a machine"
    using keeps_D [OF words_restore s, of "task_at s (unat i)"] s
    by (auto simp: switch_to_def Let_def res_ok_def bnd_def split: res.splits)
  then show ?thesis by (simp add: keeps_res_ok)
qed

lemma words_select [keeps_intros]: "keeps (has_words W n) UNIV (v4_task_select_next E)"
  unfolding v4_task_select_next_def
  by (intro keeps_bnd on_world_keeps) (auto simp: keeps_def Let_def split: prod.splits)

lemma words_schedule [keeps_intros]: "keeps (has_words W n) UNIV (schedule E)"
  unfolding schedule_def by (intro keeps_intros)

lemma words_tasks [keeps_intros]:
  "keeps (has_words W n) UNIV (task_exit E)" "keeps (has_words W n) UNIV (task_sleep E ms)"
  "keeps (has_words W n) UNIV (task_yield E)" "keeps (has_words W n) UNIV (task_send d mt x)"
  "keeps (has_words W n) UNIV (task_receive mt)" "keeps (has_words W n) UNIV (task_critical_enter E)"
  "keeps (has_words W n) UNIV (task_critical_exit E)"
proof -
  have sch: "keeps (has_words W n) UNIV (bnd (schedule E) (\<lambda>_. Ret (V4_ERR OK)))" by (intro keeps_intros)
  show "keeps (has_words W n) UNIV (task_exit E)" unfolding task_exit_def Let_def by (rule keeps_pre [OF sch]) simp
  show "keeps (has_words W n) UNIV (task_yield E)" unfolding task_yield_def by (rule sch)
  show "keeps (has_words W n) UNIV (task_sleep E ms)"
    unfolding task_sleep_def Let_def by (intro keeps_bnd on_world_keeps keeps_pre [OF sch]) simp_all
qed (auto simp: keeps_def task_send_def task_receive_def task_critical_enter_def task_critical_exit_def Let_def
    v4_backend_task_send_def v4_backend_task_receive_def split: prod.splits option.splits if_splits)

lemma words_spawn [keeps_intros]: "keeps (has_words W n) UNIV (task_spawn E w p d r)"
proof -
  have "res_ok (has_words W n) UNIV (task_spawn E w p d r s)" if "has_words W n s" for s :: "'a machine"
    using that by (auto simp: task_spawn_def Let_def res_ok_def bnd_def on_world_def split: option.split prod.split)
  then show ?thesis by (simp add: keeps_res_ok)
qed

lemma words_simple [keeps_intros]:
  "keeps (has_words W n) UNIV (exec_DUP E)" "keeps (has_words W n) UNIV (exec_DROP E)"
  "keeps (has_words W n) UNIV (exec_SWAP E)" "keeps (has_words W n) UNIV (exec_OVER E)"
  "keeps (has_words W n) UNIV (exec_literal E k)" "keeps (has_words W n) UNIV (exec_binary E op)"
  "keeps (has_words W n) UNIV (exec_INC E)" "keeps (has_words W n) UNIV (exec_DEC E)"
  "keeps (has_words W n) UNIV (exec_AND E)" "keeps (has_words W n) UNIV (exec_OR E)"
  "keeps (has_words W n) UNIV (exec_XOR E)" "keeps (has_words W n) UNIV (exec_INVERT E)"
  "keeps (has_words W n) UNIV (exec_SHL E)" "keeps (has_words W n) UNIV (exec_SHR E)"
  "keeps (has_words W n) UNIV (exec_SAR E)" "keeps (has_words W n) UNIV (exec_SELECT E)"
  "keeps (has_words W n) UNIV (exec_LOAD E)" "keeps (has_words W n) UNIV (exec_STORE E)"
  "keeps (has_words W n) UNIV (exec_LOAD8U E)" "keeps (has_words W n) UNIV (exec_LOAD16U E)"
  "keeps (has_words W n) UNIV (exec_STORE8 E)" "keeps (has_words W n) UNIV (exec_STORE16 E)"
  "keeps (has_words W n) UNIV (exec_LOAD8S E)" "keeps (has_words W n) UNIV (exec_LOAD16S E)"
  "keeps (has_words W n) UNIV (exec_TOR E)" "keeps (has_words W n) UNIV (exec_FROMR E)"
  "keeps (has_words W n) UNIV (exec_RFETCH E)"
  unfolding exec_simple_defs by (intro keeps_intros UNIV_I)+

lemma words_task_ops [keeps_intros]:
  "keeps (has_words W n) UNIV (exec_TASK_SPAWN E)" "keeps (has_words W n) UNIV (exec_TASK_EXIT E)"
  "keeps (has_words W n) UNIV (exec_TASK_SLEEP E)" "keeps (has_words W n) UNIV (exec_TASK_YIELD E)"
  "keeps (has_words W n) UNIV (exec_CRITICAL_ENTER E)" "keeps (has_words W n) UNIV (exec_CRITICAL_EXIT E)"
  "keeps (has_words W n) UNIV (exec_TASK_SEND E)" "keeps (has_words W n) UNIV (exec_TASK_RECEIVE E)"
  unfolding exec_task_defs by (intro keeps_intros UNIV_I)+

lemma words_self [keeps_intros]:
  "keeps (has_words W n) UNIV (exec_TASK_SELF E)" "keeps (has_words W n) UNIV (exec_TASK_COUNT E)"
  unfolding exec_TASK_SELF_def exec_TASK_COUNT_def
  by (rule keeps_state_dependent [where m = "ds_push E"], rule words_stacks)+

text \<open>A system-call handler that does not touch the dictionary.\<close>

definition sys_keeps_words :: "'d env \<Rightarrow> bool" where
  "sys_keeps_words E \<longleftrightarrow> (\<forall>h. g_sys_handler E = Some h \<longrightarrow>
     (\<forall>s i a b c. words (snd (h s i a b c)) = words s \<and> word_count (snd (h s i a b c)) = word_count s))"

lemma words_SYS: "sys_keeps_words E \<Longrightarrow> keeps (has_words W n) UNIV (exec_SYS E)"
proof -
  assume h: "sys_keeps_words E"
  have "keeps (has_words W n) UNIV (v4_invoke_sys_handler E sid a b c)" for sid a b c
    unfolding keeps_res_ok
  proof (intro allI impI)
    fix s :: "'a machine" assume s: "has_words W n s"
    show "res_ok (has_words W n) UNIV (v4_invoke_sys_handler E sid a b c s)"
    proof (cases "g_sys_handler E")
      case None
      then show ?thesis using s by (simp add: v4_invoke_sys_handler_def res_ok_def)
    next
      case (Some f)
      have "has_words W n (snd (f s sid a b c))" using h Some s by (simp add: sys_keeps_words_def has_words_def)
      then show ?thesis using Some by (cases "f s sid a b c") (simp add: v4_invoke_sys_handler_def res_ok_def)
    qed
  qed
  then show ?thesis unfolding exec_SYS_def by (intro keeps_intros)
qed

lemma words_CALL:
  assumes "\<And>c l. keeps (has_words W n) UNIV (run c l)"
  shows "keeps (has_words W n) UNIV (exec_CALL E run bc len ip)"
  by (rule keeps_CALL) (auto intro: words_reads words_stacks assms)

lemma words_receive_loop: "keeps (has_words W n) UNIV (receive_loop E mt ms start fuel)"
proof (induction fuel)
  case (Suc fuel)
  then show ?case unfolding receive_loop.simps by (intro keeps_intros Suc.IH) simp_all
qed (simp add: keeps_def)

lemma words_receive_blocking: "keeps (has_words W n) UNIV (exec_TASK_RECEIVE_BLOCKING E fuel)"
  unfolding exec_TASK_RECEIVE_BLOCKING_def task_receive_blocking_def
  by (intro keeps_intros words_receive_loop) simp_all

lemma words_exec_op:
  assumes sys: "sys_keeps_words E" and run: "\<And>c l. keeps (has_words W n) UNIV (run c l)"
  shows "keeps (has_words W n) UNIV (exec_op op E fuel run bc len ip)"
  by (cases op)
    (simp_all only: exec_op.simps exec_imm_defs with_tasks_def,
      (intro keeps_intros words_SYS [OF sys] words_CALL words_receive_blocking run UNIV_I; simp)+)

lemma words_exec_step:
  assumes "sys_keeps_words E" and "\<And>c l. keeps (has_words W n) UNIV (run c l)"
  shows "keeps (has_words W n) UNIV (exec_step E fuel run bc len ip)"
  unfolding exec_step_def using assms by (intro keeps_intros words_exec_op)

lemma words_exec_loop: "sys_keeps_words E \<Longrightarrow> keeps (has_words W n) UNIV (exec_loop fuel E bc len ip)"
proof (induction fuel arbitrary: bc len ip)
  case 0
  then show ?case by (simp add: keeps_def exec_loop_0)
next
  case (Suc fuel)
  have run: "keeps (has_words W n) UNIV (vm_exec_raw E fuel c l)" for c l
    unfolding vm_exec_raw_def
    by (intro keeps_bnd keeps_code_of Suc) (simp add: keeps_def entry_assert_def)
  have "keeps (has_words W n) UNIV (case fl of Return \<Rightarrow> Ret () | Continue ip' \<Rightarrow> exec_loop fuel E bc len ip')" for fl
    using Suc.IH [OF Suc.prems] by (cases fl) (auto intro: keeps_Ret_act)
  then show ?case
    unfolding exec_loop_Suc by (intro keeps_if keeps_bnd words_stacks words_exec_step Suc.prems run)
qed

lemma words_exec_raw: "sys_keeps_words E \<Longrightarrow> keeps (has_words W n) UNIV (vm_exec_raw E fuel bc len)"
  unfolding vm_exec_raw_def
  by (intro keeps_bnd keeps_code_of words_exec_loop) (simp_all add: keeps_def entry_assert_def)

section \<open>Layered code\<close>

text \<open>The operand of two bytes.\<close>

definition word_at :: "u8 list \<Rightarrow> nat \<Rightarrow> u16" where
  "word_at bc i = ucast (bc ! i) OR push_bit 8 (ucast (bc ! (i + 1)))"

lemma read_i16_word: "read_i16_le bc i s = (if i + 1 < length bc then Ret (word_at bc i) s else Undef OutOfBounds)"
  by (simp add: read_i16_le_def bnd_def byte_at_def word_at_def)

text \<open>
  Code of the \<open>k\<close>-th word from \<open>ip\<close> on, along every path the loop can take: jumps go forward, calls go to
  words before the \<open>k\<close>-th, and no receive waits. An operand that is cut off ends the run.
\<close>

function layered :: "nat \<Rightarrow> u8 list \<Rightarrow> int \<Rightarrow> nat \<Rightarrow> bool" where
  "layered k bc len ip =
    (if int ip \<ge> len \<or> ip \<ge> length bc then True
     else (case decode (bc ! ip) of
         None \<Rightarrow> True
       | Some op \<Rightarrow>
           if op = Op_RET \<or> op = Op_TASK_EXIT then True
           else if op = Op_TASK_RECEIVE_BLOCKING then False
           else if is_jump op then
             (if int ip + 3 > len \<or> ip + 2 \<ge> length bc then True
              else if sint (word_at bc (ip + 1)) < 0 then False
              else if \<not> layered k bc len (nat (int ip + 3 + sint (word_at bc (ip + 1)))) then False
              else op = Op_JMP \<or> layered k bc len (ip + 3))
           else if op = Op_CALL \<and> int ip + 3 \<le> len \<and> ip + 2 < length bc \<and> \<not> unat (word_at bc (ip + 1)) < k then False
           else layered k bc len (ip + 1 + imm_size (prim_kind op))))"
  by auto
termination
  by (relation "measure (\<lambda>(k, bc, len, ip). nat (len - int ip))") auto

declare layered.simps [simp del]

definition layered_dict :: "Word list \<Rightarrow> nat \<Rightarrow> bool" where
  "layered_dict W n \<longleftrightarrow> list_all (\<lambda>i. case w_code (W ! i) of
      None \<Rightarrow> True | Some c \<Rightarrow> layered i c (w_code_len (W ! i)) 0) [0..<n]"

lemma layered_dictD: "layered_dict W n \<Longrightarrow> i < n \<Longrightarrow> w_code (W ! i) = Some c \<Longrightarrow> layered i c (w_code_len (W ! i)) 0"
  unfolding layered_dict_def list_all_length by (drule spec [of _ i]) simp

text \<open>The next instruction of layered code lies behind, and its code is layered again.\<close>

lemma yields_D: "yields P m \<Longrightarrow> m s = Ret a t \<Longrightarrow> P a"
  unfolding yields_def by blast

lemma read_i16_bnd:
  "bnd (read_i16_le bc i) f = (if i + 1 < length bc then f (word_at bc i) else (\<lambda>s. Undef OutOfBounds))"
  by (simp add: fun_eq_iff bnd_def read_i16_word)

lemma jumps_yield:
  assumes "is_jump op"
  shows "yields (\<lambda>fl. (fl = Continue (ip + 2) \<and> op \<noteq> Op_JMP \<or> fl = Continue (nat (int ip + 2 + sint (word_at bc ip)))) \<and>
      int ip + 2 \<le> len \<and> ip + 1 < length bc) (exec_op op E fuel run bc len ip)"
  using assms
  by (cases op)
    (simp_all only: exec_op.simps exec_JMP_def exec_JZ_def exec_JNZ_def is_jump.simps read_i16_bnd,
      (intro yields_if yields_panic yields_bnd yields_jump_to yields_Ret; (simp add: yields_def)?; auto)+)

lemma layered_next:
  assumes l: "layered k bc len ip" and ip: "int ip < len" "ip < length bc" and d: "decode (bc ! ip) = Some op"
    and r: "exec_op op E fuel run bc len (ip + 1) s = Ret (Continue ip') t"
  shows "ip < ip' \<and> layered k bc len ip'"
proof (cases "is_jump op")
  case True
  have "(ip' = ip + 3 \<and> op \<noteq> Op_JMP \<or> ip' = nat (int ip + 3 + sint (word_at bc (ip + 1)))) \<and>
      int ip + 3 \<le> len \<and> ip + 2 < length bc"
    using yields_D [OF jumps_yield [OF True] r] by (auto simp: algebra_simps)
  moreover have "op \<noteq> Op_RET" "op \<noteq> Op_TASK_EXIT" "op \<noteq> Op_TASK_RECEIVE_BLOCKING" using True by auto
  ultimately show ?thesis
    using l ip d True unfolding layered.simps [of k bc len ip] by (auto split: if_splits)
next
  case False
  have "ip' = ip + 1 + imm_size (prim_kind op)"
    using yields_D [OF exec_op_next [OF False] r] by simp
  moreover have "op \<noteq> Op_RET" using r by (auto simp: exec_op.simps)
  moreover have "op \<noteq> Op_TASK_EXIT"
    using r by (auto simp: exec_op.simps with_tasks_def exec_TASK_EXIT_def bnd_eq_Ret_iff split: if_splits)
  ultimately show ?thesis
    using l ip d False unfolding layered.simps [of k bc len ip] by (auto split: if_splits)
qed

lemma CALL_ends:
  assumes "\<And>c. int ip + 2 \<le> len \<Longrightarrow> ip + 1 < length bc \<Longrightarrow> w_code (words s ! unat (word_at bc ip)) = Some c \<Longrightarrow>
      run c (w_code_len (words s ! unat (word_at bc ip))) (s\<lparr>fp := Some (rp s)\<rparr>) \<noteq> Timeout"
  shows "exec_CALL E run bc len ip s \<noteq> Timeout"
proof (cases "int ip + 2 \<le> len \<and> ip + 1 < length bc")
  case True
  then show ?thesis
    using assms unfolding exec_CALL_def read_i16_bnd by (auto simp: Let_def bnd_def split: option.split res.split)
next
  case False
  then show ?thesis unfolding exec_CALL_def read_i16_bnd by auto
qed

definition fuel_bound :: "nat \<Rightarrow> nat \<Rightarrow> nat" where
  "fuel_bound L k = k * (L + 1)"

lemma fuel_bound_mono: "i < k \<Longrightarrow> fuel_bound L i + L < fuel_bound L k"
  using mult_le_mono1 [of "Suc i" k "L + 1"] by (simp add: fuel_bound_def)

lemma layered_ends:
  assumes sys: "sys_keeps_words E" and dict: "layered_dict W n"
    and short: "\<And>i. i < n \<Longrightarrow> w_code_len (W ! i) \<le> int L"
  shows "has_words W (int n) s \<Longrightarrow> layered k bc len ip \<Longrightarrow> k \<le> n \<Longrightarrow> nat (len - int ip) + fuel_bound L k < fuel \<Longrightarrow>
    exec_loop fuel E bc len ip s \<noteq> Timeout"
proof (induction fuel arbitrary: k bc len ip s)
  case 0
  then show ?case by simp
next
  case (Suc fuel)
  let ?step = "exec_step E fuel (vm_exec_raw E fuel) bc len ip"
  show ?case
  proof (cases "int ip < len \<and> ip < length bc")
    case False
    then show ?thesis by (auto simp: exec_loop_Suc exec_step_def byte_at_def bnd_def)
  next
    case True
    have ends: "?step s \<noteq> Timeout"
    proof (cases "decode (bc ! ip)")
      case None
      then show ?thesis using True by (simp add: exec_step_def byte_at_def)
    next
      case (Some op)
      have "exec_op op E fuel (vm_exec_raw E fuel) bc len (ip + 1) s \<noteq> Timeout"
      proof (cases "may_wait op")
        case False
        then show ?thesis by (rule total_exec_op [unfolded total_def, rule_format])
      next
        case w: True
        have "op \<noteq> Op_TASK_RECEIVE_BLOCKING"
          using Suc.prems(2) True Some unfolding layered.simps [of k bc len ip] by auto
        with w have op: "op = Op_CALL" by (cases op) auto
        have "vm_exec_raw E fuel c (w_code_len (words s ! unat w)) (s\<lparr>fp := Some (rp s)\<rparr>) \<noteq> Timeout"
          if w: "w = word_at bc (ip + 1)" and inr: "int ip + 3 \<le> len" "ip + 2 < length bc"
            and c: "w_code (words s ! unat w) = Some c" for c w
        proof -
          let ?l = "w_code_len (words s ! unat w)"
          have i: "unat w < k"
            using Suc.prems(2) True Some op w inr unfolding layered.simps [of k bc len ip] by (auto split: if_splits)
          have W: "words s = W" using Suc.prems(1) by (simp add: has_words_def)
          have "layered (unat w) c ?l 0"
            using layered_dictD [OF dict, of "unat w" c] i Suc.prems(3) c W by simp
          moreover have "nat (?l - int 0) + fuel_bound L (unat w) < fuel"
            using fuel_bound_mono [OF i, of L] short [of "unat w"] i Suc.prems(3,4) W True by simp
          ultimately have "exec_loop fuel E c ?l 0 (s\<lparr>fp := Some (rp s)\<rparr>) \<noteq> Timeout"
            using Suc.prems(1,3) i by (intro Suc.IH [where k = "unat w"]) simp_all
          then show ?thesis
            by (auto simp: vm_exec_raw_def entry_assert_def bnd_def code_of_def split: res.split)
        qed
        then show ?thesis unfolding op exec_op.simps by (intro CALL_ends) (simp_all add: algebra_simps)
      qed
      then show ?thesis using True Some by (simp add: exec_step_def byte_at_def)
    qed
    have next_ip: "ip < ip' \<and> layered k bc len ip' \<and> has_words W (int n) t" if r: "?step s = Ret (Continue ip') t" for ip' t
    proof -
      obtain op where op: "decode (bc ! ip) = Some op" and x: "exec_op op E fuel (vm_exec_raw E fuel) bc len (ip + 1) s = Ret (Continue ip') t"
        using r True by (cases "decode (bc ! ip)") (simp_all add: exec_step_def byte_at_def bnd_def)
      have "has_words W (int n) t"
        by (rule keeps_Ret [OF words_exec_step [OF sys words_exec_raw [OF sys]] Suc.prems(1) r])
      with layered_next [OF Suc.prems(2) _ _ op x] True show ?thesis by simp
    qed
    have "exec_loop fuel E bc len ip' t \<noteq> Timeout" if r: "?step s = Ret (Continue ip') t" for ip' t
    proof -
      have "nat (len - int ip') < nat (len - int ip)" using next_ip [OF r] True by linarith
      then have "nat (len - int ip') + fuel_bound L k < fuel" using Suc.prems(4) by linarith
      then show ?thesis using next_ip [OF r] Suc.prems(3) by (intro Suc.IH [where k = k]) blast+
    qed
    then show ?thesis
      using ends True by (auto simp: exec_loop_Suc bnd_def split: res.split flow.split)
  qed
qed

section \<open>Code that never returns\<close>

text \<open>A word whose first instruction calls the word itself, and a jump to itself.\<close>

lemma self_call_loop:
  assumes "0 < l" and "3 \<le> l" and "3 \<le> length c" and "c ! 0 = op_byte Op_CALL" and "word_at c 1 = w"
    and "w_code (W ! unat w) = Some c" and "w_code_len (W ! unat w) = l" and n: "\<not> w \<ge> word_of_int n"
  shows "has_words W n s \<Longrightarrow> exec_loop fuel E c l 0 s = Timeout"
proof (induction fuel arbitrary: s)
  case 0
  then show ?case by (simp add: exec_loop_0)
next
  case (Suc fuel)
  have "has_words W n (s\<lparr>fp := Some (rp s)\<rparr>)" using Suc.prems by simp
  then have "vm_exec_raw E fuel c l (s\<lparr>fp := Some (rp s)\<rparr>) = Timeout"
    using Suc.IH assms(1) by (simp add: vm_exec_raw_def entry_assert_def bnd_def code_of_def)
  then have "exec_CALL E (vm_exec_raw E fuel) c l 1 s = Timeout"
    using assms Suc.prems unfolding exec_CALL_def read_i16_bnd by (simp add: has_words_def Let_def bnd_def)
  moreover have "decode (c ! 0) = Some Op_CALL" unfolding assms(4) by (rule decode_op_byte)
  moreover have "0 < length c" using assms(3) by linarith
  ultimately show ?case
    using assms(1) unfolding exec_loop_Suc exec_step_def by (simp add: bnd_def byte_at_def exec_op.simps)
qed

lemma jump_back_loop:
  assumes "int ip + 3 \<le> len" and "ip + 3 \<le> length bc" and "bc ! ip = op_byte Op_JMP" and "sint (word_at bc (ip + 1)) = -3"
  shows "exec_loop fuel E bc len ip s = Timeout"
proof (induction fuel)
  case 0
  then show ?case by (simp add: exec_loop_0)
next
  case (Suc fuel)
  have "exec_JMP E bc len (ip + 1) s = Ret (Continue ip) s"
    using assms unfolding exec_JMP_def read_i16_bnd by (simp add: jump_to_def)
  moreover have "decode (bc ! ip) = Some Op_JMP" unfolding assms(3) by (rule decode_op_byte)
  moreover have "ip < length bc" using assms(2) by linarith
  ultimately show ?case
    using assms(1) Suc.IH unfolding exec_loop_Suc exec_step_def by (simp add: bnd_def byte_at_def exec_op.simps)
qed

section \<open>A call gives the frame pointer back\<close>

lemma exec_raw_not_Fail [simp]: "vm_exec_raw E fuel bc len s \<noteq> Fail e t"
  by (auto simp: vm_exec_raw_def entry_assert_def bnd_def code_of_def split: res.splits)

lemma CALL_fp: "exec_CALL E run bc len ip s = Ret fl t \<Longrightarrow> fp t = fp s"
  unfolding exec_CALL_def read_i16_bnd
  by (auto simp: Let_def bnd_def panic_def vm_panic_eq split: if_splits option.splits res.splits)

lemma CALL_fp_Fail:
  "exec_CALL E (vm_exec_raw E fuel) bc len ip s = Fail e t \<Longrightarrow> fp t = fp s"
  unfolding exec_CALL_def read_i16_bnd
  by (auto simp: Let_def bnd_def panic_def vm_panic_eq split: if_splits option.splits res.splits)

end
