(* ===== verification/V4_Effects.thy ===== *)
theory V4_Effects
  imports V4_Instr
begin

text \<open>
  What instructions without operand bytes do to the data stack. \<open>effect m xs ys\<close>: started with the
  stack \<open>xs\<close>, its top first, the action \<open>m\<close> ends without an error with the stack \<open>ys\<close>, and with the return
  stack it found. The rules for sequencing let each instruction be run on a symbolic stack.
\<close>

section \<open>Effects on the data stack\<close>

definition top_first :: "('d, 'm) Vm_scheme \<Rightarrow> i32 list" where
  "top_first s = rev (data_stack s)"

definition effect :: "('d machine, unit) act \<Rightarrow> i32 list \<Rightarrow> i32 list \<Rightarrow> bool" where
  "effect m xs ys \<longleftrightarrow> (\<forall>s. wf_stacks s \<and> top_first s = xs \<longrightarrow>
     (\<exists>t. m s = Ret () t \<and> top_first t = ys \<and> return_stack t = return_stack s \<and> wf_stacks t))"

lemma effect_D:
  assumes "effect m xs ys" and "wf_stacks s" and "top_first s = xs"
  obtains t where "m s = Ret () t" "top_first t = ys" "return_stack t = return_stack s" "wf_stacks t"
  using assms unfolding effect_def by blast

lemma top_first_length: "wf_stacks s \<Longrightarrow> top_first s = xs \<Longrightarrow> length xs = sp s \<and> length xs \<le> DS_SIZE"
  by (auto simp: top_first_def wf_stacks_def data_stack_def)

lemma pop_step:
  assumes s: "wf_stacks s" "top_first s = v # xs"
  shows "ds_pop E s = Ret v (s\<lparr>sp := sp s - 1\<rparr>) \<and> top_first (s\<lparr>sp := sp s - 1\<rparr>) = xs \<and>
    wf_stacks (s\<lparr>sp := sp s - 1\<rparr>) \<and> return_stack (s\<lparr>sp := sp s - 1\<rparr>) = return_stack s \<and> length xs < DS_SIZE"
proof -
  have d: "data_stack s = rev xs @ [v]" using s(2) by (simp add: top_first_def rev_eq_Cons_iff)
  have t: "0 < sp s" "DS s ! (sp s - 1) = v" "take (sp s - 1) (DS s) = rev xs"
    using take_snoc [OF wf_stacks_sp [OF s(1)] d [unfolded data_stack_def]] by auto
  then show ?thesis
    using s(1) top_first_length [OF s]
    by (auto simp: ds_pop_def top_first_def data_stack_def return_stack_def wf_stacks_def)
qed

lemma pop_to:
  assumes "wf_stacks s" and "top_first s = v # xs"
  obtains t where "ds_pop E s = Ret v t" "top_first t = xs" "wf_stacks t" "return_stack t = return_stack s"
  using pop_step [OF assms] by blast

lemma pop_none:
  assumes "wf_stacks s" and "top_first s = []"
  obtains t where "ds_pop E s = Fail (V4_ERR StackUnderflow) t" "top_first t = []" "wf_stacks t"
    "return_stack t = return_stack s"
  using ds.pop_empty [of s E] panic_stacks [OF assms(1), of E StackUnderflow] top_first_length [OF assms] assms(2)
  by (auto simp: top_first_def ds_pop_def simp del: V4_ERR.simps)

lemma panic_to:
  assumes "wf_stacks s"
  obtains t where "panic E x s = Fail (V4_ERR x) t" "top_first t = top_first s" "wf_stacks t" "return_stack t = return_stack s"
  using panic_stacks [OF assms, of E x] by (auto simp: top_first_def simp del: V4_ERR.simps)

lemma panic_bnd:
  fixes f :: "'a \<Rightarrow> ('d machine, 'b) act"
  assumes "wf_stacks s"
  obtains t where "bnd (panic E x) f s = Fail (V4_ERR x) t" "top_first t = top_first s" "wf_stacks t"
    "return_stack t = return_stack s"
proof -
  obtain t where "(panic E x s :: ('d machine, 'a) res) = Fail (V4_ERR x) t" "top_first t = top_first s" "wf_stacks t"
      "return_stack t = return_stack s"
    using panic_to [OF assms] .
  then show ?thesis by (intro that bnd_Fail)
qed

lemma effect_Ret: "effect (Ret ()) xs xs"
  by (simp add: effect_def)

lemma effect_pop:
  assumes "length xs < DS_SIZE \<Longrightarrow> effect (f v) xs ys"
  shows "effect (bnd (ds_pop E) f) (v # xs) ys"
  unfolding effect_def
proof (intro allI impI, elim conjE)
  fix s :: "'a machine" assume s: "wf_stacks s" "top_first s = v # xs"
  let ?s = "s\<lparr>sp := sp s - 1\<rparr>"
  have p: "ds_pop E s = Ret v ?s" "top_first ?s = xs" "wf_stacks ?s" "return_stack ?s = return_stack s" "length xs < DS_SIZE"
    using pop_step [OF s] by blast+
  obtain t where "f v ?s = Ret () t" "top_first t = ys" "return_stack t = return_stack ?s" "wf_stacks t"
    using effect_D [OF assms [OF p(5)] p(3,2)] .
  then show "\<exists>t. bnd (ds_pop E) f s = Ret () t \<and> top_first t = ys \<and> return_stack t = return_stack s \<and> wf_stacks t"
    using p by simp
qed

lemma effect_push:
  assumes "length xs < DS_SIZE"
  shows "effect (ds_push E v) xs (v # xs)"
  unfolding effect_def
proof (intro allI impI, elim conjE)
  fix s :: "'a machine" assume s: "wf_stacks s" "top_first s = xs"
  then show "\<exists>t. ds_push E v s = Ret () t \<and> top_first t = v # xs \<and> return_stack t = return_stack s \<and> wf_stacks t"
    using assms top_first_length [OF s]
    by (auto simp: ds_push_def top_first_def data_stack_def return_stack_def wf_stacks_def take_Suc_update)
qed

lemma effect_bnd:
  assumes m: "effect m xs zs" and f: "effect (f ()) zs ys"
  shows "effect (bnd m f) xs ys"
  unfolding effect_def
proof (intro allI impI, elim conjE)
  fix s :: "'a machine" assume s: "wf_stacks s" "top_first s = xs"
  obtain t where t: "m s = Ret () t" "top_first t = zs" "return_stack t = return_stack s" "wf_stacks t"
    using effect_D [OF m s] .
  obtain u where "f () t = Ret () u" "top_first u = ys" "return_stack u = return_stack t" "wf_stacks u"
    using effect_D [OF f t(4,2)] .
  then show "\<exists>t. bnd m f s = Ret () t \<and> top_first t = ys \<and> return_stack t = return_stack s \<and> wf_stacks t"
    using t by auto
qed

lemma effect_peek:
  assumes "i < length xs" and f: "effect (f (xs ! i)) xs ys"
  shows "effect (bnd (ds_peek E i) f) xs ys"
  unfolding effect_def
proof (intro allI impI, elim conjE)
  fix s :: "'a machine" assume s: "wf_stacks s" "top_first s = xs"
  have "ds_peek E i s = Ret (xs ! i) s"
    using ds_peek_eq [OF s(1), of i E] s(2) assms(1) top_first_length [OF s] by (simp add: top_first_def)
  then show "\<exists>t. bnd (ds_peek E i) f s = Ret () t \<and> top_first t = ys \<and> return_stack t = return_stack s \<and> wf_stacks t"
    using f s by (simp add: effect_def)
qed

lemma effect_value: "(\<And>s. m s = Ret v s) \<Longrightarrow> effect (f v) xs ys \<Longrightarrow> effect (bnd m f) xs ys"
  by (simp add: effect_def bnd_def)

section \<open>The instructions\<close>

lemma effect_shuffles:
  "length (a # xs) < DS_SIZE \<Longrightarrow> effect (exec_DUP E) (a # xs) (a # a # xs)"
  "effect (exec_DROP E) (a # xs) xs"
  "effect (exec_SWAP E) (b # a # xs) (a # b # xs)"
  "length (b # a # xs) < DS_SIZE \<Longrightarrow> effect (exec_OVER E) (b # a # xs) (a # b # a # xs)"
  "effect (exec_SELECT E) (a # b # flag # xs) ((if flag \<noteq> 0 then a else b) # xs)"
  unfolding exec_DUP_def exec_DROP_def exec_SWAP_def exec_OVER_def exec_SELECT_def
  by (auto intro!: effect_pop effect_push effect_peek effect_Ret intro: effect_bnd)

lemma effect_binary:
  assumes "\<And>s. binary_result E op a b s = Ret v s"
  shows "effect (exec_binary E op) (b # a # xs) (v # xs)"
  unfolding exec_binary_def by (intro effect_pop effect_value [OF assms] effect_push) simp

lemma effect_bits:
  "effect (exec_AND E) (b # a # xs) ((a AND b) # xs)"
  "effect (exec_OR E) (b # a # xs) ((a OR b) # xs)"
  "effect (exec_XOR E) (b # a # xs) ((a XOR b) # xs)"
  "effect (exec_INVERT E) (a # xs) (NOT a # xs)"
  "effect (exec_SHR E) (k # a # xs) (drop_bit (shift_count k) a # xs)"
  "effect (exec_SAR E) (k # a # xs) (signed_drop_bit (shift_count k) a # xs)"
  unfolding exec_AND_def exec_OR_def exec_XOR_def exec_INVERT_def exec_SHR_def exec_SAR_def
  by (intro effect_pop effect_push; simp)+

section \<open>Signed quotients\<close>

lemma remainder_fits:
  assumes "sint (b :: i32) \<noteq> 0"
  shows "int32_min \<le> sint (a :: i32) smod sint b \<and> sint a smod sint b \<le> int32_max"
    and "\<bar>sint a smod sint b\<bar> < \<bar>sint b\<bar>"
    and "sint a smod sint b = 0 \<or> sgn (sint a smod sint b) = sgn (sint a)"
proof -
  have m: "0 \<le> \<bar>sint a\<bar> mod \<bar>sint b\<bar>" "\<bar>sint a\<bar> mod \<bar>sint b\<bar> < \<bar>sint b\<bar>" using assms by simp_all
  show abs: "\<bar>sint a smod sint b\<bar> < \<bar>sint b\<bar>"
    using m by (auto simp: signed_modulo_int_def abs_mult sgn_if)
  then show "int32_min \<le> sint a smod sint b \<and> sint a smod sint b \<le> int32_max"
    using sint_ge_int32_min [of b] sint_le_int32_max [of b] by (auto simp: int32_min_def int32_max_def)
  show "sint a smod sint b = 0 \<or> sgn (sint a smod sint b) = sgn (sint a)"
    using m by (auto simp: signed_modulo_int_def sgn_if mult_less_0_iff zero_less_mult_iff)
qed

lemma quotient_fits:
  assumes "sint (b :: i32) \<noteq> 0" and "\<not> (sint (a :: i32) = int32_min \<and> sint b = -1)"
  shows "int32_min \<le> sint a sdiv sint b \<and> sint a sdiv sint b \<le> int32_max"
proof -
  let ?d = "\<bar>sint a\<bar> div \<bar>sint b\<bar>"
  have d: "0 \<le> ?d" "?d \<le> \<bar>sint a\<bar>" 
    using assms(1) zdiv_mono2 [of "\<bar>sint a\<bar>" 1 "\<bar>sint b\<bar>"] pos_imp_zdiv_nonneg_iff [of "\<bar>sint b\<bar>" "\<bar>sint a\<bar>"]
    by auto
  have "?d < \<bar>sint a\<bar>" if "\<bar>sint b\<bar> \<noteq> 1" "sint a \<noteq> 0"
    using that assms(1) int_div_less_self [of "\<bar>sint a\<bar>" "\<bar>sint b\<bar>"] by simp
  then show ?thesis
    using d assms sint_ge_int32_min [of a] sint_le_int32_max [of a]
    by (auto simp: signed_divide_int_def sgn_if int32_min_def int32_max_def)
qed

section \<open>Locals\<close>

lemma local_set_get:
  assumes s: "wf_stacks s" "top_first s = v # xs" and f: "fp s = Some f" "f + idx < rp s"
  shows "\<exists>t. bnd (local_set E idx) (\<lambda>_. local_get E idx) s = Ret () t \<and> top_first t = v # xs \<and>
    return_stack t = (return_stack s)[f + idx := v]"
proof -
  define i where "i = f + idx"
  have i: "i < rp s" "i < length (RS s)" using f s(1) by (simp_all add: i_def wf_stacks_def)
  define u where "u = s\<lparr>sp := sp s - 1, RS := (RS s)[i := v]\<rparr>"
  have "ds_pop E s = Ret v (s\<lparr>sp := sp s - 1\<rparr>)" "top_first (s\<lparr>sp := sp s - 1\<rparr>) = xs" "length xs < DS_SIZE"
    using pop_step [OF s] by blast+
  then have set: "local_set E idx s = Ret () u" and xs: "top_first u = xs"
    using f i by (simp_all add: local_set_def local_cell_def set_cell_def bnd_def u_def i_def top_first_def data_stack_def)
  have u: "wf_stacks u" "fp u = Some f" "rp u = rp s" "i < length (RS u)" "RS u ! i = v"
    using s(1) f i by (auto simp: u_def wf_stacks_def)
  have "local_get E idx u = ds_push E v u"
    using f u by (simp add: local_get_def local_cell_def get_cell_def bnd_def i_def)
  moreover obtain t where "ds_push E v u = Ret () t" "top_first t = v # xs" "return_stack t = return_stack u"
    using effect_D [OF effect_push u(1) xs] \<open>length xs < DS_SIZE\<close> by metis
  moreover have "return_stack u = (return_stack s)[f + idx := v]"
    using i by (simp add: u_def return_stack_def take_update_swap i_def)
  ultimately show ?thesis
    using set by auto
qed

end
