(* ===== verification/V4_Data_Props.thy ===== *)
theory V4_Data_Props
  imports V4_Memory V4_Dictionary
begin

text \<open>
  The properties of the components that hold data: the opcode and error tables, the arena, the panic
  report, the data stack, the memory and the dictionary. Each is stated over the model's operations and
  follows from the lemmas of the component's theory; a witness applies it to a concrete machine.
\<close>

section \<open>Concrete machines for the witnesses\<close>

text \<open>An engine whose world is a number, the clock in milliseconds, and where every \<open>malloc\<close> succeeds.\<close>

definition sample_env :: "nat env" where
  "sample_env = \<lparr>enable_tasks = True, panic_diagnostics = True, ndebug = False,
     get_tick_ms = (\<lambda>w. (word_of_nat w, w + 1)), platform_critical_enter = (\<lambda>w. w),
     platform_critical_exit = (\<lambda>w. w), malloc_ok = (\<lambda>n w. (True, w)), g_sys_handler = None\<rparr>"

definition sample_vm :: "nat machine" where
  "sample_vm = (zero_vm 0)\<lparr>mem := Some (replicate 16 0), mem_size := 16\<rparr>"

definition sample_arena :: V4Arena where
  "sample_arena = \<lparr>buffer = Some (replicate 64 0), arena_size = 64, arena_used = 5\<rparr>"

lemma sample_env_simps [simp]:
  "enable_tasks sample_env = True" "panic_diagnostics sample_env = True" "g_sys_handler sample_env = None"
  "get_tick_ms sample_env w = (word_of_nat w, w + 1)" "malloc_ok sample_env n w = (True, w)"
  "ndebug sample_env = False" "platform_critical_enter sample_env w = w" "platform_critical_exit sample_env w = w"
  by (simp_all add: sample_env_def)

lemma sample_vm_simps [simp]:
  "sp sample_vm = 0" "rp sample_vm = 0" "fp sample_vm = None" "mem sample_vm = Some (replicate 16 0)"
  "mem_size sample_vm = 16" "mmio_count sample_vm = 0" "word_count sample_vm = 0" "arena sample_vm = None"
  "world sample_vm = 0" "panic_handler sample_vm = None" "scheduler sample_vm = zero_scheduler"
  "msg_queue sample_vm = zero_msg_queue" "DS sample_vm = replicate DS_SIZE 0"
  by (simp_all add: sample_vm_def zero_vm_def)

lemma wf_sample_vm [simp]: "wf_vm sample_vm"
  using wf_zero_vm [of "0 :: nat"]
  by (simp add: sample_vm_def wf_vm_def wf_stacks_def wf_mem_def wf_dict_def wf_buffer_def)

lemma wf_stacks_sample [simp]: "wf_stacks sample_vm"
  using wf_sample_vm by (simp only: wf_vm_def)

section \<open>Opcodes and errors\<close>

text \<open>
  Decoding inverts encoding: a byte decodes to an instruction exactly when it is the
  instruction's opcode byte, so no two instructions share a byte.\<close>
theorem decode_inverts_op_byte: "decode b = Some x \<longleftrightarrow> b = op_byte x"
  by (auto simp: decode_Some_iff)

text \<open>
  Error codes are distinct, only success is 0, and the text the diagnostics look up for the
  code of an error is that error's message.\<close>
theorem error_codes_faithful:
  "(V4_ERR x = V4_ERR y \<longleftrightarrow> x = y) \<and> (V4_ERR x = 0 \<longleftrightarrow> x = OK) \<and> err_str (V4_ERR x) = err_msg x"
  by (simp add: err_str_V4_ERR)

section \<open>Arena\<close>

text \<open>C13: when the sum of the used bytes, the alignment and the request fits 64 bits, the bit
  arithmetic of \<open>v4_arena_alloc\<close> implements its contract: the least aligned offset behind the used
  bytes is granted exactly when the block fits, and only the used count changes.\<close>
theorem arena_alloc_refines:
  assumes "buffer a \<noteq> None" and "bytes \<noteq> 0" and "pow2 align" and "no_wrap a bytes align"
  shows "v4_arena_alloc (Some a) bytes align =
    (case alloc_spec a (unat bytes) (unat align) of
       None \<Rightarrow> (None, Some a)
     | Some off \<Rightarrow> (Some (word_of_nat off), Some (a\<lparr>arena_used := word_of_nat (off + unat bytes)\<rparr>)))"
  using assms by (rule alloc_refines_spec)

theorem arena_alloc_refines_witness:
  "v4_arena_alloc (Some sample_arena) 6 4 = (Some 8, Some (sample_arena\<lparr>arena_used := 14\<rparr>))"
proof -
  have "pow2 4" by (simp add: pow2_def)
  then show ?thesis
    using arena_alloc_refines [of sample_arena 6 4]
    by (simp add: sample_arena_def no_wrap_def alloc_spec_def round_up_def)
qed

text \<open>C14: the blocks granted by any sequence of requests, each small enough not to wrap around, are
  pairwise disjoint, in the order of the requests, and inside the arena's buffer.\<close>
theorem arena_blocks_disjoint:
  assumes "unat (arena_used a) \<le> unat (arena_size a)"
    and "\<And>b al. (b, al) \<in> set rs \<Longrightarrow> unat (arena_size a) + unat al + unat b \<le> 2 ^ 64"
  shows "sorted_wrt before (arena_run (Some a) rs) \<and>
    (\<forall>x \<in> set (arena_run (Some a) rs).
       unat (arena_used a) \<le> fst x \<and> fst x + snd x \<le> unat (arena_size a))"
  using assms by (rule arena_run_blocks)

theorem arena_blocks_disjoint_witness:
  "sorted_wrt before (arena_run (Some sample_arena) [(6, 4), (3, 1)])"
proof -
  have "unat (arena_used sample_arena) \<le> unat (arena_size sample_arena)"
    by (simp add: sample_arena_def)
  moreover have "unat (arena_size sample_arena) + unat al + unat b \<le> 2 ^ 64" if "(b, al) \<in> set [(6, 4), (3, 1)]" for b al :: size_t
    using that by (auto simp: sample_arena_def)
  ultimately show ?thesis by (rule arena_blocks_disjoint [THEN conjunct1])
qed

text \<open>C40: without that bound the check \<open>aligned + bytes > size\<close> wraps around: a request of
  \<open>2 ^ 64 - used\<close> bytes, far more than the arena has, is granted, and the arena counts as empty again,
  so later blocks overlap the earlier ones.\<close>
theorem arena_request_wraps:
  assumes "buffer a \<noteq> None" and "0 < arena_used a"
  shows "v4_arena_alloc (Some a) (- arena_used a) 1 = (Some (arena_used a), Some (a\<lparr>arena_used := 0\<rparr>))"
  using assms by (auto simp: v4_arena_alloc_def Let_def)

theorem arena_request_wraps_witness:
  "v4_arena_alloc (Some sample_arena) (- 5) 1 = (Some 5, Some (sample_arena\<lparr>arena_used := 0\<rparr>))"
  using arena_request_wraps [of sample_arena] by (simp add: sample_arena_def)

section \<open>Panic\<close>

text \<open>
  A panic returns the code it was given and changes nothing of the VM but the embedder's world
  and the output; the report carries that code and, unless the data stack is full, the depths and the
  top four cells of the stacks as they are.\<close>
theorem panic_reports_stack:
  assumes "wf_stacks s" and "sp s < DS_SIZE"
  shows "(\<exists>w c. vm_panic E e s = (e, s\<lparr>world := w, console := c\<rparr>)) \<and>
    error_code (panic_info e s) = e \<and>
    unat (info_ds_depth (panic_info e s)) = length (data_stack s) \<and>
    unat (info_rs_depth (panic_info e s)) = length (return_stack s) \<and>
    has_stack_data (panic_info e s) = (data_stack s \<noteq> []) \<and>
    info_stack (panic_info e s) = map (\<lambda>i. if i < sp s then rev (data_stack s) ! i else 0) [0, 1, 2, 3]"
proof -
  have d: "unat (info_ds_depth (panic_info e s)) = sp s"
    using assms(2)
    by (simp add: panic_info_def vm_ds_depth_public_def Let_def unsigned_of_nat take_bit_nat_eq_self DS_SIZE_def)
  have r: "unat (info_rs_depth (panic_info e s)) = rp s"
    using assms(1)
    by (simp add: panic_info_def vm_rs_depth_public_def Let_def unsigned_of_nat take_bit_nat_eq_self
        wf_stacks_def RS_SIZE_def)
  have "has_stack_data (panic_info e s) = (0 < unat (info_ds_depth (panic_info e s)))"
    by (simp add: panic_info_def Let_def)
  moreover have "data_stack s \<noteq> [] \<longleftrightarrow> 0 < sp s"
    using length_data_stack [OF assms(1)] by (metis length_greater_0_conv)
  moreover have "info_stack (panic_info e s) =
      map (\<lambda>i. if i < unat (info_ds_depth (panic_info e s)) then vm_ds_peek_public (Some s) (int i) else 0) [0, 1, 2, 3]"
    by (simp add: panic_info_def Let_def)
  moreover have "\<dots> = map (\<lambda>i. if i < sp s then rev (data_stack s) ! i else 0) [0, 1, 2, 3]"
    unfolding d by (rule map_cong [OF refl]) (simp add: peek_public_eq [OF assms(1)])
  moreover have "error_code (panic_info e s) = e" by (simp add: panic_info_def Let_def)
  moreover have "\<exists>w c. vm_panic E e s = (e, s\<lparr>world := w, console := c\<rparr>)"
    using vm_panic_eq by blast
  ultimately show ?thesis using d r assms(1) by simp
qed

theorem panic_reports_stack_witness:
  "unat (info_ds_depth (panic_info (- 1) sample_vm)) = length (data_stack sample_vm)"
  using panic_reports_stack [of sample_vm sample_env "- 1"] by (simp add: DS_SIZE_def)

text \<open>
  With all 256 cells in use the \<open>uint8_t\<close> depth of the report is 0: the handler is told that the
  stack is empty and gets no cell of it.\<close>
theorem panic_hides_full_stack:
  assumes "sp s = DS_SIZE"
  shows "info_ds_depth (panic_info e s) = 0 \<and> \<not> has_stack_data (panic_info e s) \<and>
    tos (panic_info e s) = 0 \<and> info_stack (panic_info e s) = [0, 0, 0, 0]"
  using assms by (simp add: panic_info_def vm_ds_depth_public_def DS_SIZE_def Let_def)

theorem panic_hides_full_stack_witness:
  "\<not> has_stack_data (panic_info (- 14) (sample_vm\<lparr>DS := replicate 256 7, sp := 256\<rparr>))"
  using panic_hides_full_stack [of "sample_vm\<lparr>DS := replicate 256 7, sp := 256\<rparr>" "- 14"]
  by (simp add: DS_SIZE_def)

section \<open>Data stack\<close>

text \<open>
  Pushing values while there is room and popping as many gives them back in reverse order and
  leaves the stack as it was.\<close>
theorem stack_is_lifo:
  assumes "wf_stacks s" and "length (data_stack s) + length vs \<le> DS_SIZE"
  shows "\<exists>t. bnd (push_all (ds_push E) vs) (\<lambda>_. pop_many (ds_pop E) (length vs)) s = Ret (rev vs) t \<and>
    data_stack t = data_stack s \<and> wf_stacks t"
  using assms by (rule ds.push_all_pop_many)

theorem stack_is_lifo_witness:
  "\<exists>t. bnd (push_all (ds_push sample_env) [1, 2, 3]) (\<lambda>_. pop_many (ds_pop sample_env) 3) sample_vm = Ret [3, 2, 1] t"
proof -
  have "length (data_stack sample_vm) + length [1, 2, 3 :: i32] \<le> DS_SIZE"
    by (simp add: DS_SIZE_def)
  from stack_is_lifo [OF wf_stacks_sample this, of sample_env] show ?thesis
    by (simp only: list.size One_nat_def rev.simps append.simps numeral_3_eq_3 add_Suc_right add_0_right) blast
qed

text \<open>
  A push on a full stack and a pop of an empty one panic with their error code and leave both
  stacks alone; pushing too many values stops with the stack full.\<close>
theorem stack_errors:
  assumes "wf_stacks s"
  shows "(sp s = DS_SIZE \<longrightarrow> (\<exists>t. ds_push E v s = Fail (V4_ERR StackOverflow) t \<and>
        data_stack t = data_stack s \<and> return_stack t = return_stack s)) \<and>
    (sp s = 0 \<longrightarrow> (\<exists>t. ds_pop E s = Fail (V4_ERR StackUnderflow) t \<and>
        data_stack t = data_stack s \<and> return_stack t = return_stack s)) \<and>
    (length (data_stack s) + length vs > DS_SIZE \<longrightarrow>
      (\<exists>t. push_all (ds_push E) vs s = Fail (V4_ERR StackOverflow) t \<and>
        data_stack t = data_stack s @ take (DS_SIZE - sp s) vs))"
proof (intro conjI impI)
  show "\<exists>t. ds_push E v s = Fail (V4_ERR StackOverflow) t \<and> data_stack t = data_stack s \<and> return_stack t = return_stack s"
    if "sp s = DS_SIZE"
    using that panic_stacks [OF assms, of E StackOverflow] by (auto simp: ds_push_def simp del: V4_ERR.simps)
  show "\<exists>t. ds_pop E s = Fail (V4_ERR StackUnderflow) t \<and> data_stack t = data_stack s \<and> return_stack t = return_stack s"
    if "sp s = 0"
    using that panic_stacks [OF assms, of E StackUnderflow] by (auto simp: ds_pop_def simp del: V4_ERR.simps)
  show "\<exists>t. push_all (ds_push E) vs s = Fail (V4_ERR StackOverflow) t \<and>
      data_stack t = data_stack s @ take (DS_SIZE - sp s) vs"
    if "length (data_stack s) + length vs > DS_SIZE"
    using ds.push_all_overflow [OF assms that] assms by (auto simp del: V4_ERR.simps)
qed

theorem stack_errors_witness:
  "\<exists>t. ds_pop sample_env sample_vm = Fail (V4_ERR StackUnderflow) t"
  using stack_errors [of sample_vm sample_env] by auto

text \<open>
  Restoring a snapshot brings back the data stack it was taken of, whatever the machine has
  become, without touching anything but the data stack.\<close>
theorem snapshot_restores:
  assumes "wf_stacks s" and "wf_stacks s'"
    and "vm_ds_snapshot E (Some s) = Ret (Some snap) (Some t)"
  shows "\<exists>ds n. vm_ds_restore E' (Some snap) (Some s') = Ret 0 (Some (s'\<lparr>DS := ds, sp := n\<rparr>)) \<and>
    data_stack (s'\<lparr>DS := ds, sp := n\<rparr>) = data_stack s \<and> wf_stacks (s'\<lparr>DS := ds, sp := n\<rparr>)"
proof (cases "sp s = 0")
  case True
  then have "snap = \<lparr>snap_data = None, snap_depth = 0\<rparr>"
    using assms(3) by (auto simp: vm_ds_snapshot_def null_checked_def on_world_def bnd_def Let_def split: res.splits prod.splits if_splits)
  then have "vm_ds_restore E' (Some snap) (Some s') = Ret 0 (Some (s'\<lparr>DS := DS s', sp := 0\<rparr>))"
    by (simp add: vm_ds_restore_def null_checked_def code_of_def Let_def)
  then show ?thesis
    using True assms(2) by (intro exI conjI) (auto simp: data_stack_def wf_stacks_def)
next
  case False
  then have snap: "snap = \<lparr>snap_data = Some (take (sp s) (DS s)), snap_depth = int (sp s)\<rparr>"
    using assms(3)
    by (auto simp: vm_ds_snapshot_def null_checked_def on_world_def bnd_def Let_def split: res.splits prod.splits if_splits)
  have n: "sp s \<le> 256" "length (DS s) = 256" "length (DS s') = 256"
    using assms(1,2) by (simp_all add: wf_stacks_def DS_SIZE_def)
  let ?ds = "blit (take (sp s) (DS s)) (sp s) (DS s')"
  have "vm_ds_restore E' (Some snap) (Some s') = Ret 0 (Some (s'\<lparr>DS := ?ds, sp := sp s\<rparr>))"
    using n False by (simp add: snap vm_ds_restore_def null_checked_def code_of_def Let_def)
  moreover have "data_stack (s'\<lparr>DS := ?ds, sp := sp s\<rparr>) = data_stack s"
    using n by (simp add: data_stack_def)
  moreover have "wf_stacks (s'\<lparr>DS := ?ds, sp := sp s\<rparr>)"
    using n assms(2) by (simp add: wf_stacks_def DS_SIZE_def)
  ultimately show ?thesis by blast
qed

theorem snapshot_restores_witness:
  "\<exists>t. vm_ds_restore sample_env (Some \<lparr>snap_data = Some [0, 0], snap_depth = 2\<rparr>) (Some sample_vm) = Ret 0 (Some t) \<and>
    data_stack t = [0, 0]"
proof -
  let ?s = "sample_vm\<lparr>sp := 2\<rparr>"
  have ws: "wf_stacks ?s" using wf_stacks_sample by (simp add: wf_stacks_def DS_SIZE_def)
  have "take 2 (replicate DS_SIZE 0) = [0, 0 :: i32]" by (simp add: DS_SIZE_def take_replicate numeral_2_eq_2)
  moreover from this have "vm_ds_snapshot sample_env (Some ?s) =
      Ret (Some \<lparr>snap_data = Some [0, 0], snap_depth = 2\<rparr>) (Some (?s\<lparr>world := 0\<rparr>))"
    by (simp add: vm_ds_snapshot_def null_checked_def on_world_def bnd_def)
  ultimately show ?thesis
    using snapshot_restores [OF ws wf_stacks_sample, of sample_env] by (fastforce simp: data_stack_def)
qed

text \<open>Freeing a snapshot frees the two blocks it was granted, the one of the values when there are values.\<close>
lemma snapshot_freed:
  assumes "vm_ds_snapshot E (Some s) = Ret (Some snap) vm"
  shows "vm_ds_snapshot_free (Some snap) = (if sp s = 0 then [SnapHeader] else [SnapData (take (sp s) (DS s)), SnapHeader])"
  using assms
  by (auto simp: vm_ds_snapshot_free_def vm_ds_snapshot_def null_checked_def on_world_def bnd_def Let_def
      split: res.splits prod.splits if_splits)

section \<open>Memory\<close>

text \<open>
  Outside the MMIO windows the 32-bit access functions work exactly on the aligned words of
  RAM: elsewhere they return the out-of-bounds code, or the alignment code when only the alignment is
  wrong, and change nothing.\<close>
theorem ram_access_errors:
  assumes "ram_only s addr"
  shows "(addressable s addr 4 \<longleftrightarrow> v4_is_in_ram s addr 4 = 0 \<and> v4_is_aligned4 addr = 0) \<and>
    (\<not> addressable s addr 4 \<longrightarrow>
      v4_mem_read32_core addr out s =
        Ret (if v4_is_in_ram s addr 4 = 0 then V4_ERR Unaligned else V4_ERR OobMemory, out) s \<and>
      v4_mem_write32_core addr v s =
        Ret (if v4_is_in_ram s addr 4 = 0 then V4_ERR Unaligned else V4_ERR OobMemory) s)"
  using access_refused(1,2) [OF assms] in_ram_addressable(1) addressable_checks(1,2) by blast

theorem ram_access_errors_witness:
  "v4_mem_write32_core 2 7 sample_vm = Ret (V4_ERR Unaligned) sample_vm \<and>
   v4_mem_write32_core 14 7 sample_vm = Ret (V4_ERR OobMemory) sample_vm"
proof -
  have "ram_only sample_vm 2" "ram_only sample_vm 14"
    by (simp_all add: ram_only_def find_mmio_def)
  from ram_access_errors [OF this(1)] ram_access_errors [OF this(2)] show ?thesis
    by (simp add: addressable_def in_ram_iff)
qed

text \<open>C10: a 32-bit write to RAM is seen by a read of the same address, keeps the value of every other
  word that does not overlap it, and keeps the size of the RAM.\<close>
theorem write_then_read32:
  assumes "wf_vm s" and "ram_only s addr" and "addressable s addr 4"
    and "ram_only s other" and "addressable s other 4"
    and "unat other + 4 \<le> unat addr \<or> unat addr + 4 \<le> unat other"
  shows "\<exists>t. v4_mem_write32_core addr v s = Ret 0 t \<and> wf_vm t \<and>
    v4_mem_read32_core addr out t = Ret (0, v) t \<and>
    (\<exists>x. v4_mem_read32_core other out s = Ret (0, x) s \<and> v4_mem_read32_core other out t = Ret (0, x) t) \<and>
    length (ram_bytes t) = length (ram_bytes s)"
proof -
  note wf = wf_vm_mem [OF assms(1)]
  let ?t = "s\<lparr>mem := Some (st_le32 (ram_bytes s) (unat addr) v)\<rparr>"
  have w: "v4_mem_write32_core addr v s = Ret 0 ?t" by (rule write_ram(1) [OF wf assms(2,3)])
  have wt: "wf_vm ?t" by (rule wf_vm_ram [OF assms(1,3)]) (simp add: le32.length_st)
  have m: "mem s \<noteq> None" using assms(3) by (simp add: addressable_def)
  note r = read_ram(1) [OF wf_vm_mem [OF wt]]
  have "v4_mem_read32_core addr out ?t = Ret (0, v) ?t"
    using r [of addr] assms(2,3) addressable_ram(2) [OF wf assms(3)] m
    by (simp add: addressable_update le32.ld_st)
  moreover have "v4_mem_read32_core other out ?t = Ret (0, ld_le32 (ram_bytes s) (unat other)) ?t"
    using r [of other] assms(4-6) m by (simp add: addressable_update le32.ld_st_disjoint)
  ultimately show ?thesis
    using w wt read_ram(1) [OF wf assms(4,5)] by (intro exI [of _ ?t]) (auto simp: le32.length_st)
qed

theorem write_then_read32_witness:
  "\<exists>t. v4_mem_write32_core 4 0x12345678 sample_vm = Ret 0 t \<and> v4_mem_read32_core 4 0 t = Ret (0, 0x12345678) t"
proof -
  have "ram_only sample_vm a" for a by (simp add: ram_only_def find_mmio_def)
  moreover have "addressable sample_vm 4 4" "addressable sample_vm 8 4"
    by (simp_all add: addressable_def)
  moreover have "unat (8 :: u32) + 4 \<le> unat (4 :: u32) \<or> unat (4 :: u32) + 4 \<le> unat (8 :: u32)" by simp
  ultimately show ?thesis using write_then_read32 [OF wf_sample_vm, of 4 8] by blast
qed

text \<open>
  The widths agree on the byte order: the 32-bit value of an address is made of the two 16-bit
  values, and each of these of two 8-bit values, low half first.\<close>
theorem byte_order_agrees:
  assumes "wf_vm s" and "ram_only s addr" and "addressable s addr 4" and "unat addr + 4 \<le> 2 ^ 32 - 1"
  shows "\<exists>b0 b1 b2 b3 :: u32.
    v4_mem_read8_core addr out s = Ret (0, b0) s \<and> v4_mem_read8_core (addr + 1) out s = Ret (0, b1) s \<and>
    v4_mem_read8_core (addr + 2) out s = Ret (0, b2) s \<and> v4_mem_read8_core (addr + 3) out s = Ret (0, b3) s \<and>
    v4_mem_read16_core addr out s = Ret (0, b0 OR push_bit 8 b1) s \<and>
    v4_mem_read16_core (addr + 2) out s = Ret (0, b2 OR push_bit 8 b3) s \<and>
    v4_mem_read32_core addr out s = Ret (0, b0 OR push_bit 8 b1 OR push_bit 16 b2 OR push_bit 24 b3) s"
proof -
  note wf = wf_vm_mem [OF assms(1)]
  have un: "unat (addr + 1) = unat addr + 1" "unat (addr + 2) = unat addr + 2" "unat (addr + 3) = unat addr + 3"
    using assms(4) by (simp_all add: unat_word_ariths(1))
  have ad: "addressable s addr 1" "addressable s (addr + 1) 1" "addressable s (addr + 2) 1"
    "addressable s (addr + 3) 1" "addressable s addr 2" "addressable s (addr + 2) 2"
    using assms(3) by (auto simp: addressable_def un)
  have half: "(ucast (ld_le16 p i) :: u32) = ucast (p ! i) OR push_bit 8 (ucast (p ! (i + 1)))" for p i
    by (rule bit_eqI) (auto simp: ld_le16_def bit_simps dest: bit_imp_le_length)
  show ?thesis
    using read_ram(2,3) [OF wf] read_ram(1) [OF wf assms(2,3)] ad
    by (simp add: un half) (simp add: ld_le32_def numeral_3_eq_3)
qed

theorem byte_order_agrees_witness:
  "\<exists>b. v4_mem_read16_core 4 0 (sample_vm\<lparr>mem := Some [1, 2, 3, 4, 5, 6, 7, 8], mem_size := 8\<rparr>) = Ret (0, b)
     (sample_vm\<lparr>mem := Some [1, 2, 3, 4, 5, 6, 7, 8], mem_size := 8\<rparr>)"
proof -
  let ?s = "sample_vm\<lparr>mem := Some [1, 2, 3, 4, 5, 6, 7, 8], mem_size := 8\<rparr>"
  have "wf_vm ?s"
    using wf_sample_vm by (simp add: wf_vm_def wf_stacks_def wf_mem_def wf_dict_def wf_buffer_def)
  moreover have "ram_only ?s 4" "addressable ?s 4 4"
    by (simp_all add: ram_only_def find_mmio_def addressable_def)
  ultimately show ?thesis using byte_order_agrees [of ?s 4] by force
qed

text \<open>C12: from a well-formed machine no access of any width has undefined behaviour, and each leaves a
  well-formed machine, MMIO callbacks included.\<close>
theorem memory_access_safe:
  assumes "wf_vm s"
  shows "(\<exists>r t. v4_mem_read32_core addr out s = Ret r t \<and> wf_vm t) \<and>
    (\<exists>e t. v4_mem_write32_core addr x s = Ret e t \<and> wf_vm t) \<and>
    (\<exists>r t. v4_mem_read16_core addr out s = Ret r t \<and> wf_vm t) \<and>
    (\<exists>e t. v4_mem_write16_core addr x s = Ret e t \<and> wf_vm t) \<and>
    (\<exists>r t. v4_mem_read8_core addr out s = Ret r t \<and> wf_vm t) \<and>
    (\<exists>e t. v4_mem_write8_core addr x s = Ret e t \<and> wf_vm t)"
  by (intro conjI access_outcome [OF assms])

theorem memory_access_safe_witness:
  "\<exists>e t. v4_mem_write16_core 15 7 sample_vm = Ret e t \<and> wf_vm t"
  using memory_access_safe [OF wf_sample_vm, of 15 0 7] by blast

text \<open>C31: an aligned 32-bit access inside some window goes to the first registered window that holds the
  address, through its callback and never to RAM; a window without the callback refuses it.\<close>
theorem mmio_first_window:
  assumes "wf_mem s" and "k < nat (mmio_count s)" and "in_window addr (mmio s ! k)"
    and "\<And>j. j < k \<Longrightarrow> \<not> in_window addr (mmio s ! j)" and "4 dvd unat addr"
  shows "v4_mem_read32_core addr out s =
      (case read32 (mmio s ! k) of
         None \<Rightarrow> Ret (V4_ERR OobMemory, out) s
       | Some f \<Rightarrow> (case f (mmio_user (mmio s ! k)) addr out (world s) of
           (e, v, w) \<Rightarrow> Ret (e, v) (s\<lparr>world := w\<rparr>))) \<and>
    v4_mem_write32_core addr x s =
      (case write32 (mmio s ! k) of
         None \<Rightarrow> Ret (V4_ERR OobMemory) s
       | Some f \<Rightarrow> (case f (mmio_user (mmio s ! k)) addr x (world s) of
           (e, w) \<Rightarrow> Ret e (s\<lparr>world := w\<rparr>)))"
proof -
  have "find_mmio s addr = int k"
    using assms(2-4) by (simp add: find_mmio_eq_iff [OF assms(1)])
  moreover have "v4_is_aligned4 addr = 0" using assms(5) by (simp add: aligned4_iff)
  ultimately show ?thesis
    by (simp add: v4_mem_read32_core_def v4_mem_write32_core_def Let_def)
qed

definition sample_mmio :: "nat V4_Mmio" where
  "sample_mmio = \<lparr>mmio_base = 0x100, mmio_size = 8, read32 = Some (\<lambda>u a out w. (0, word_of_nat w, w)),
     write32 = None, mmio_user = 0\<rparr>"

theorem mmio_first_window_witness:
  "v4_mem_write32_core 0x104 1 (sample_vm\<lparr>mmio := sample_mmio # replicate 15 zero_mmio, mmio_count := 1\<rparr>) =
     Ret (V4_ERR OobMemory) (sample_vm\<lparr>mmio := sample_mmio # replicate 15 zero_mmio, mmio_count := 1\<rparr>)"
proof -
  let ?s = "sample_vm\<lparr>mmio := sample_mmio # replicate 15 zero_mmio, mmio_count := 1\<rparr>"
  have "wf_mem ?s" by (simp add: wf_mem_def wf_buffer_def V4_MAX_MMIO_def)
  then show ?thesis
    using mmio_first_window [of ?s 0 "0x104"] by (simp add: in_window_def sample_mmio_def)
qed

section \<open>Dictionary\<close>

text \<open>C11: registering a word with room for it returns its index; afterwards the word is stored there, its
  name is found at that index, and the dictionary of names is the old one with the name appended, so
  every other name is found where it was.\<close>
theorem register_then_find:
  assumes "dict_inv s" and "word_room E c len n s"
  shows "\<exists>t. vm_register_word E (Some n) (Some c) len (Some s) = Ret (word_count s) (Some t) \<and> dict_inv t \<and>
    vm_find_word (Some t) (Some n) = Some (word_count s) \<and>
    (\<exists>w. vm_get_word (Some t) (word_count s) = Some w \<and> w_code w = Some c \<and> w_code_len w = len) \<and>
    dict_names t = dict_names s @ [Some n] \<and>
    (\<forall>m. m \<noteq> n \<and> c_str m = m \<longrightarrow> vm_find_word (Some t) (Some m) = vm_find_word (Some s) (Some m))"
proof -
  have s: "wf_dict s" "names_ok s" and n: "c_str n = n"
    and room: "word_count s < int V4_MAX_WORDS" "name_fits E (Some n) s" "0 < len" "len \<le> int (length c)"
    using assms by (simp_all add: dict_inv_def word_room_def)
  obtain t np where t: "vm_register_word E (Some n) (Some c) len (Some s) = Ret (word_count s) (Some t)"
      "wf_dict t" "names_ok t" "dict_names t = dict_names s @ [Some n]"
    and ws: "dict_words t = dict_words s @ [\<lparr>w_name = np, w_code = Some c, w_code_len = len\<rparr>]"
    and fr: "\<exists>ar w. t = s\<lparr>words := words t, word_count := word_count s + 1, arena := ar, world := w\<rparr>"
    using register_outcome [OF s room] n by auto
  from fr obtain ar w where "t = s\<lparr>words := words t, word_count := word_count s + 1, arena := ar, world := w\<rparr>"
    by blast
  from arg_cong [OF this, of word_count] have wc: "word_count t = word_count s + 1" by simp
  have pos: "0 \<le> word_count s" "length (dict_names s) = nat (word_count s)"
    using s(1) by (simp_all add: wf_dict_def dict_names_def)
  have find: "vm_find_word (Some t) (Some m) = Some (last_index (dict_names t) (c_str m))" for m
    by (rule find_word_names [OF t(2,3)])
  have "vm_find_word (Some t) (Some n) = Some (word_count s)"
    using find [of n] pos n by (simp add: t(4) last_index_simps)
  moreover have "vm_find_word (Some t) (Some m) = vm_find_word (Some s) (Some m)" if "m \<noteq> n" "c_str m = m" for m
    using find [of m] find_word_names [OF s, of m] that by (simp add: t(4) last_index_simps)
  moreover have "words t ! nat (word_count s) = \<lparr>w_name = np, w_code = Some c, w_code_len = len\<rparr>"
  proof -
    have "nat (word_count t) = Suc (nat (word_count s))" using wc pos by simp
    then have "dict_words t ! nat (word_count s) = words t ! nat (word_count s)"
      by (simp add: dict_words_def)
    moreover have "length (dict_words s) = nat (word_count s)" using s(1) by simp
    ultimately show ?thesis using ws by (metis nth_append_length)
  qed
  then have "vm_get_word (Some t) (word_count s) = Some \<lparr>w_name = np, w_code = Some c, w_code_len = len\<rparr>"
    using wc pos by (simp add: vm_get_word_def)
  ultimately show ?thesis
    using t by (intro exI [of _ t]) (simp add: dict_inv_def)
qed

theorem register_then_find_witness:
  "\<exists>t. vm_register_word sample_env (Some ''DUP2'') (Some [1, 1, 0x51]) 3 (Some sample_vm) = Ret 0 (Some t) \<and>
    vm_find_word (Some t) (Some ''DUP2'') = Some 0"
proof -
  have "dict_inv sample_vm"
    using wf_sample_vm by (simp add: dict_inv_def wf_vm_def names_ok_def dict_words_def)
  moreover have "word_room sample_env [1, 1, 0x51] 3 ''DUP2'' sample_vm"
    by (simp add: word_room_def name_fits_def V4_MAX_WORDS_def c_str_def)
  ultimately show ?thesis using register_then_find by fastforce
qed

text \<open>C15: the search returns the newest definition: after any sequence of successful registrations of named
  and anonymous words, each with a body of its own, a name is found at the index of its last registration,
  and the word there has the body and the length of that registration.
\<close>
theorem find_newest_definition:
  assumes "dict_inv s" and "all_room (entry_room E) (define_word E) (ds @ (Some n, c, len) # es) s"
    and "\<forall>(m, b) \<in> set es. map_option c_str m \<noteq> Some n" and "c_str n = n"
  shows "the (vm_find_word (Some (fold (define_word E) (ds @ (Some n, c, len) # es) s)) (Some n)) =
      int (length (dict_names s) + length ds) \<and>
    (\<exists>w. vm_get_word (Some (fold (define_word E) (ds @ (Some n, c, len) # es) s)) (int (length (dict_names s) + length ds)) = Some w \<and>
      w_code w = Some c \<and> w_code_len w = len)"
proof -
  have "length (dict_entries s) = length (dict_names s)" by (simp flip: names_of_entries)
  then show ?thesis using dict.lookup_after_add_words [OF assms] by (auto simp: body_at_def split: option.splits)
qed

theorem find_newest_definition_witness:
  "\<exists>w. the (vm_find_word (Some (fold (define_word sample_env)
      [(Some ''A'', [0x51], 1), (None, [0x10, 0x51], 2), (Some ''A'', [0x01, 0x10, 0x51], 3), (Some ''B'', [0x51], 1)] sample_vm)) (Some ''A'')) = 2 \<and>
    vm_get_word (Some (fold (define_word sample_env)
      [(Some ''A'', [0x51], 1), (None, [0x10, 0x51], 2), (Some ''A'', [0x01, 0x10, 0x51], 3), (Some ''B'', [0x51], 1)] sample_vm)) 2 = Some w \<and>
    w_code w = Some [0x01, 0x10, 0x51] \<and> w_code_len w = 3"
proof -
  have inv: "dict_inv sample_vm"
    using wf_sample_vm by (simp add: dict_inv_def wf_vm_def names_ok_def dict_words_def)
  have "all_room (entry_room sample_env) (define_word sample_env)
      ([(Some ''A'', [0x51], 1), (None, [0x10, 0x51], 2)] @ (Some ''A'', [0x01, 0x10, 0x51], 3) # [(Some ''B'', [0x51], 1)]) sample_vm"
    by (simp add: entry_room_def name_fits_def V4_MAX_WORDS_def define_word_def vm_register_word_def
        null_checked_def returning_def register_word_def copy_name_def on_world_def Let_def)
  from find_newest_definition [OF inv this] show ?thesis
    by (simp add: c_str_def dict_names_def dict_words_def)
qed

text \<open>
  Registration refuses a null machine, null code, an empty body and a full dictionary with the
  documented codes, and keeps every registered word.\<close>
theorem register_errors:
  shows "vm_register_word E name code len None = Ret (V4_ERR InvalidArg) None \<and>
    vm_register_word E name None len vm = Ret (V4_ERR InvalidArg) vm \<and>
    (len \<le> 0 \<longrightarrow> vm_register_word E name code len vm = Ret (V4_ERR InvalidArg) vm) \<and>
    (0 < len \<and> word_count s \<ge> int V4_MAX_WORDS \<longrightarrow>
      (\<exists>w c. vm_register_word E name (Some body) len (Some s) =
        Ret (V4_ERR DictionaryFull) (Some (s\<lparr>world := w, console := c\<rparr>))))"
  using register_full [of s len E name body] register_refused(1) [of None len E name vm]
    register_refused(1) [of code len E name vm] register_refused(2) [of E name code len]
  by (simp del: V4_ERR.simps)

theorem register_errors_witness:
  "vm_register_word sample_env None (Some [0x51]) 0 (Some sample_vm) = Ret (V4_ERR InvalidArg) (Some sample_vm)"
  using register_errors [of sample_env None "Some [0x51]" 0 "Some sample_vm"] by simp

text \<open>
  From a valid configuration \<open>vm_create\<close> yields a well-formed machine with empty stacks and an
  empty dictionary when memory is granted, and null otherwise.\<close>
theorem create_is_wellformed:
  assumes "wf_config c" and "malloc_ok E n w = (ok, w1)"
  shows "\<exists>r. vm_create E n (Some c) w = Ret r w1 \<and> (r = None \<longleftrightarrow> \<not> ok) \<and>
    (\<forall>s. r = Some s \<longrightarrow> wf_vm s \<and> data_stack s = [] \<and> return_stack s = [] \<and> word_count s = 0 \<and>
      arena s = cfg_arena c \<and> mem s = cfg_mem c)"
  by (rule create_outcome [OF assms(1), of E n w]) (use assms(2) in auto)

theorem create_is_wellformed_witness:
  "\<exists>s. vm_create sample_env 8000 (Some \<lparr>cfg_mem = Some [1, 2, 3, 4], cfg_mem_size = 4, cfg_mmio = None,
      cfg_mmio_count = 0, cfg_arena = Some sample_arena\<rparr>) 0 = Ret (Some s) 0 \<and> wf_vm s"
proof -
  let ?c = "\<lparr>cfg_mem = Some [1, 2, 3, 4], cfg_mem_size = 4, cfg_mmio = None, cfg_mmio_count = 0,
    cfg_arena = Some sample_arena\<rparr> :: nat VmConfig"
  have "wf_config ?c" by (simp add: wf_config_def wf_buffer_def wf_arena_def sample_arena_def)
  then show ?thesis
    using create_is_wellformed [of ?c sample_env 8000 0 True 0] by auto
qed

end
