(* ===== verification/V4_Exec_Props.thy ===== *)
theory V4_Exec_Props
  imports V4_Runs V4_Effects V4_Data_Props
begin

text \<open>
  The properties of the interpreter, each with a witness on a concrete machine: the arithmetic,
  comparison and stack instructions, locals, calls, decoding, jumps, and whole runs.
\<close>

section \<open>A sample machine with values on its stack\<close>

definition with_data :: "i32 list \<Rightarrow> nat machine" where
  "with_data vs = sample_vm\<lparr>DS := vs @ replicate (DS_SIZE - length vs) 0, sp := length vs\<rparr>"

lemma with_data_simps [simp]:
  "length vs \<le> DS_SIZE \<Longrightarrow> wf_stacks (with_data vs)" "top_first (with_data vs) = rev vs" "rp (with_data vs) = 0"
  "fp (with_data vs) = None"
  using wf_stacks_sample by (simp_all add: with_data_def wf_stacks_def top_first_def data_stack_def)

lemma sint_numerals [simp]: "sint (2147483647 :: i32) = 2147483647" "sint (2147483648 :: i32) = -2147483648"
  by simp_all

section \<open>Arithmetic\<close>

fun signed_value :: "Op \<Rightarrow> int \<Rightarrow> int \<Rightarrow> int" where
  "signed_value Op_ADD a b = a + b"
| "signed_value Op_SUB a b = a - b"
| "signed_value Op_MUL a b = a * b"
| "signed_value _ a b = 0"

text \<open>C25: \<open>ADD\<close>, \<open>SUB\<close> and \<open>MUL\<close> replace their two operands by a result whose signed reading is the exact sum,
  difference or product, when an \<open>int32_t\<close> holds it; when none does, the behaviour is undefined (signed
  overflow), not a wrap-around.
\<close>
theorem arithmetic_exact:
  assumes "op \<in> {Op_ADD, Op_SUB, Op_MUL}" and s: "wf_stacks s" "top_first s = b # a # xs"
  shows "if int32_min \<le> signed_value op (sint a) (sint b) \<and> signed_value op (sint a) (sint b) \<le> int32_max
    then \<exists>t v. exec_binary E op s = Ret () t \<and> wf_stacks t \<and> top_first t = v # xs \<and>
      sint v = signed_value op (sint a) (sint b) \<and> return_stack t = return_stack s
    else exec_binary E op s = Undef SignedOverflow"
proof -
  let ?r = "signed_value op (sint a) (sint b)"
  have m: "binary_result E op a b = exactly ?r" using assms(1) by auto
  show ?thesis
  proof (cases "exact32 ?r")
    case (Some v)
    then have "binary_result E op a b t = Ret v t" for t using m by (simp add: exactly_def)
    then obtain t where "exec_binary E op s = Ret () t" "top_first t = v # xs" "return_stack t = return_stack s" "wf_stacks t"
      using effect_D [OF effect_binary s] by metis
    then show ?thesis using Some sint_exact32 [OF Some] by (auto simp: exact32_Some_iff)
  next
    case None
    let ?s = "s\<lparr>sp := sp s - 1\<rparr>"
    have "exec_binary E op s = Undef SignedOverflow"
      using pop_step [OF s] pop_step [of ?s a xs E] m None by (auto simp: exec_binary_def exactly_def)
    then show ?thesis using None by (auto simp: exact32_def split: if_splits)
  qed
qed

theorem arithmetic_exact_witness:
  "(\<exists>t v. exec_binary sample_env Op_SUB (with_data [7, 9]) = Ret () t \<and> top_first t = [v] \<and> sint v = -2) \<and>
   exec_binary sample_env Op_ADD (with_data [2147483647, 1]) = Undef SignedOverflow"
  using arithmetic_exact [of Op_SUB "with_data [7, 9]" 9 7 "[]" sample_env]
    arithmetic_exact [of Op_ADD "with_data [2147483647, 1]" 1 2147483647 "[]" sample_env]
  by (auto simp: DS_SIZE_def int32_min_def int32_max_def)

text \<open>C26: \<open>DIV\<close> and \<open>MOD\<close> divide towards zero: the quotient and the remainder they leave satisfy the division
  law, the remainder is smaller than the divisor and has the sign of the dividend.
\<close>
theorem division_law:
  assumes s: "wf_stacks s" "top_first s = b # a # xs" and b: "b \<noteq> 0" and fits: "\<not> (sint a = int32_min \<and> sint b = -1)"
  shows "\<exists>t u q r. exec_binary E Op_DIV s = Ret () t \<and> top_first t = q # xs \<and>
    exec_binary E Op_MOD s = Ret () u \<and> top_first u = r # xs \<and>
    sint a = sint q * sint b + sint r \<and> \<bar>sint r\<bar> < \<bar>sint b\<bar> \<and> (sint r = 0 \<or> sgn (sint r) = sgn (sint a))"
proof -
  let ?A = "sint a" and ?B = "sint b"
  have B: "?B \<noteq> 0" using b uint_sint [of b] by (metis take_bit_of_0 unsigned_eq_0_iff)
  have q: "int32_min \<le> ?A sdiv ?B \<and> ?A sdiv ?B \<le> int32_max"
    using B fits by (rule quotient_fits)
  have r: "int32_min \<le> ?A smod ?B \<and> ?A smod ?B \<le> int32_max" "\<bar>?A smod ?B\<bar> < \<bar>?B\<bar>"
      "?A smod ?B = 0 \<or> sgn (?A smod ?B) = sgn ?A"
    using B by (rule remainder_fits)+
  define Q R where "Q = (word_of_int (?A sdiv ?B) :: i32)" and "R = (word_of_int (?A smod ?B) :: i32)"
  have Q: "exact32 (?A sdiv ?B) = Some Q" and R: "exact32 (?A smod ?B) = Some R"
    using q r(1) by (simp_all add: exact32_def Q_def R_def)
  have "binary_result E Op_DIV a b t = Ret Q t" and "binary_result E Op_MOD a b t = Ret R t" for t
    using b Q by (simp_all add: exactly_def bnd_def R_def)
  then obtain t u where "exec_binary E Op_DIV s = Ret () t" "top_first t = Q # xs"
      "exec_binary E Op_MOD s = Ret () u" "top_first u = R # xs"
    using effect_D [OF effect_binary s] by metis
  moreover have "?A = sint Q * ?B + sint R"
    using sint_exact32 [OF Q] sint_exact32 [OF R] sdiv_mult_smod_eq [of ?A ?B] by simp
  ultimately show ?thesis using sint_exact32 [OF R] r by metis
qed

theorem division_law_witness:
  "\<exists>t u q r. exec_binary sample_env Op_DIV (with_data [-7, 2]) = Ret () t \<and> top_first t = [q] \<and>
    exec_binary sample_env Op_MOD (with_data [-7, 2]) = Ret () u \<and> top_first u = [r] \<and>
    -7 = sint q * 2 + sint r \<and> \<bar>sint r\<bar> < 2"
  using division_law [of "with_data [-7, 2]" 2 "-7" "[]" sample_env]
  by (simp add: DS_SIZE_def int32_min_def) blast

text \<open>C39: what division refuses: a zero divisor panics with \<open>DivByZero\<close> after both operands are popped, for all
  four division instructions; the most negative dividend divided by -1 is undefined for \<open>DIV\<close> and \<open>MOD\<close>,
  while \<open>DIVU\<close> and \<open>MODU\<close> have a result for every divisor but zero.
\<close>
theorem division_errors:
  assumes s: "wf_stacks s" "top_first s = b # a # xs"
  shows "(b = 0 \<longrightarrow> (\<forall>op \<in> {Op_DIV, Op_MOD, Op_DIVU, Op_MODU}. \<exists>t.
        exec_binary E op s = Fail (V4_ERR DivByZero) t \<and> top_first t = xs)) \<and>
    (sint a = int32_min \<and> sint b = -1 \<longrightarrow> (\<forall>op \<in> {Op_DIV, Op_MOD}. exec_binary E op s = Undef SignedOverflow)) \<and>
    (b \<noteq> 0 \<longrightarrow> effect (exec_binary E Op_DIVU) (b # a # xs) ((a div b) # xs) \<and>
       effect (exec_binary E Op_MODU) (b # a # xs) ((a mod b) # xs))"
proof (intro conjI impI ballI)
  obtain s1 where s1: "ds_pop E s = Ret b s1" "top_first s1 = a # xs" "wf_stacks s1" using pop_to [OF s] .
  obtain s2 where s2: "ds_pop E s1 = Ret a s2" "top_first s2 = xs" "wf_stacks s2" using pop_to [OF s1(3,2)] .
  have run: "exec_binary E op s = bnd (binary_result E op a b) (ds_push E) s2" for op
    using s1(1) s2(1) by (simp add: exec_binary_def)
  show "\<exists>t. exec_binary E op s = Fail (V4_ERR DivByZero) t \<and> top_first t = xs"
    if "b = 0" "op \<in> {Op_DIV, Op_MOD, Op_DIVU, Op_MODU}" for op
  proof -
    have m: "binary_result E op a b = panic E DivByZero" using that by auto
    obtain t where "bnd (panic E DivByZero) (ds_push E) s2 = Fail (V4_ERR DivByZero) t" "top_first t = top_first s2"
      using panic_bnd [OF s2(3), of E DivByZero] .
    then show ?thesis using s2(2) unfolding run m by blast
  qed
  show "exec_binary E op s = Undef SignedOverflow"
    if "sint a = int32_min \<and> sint b = -1" "op \<in> {Op_DIV, Op_MOD}" for op
  proof -
    have "b \<noteq> 0" using that(1) by auto
    then show ?thesis using that run [of op] by (auto simp: exactly_def exact32_def int32_min_def int32_max_def)
  qed
  show "effect (exec_binary E Op_DIVU) (b # a # xs) ((a div b) # xs)" if "b \<noteq> 0"
    using that by (intro effect_binary) simp
  show "effect (exec_binary E Op_MODU) (b # a # xs) ((a mod b) # xs)" if "b \<noteq> 0"
    using that by (intro effect_binary) simp
qed

theorem division_errors_witness:
  "\<exists>t. exec_binary sample_env Op_MOD (with_data [3, 5, 0]) = Fail (V4_ERR DivByZero) t \<and> top_first t = [3]"
  using division_errors [of "with_data [3, 5, 0]" 0 5 "[3]" sample_env] by (simp add: DS_SIZE_def)

text \<open>
  Comparisons leave -1 for true and 0 for false; \<open>LT\<close>, \<open>LE\<close>, \<open>GT\<close>, \<open>GE\<close> compare the signed readings of the
  operands, \<open>LTU\<close> and \<open>LEU\<close> the unsigned ones.
\<close>
theorem comparisons:
  "effect (exec_binary E Op_EQ) (b # a # xs) ((if a = b then -1 else 0) # xs) \<and>
   effect (exec_binary E Op_NE) (b # a # xs) ((if a = b then 0 else -1) # xs) \<and>
   effect (exec_binary E Op_LT) (b # a # xs) ((if sint a < sint b then -1 else 0) # xs) \<and>
   effect (exec_binary E Op_LE) (b # a # xs) ((if sint a \<le> sint b then -1 else 0) # xs) \<and>
   effect (exec_binary E Op_GT) (b # a # xs) ((if sint a > sint b then -1 else 0) # xs) \<and>
   effect (exec_binary E Op_GE) (b # a # xs) ((if sint a \<ge> sint b then -1 else 0) # xs) \<and>
   effect (exec_binary E Op_LTU) (b # a # xs) ((if uint a < uint b then -1 else 0) # xs) \<and>
   effect (exec_binary E Op_LEU) (b # a # xs) ((if uint a \<le> uint b then -1 else 0) # xs)"
  by (intro conjI effect_binary; simp add: truth_def V4_TRUE_def V4_FALSE_def word_less_def word_le_def)

text \<open>
  A two-operand instruction with a single value on the stack panics with \<open>StackUnderflow\<close>, and that
  value is lost: the first pop has taken it.
\<close>
theorem underflow_consumes_operand:
  assumes s: "wf_stacks s" "top_first s = [v]"
  shows "\<exists>t. exec_binary E op s = Fail (V4_ERR StackUnderflow) t \<and> top_first t = [] \<and> return_stack t = return_stack s"
proof -
  obtain s1 where s1: "ds_pop E s = Ret v s1" "top_first s1 = []" "wf_stacks s1" "return_stack s1 = return_stack s"
    using pop_to [OF s] .
  obtain t where "ds_pop E s1 = Fail (V4_ERR StackUnderflow) t" "top_first t = []" "return_stack t = return_stack s1"
    using pop_none [OF s1(3,2)] .
  with s1 show ?thesis by (simp add: exec_binary_def)
qed

theorem underflow_consumes_operand_witness:
  "\<exists>t. exec_binary sample_env Op_ADD (with_data [4]) = Fail (V4_ERR StackUnderflow) t \<and> top_first t = []"
  using underflow_consumes_operand [of "with_data [4]" 4 sample_env Op_ADD] by (simp add: DS_SIZE_def) blast

section \<open>Stack words and locals\<close>

text \<open>
  The stack words do what Forth says of them: \<open>DUP ( a -- a a )\<close>, \<open>DROP ( a -- )\<close>, \<open>SWAP ( a b -- b a )\<close>,
  \<open>OVER ( a b -- a b a )\<close>, and \<open>SELECT ( flag b a -- a|b )\<close>, whose result is the top value exactly for a true
  flag; none of them touches the return stack. (Stacks are written with the top first.)
\<close>
theorem stack_words:
  assumes "length xs + 2 < DS_SIZE"
  shows "effect (exec_DUP E) (a # xs) (a # a # xs) \<and> effect (exec_DROP E) (a # xs) xs \<and>
    effect (exec_SWAP E) (b # a # xs) (a # b # xs) \<and> effect (exec_OVER E) (b # a # xs) (a # b # a # xs) \<and>
    effect (exec_SELECT E) (a # b # flag # xs) ((if flag \<noteq> 0 then a else b) # xs)"
  by (intro conjI effect_shuffles) (use assms in simp_all)

theorem stack_words_witness:
  "effect (exec_OVER sample_env) [2, 1] [1, 2, 1]"
  using stack_words [of "[]" sample_env 1 2 0] by (simp add: DS_SIZE_def)

text \<open>The five operations on a local.\<close>

definition local_ops :: "'d env \<Rightarrow> nat \<Rightarrow> ('d machine, unit) act list" where
  "local_ops E idx = [local_get E idx, local_set E idx, local_tee E idx, local_inc E idx, local_dec E idx]"

lemma local_ops_refused:
  assumes s: "wf_stacks s" and m: "m \<in> set (local_ops E idx)"
    and bad: "local_cell E idx s = panic E err s"
  shows "\<exists>t. m s = Fail (V4_ERR err) t \<and> top_first t = top_first s \<and> return_stack t = return_stack s"
proof -
  obtain t where t: "panic E err s = (Fail (V4_ERR err) t :: (_, nat) res)" "top_first t = top_first s" "return_stack t = return_stack s"
    using panic_to [OF s] .
  have "m s = Fail (V4_ERR err) t"
    using m bad t(1) by (auto simp: local_ops_def local_get_def local_set_def local_tee_def local_inc_def local_dec_def bnd_def)
  then show ?thesis using t by blast
qed

text \<open>C27: a local is a variable: writing it from the stack and reading it back gives the value, changes that
  cell of the frame and no other; and every access outside the frame (no frame, or a cell above the return
  stack's top), be it a read, a write, a write that keeps the value, an increment or a decrement, is refused
  with an error and changes neither stack.
\<close>
theorem locals_are_variables:
  assumes s: "wf_stacks s" "top_first s = v # xs"
  shows "case fp s of
      None \<Rightarrow> \<forall>m \<in> set (local_ops E idx). \<exists>t. m s = Fail (V4_ERR InvalidArg) t \<and> top_first t = v # xs \<and>
        return_stack t = return_stack s
    | Some f \<Rightarrow>
        if f + idx < rp s
        then \<exists>t. bnd (local_set E idx) (\<lambda>_. local_get E idx) s = Ret () t \<and> top_first t = v # xs \<and>
          return_stack t = (return_stack s)[f + idx := v]
        else \<forall>m \<in> set (local_ops E idx). \<exists>t. m s = Fail (V4_ERR StackUnderflow) t \<and> top_first t = v # xs \<and>
          return_stack t = return_stack s"
proof (cases "fp s")
  case None
  then have "local_cell E idx s = panic E InvalidArg s" by (simp add: local_cell_def)
  then show ?thesis using None local_ops_refused [OF s(1)] s(2) by (simp del: V4_ERR.simps)
next
  case (Some f)
  show ?thesis
  proof (cases "f + idx < rp s")
    case True
    then show ?thesis using Some local_set_get [OF s Some True] by simp
  next
    case False
    then have "local_cell E idx s = panic E StackUnderflow s" using Some by (simp add: local_cell_def)
    then show ?thesis using Some False local_ops_refused [OF s(1)] s(2) by (simp del: V4_ERR.simps)
  qed
qed

definition with_frame :: "nat machine" where
  "with_frame = (with_data [7])\<lparr>rp := 3, fp := Some 1\<rparr>"

theorem locals_are_variables_witness:
  "(\<exists>t. bnd (local_set sample_env 1) (\<lambda>_. local_get sample_env 1) with_frame = Ret () t \<and> top_first t = [7]) \<and>
   (\<exists>t. local_set sample_env 2 with_frame = Fail (V4_ERR StackUnderflow) t) \<and>
   (\<exists>t. local_get sample_env 2 with_frame = Fail (V4_ERR StackUnderflow) t) \<and>
   (\<exists>t. local_inc sample_env 0 (with_data [7]) = Fail (V4_ERR InvalidArg) t)"
proof -
  have "wf_stacks with_frame" "top_first with_frame = [7]"
    using with_data_simps(1,2) [of "[7]"]
    by (simp_all add: with_frame_def wf_stacks_def RS_SIZE_def DS_SIZE_def top_first_def data_stack_def)
  from locals_are_variables [OF this, of sample_env 1] locals_are_variables [OF this, of sample_env 2]
    locals_are_variables [of "with_data [7]" 7 "[]" sample_env 0]
  show ?thesis by (auto simp: with_frame_def local_ops_def DS_SIZE_def simp del: V4_ERR.simps)
qed

text \<open>
  \<open>>R\<close> then \<open>R>\<close> brings the value back and leaves both stacks as they were, when the return stack has room;
  when it is full, \<open>>R\<close> panics and the value is lost from the data stack.\<close>
theorem to_r_from_r:
  assumes s: "wf_stacks s" "top_first s = v # xs"
  shows "if rp s < RS_SIZE
    then \<exists>t. bnd (exec_TOR E) (\<lambda>_. exec_FROMR E) s = Ret () t \<and> top_first t = v # xs \<and> return_stack t = return_stack s
    else \<exists>t. exec_TOR E s = Fail (V4_ERR StackOverflow) t \<and> top_first t = xs \<and> return_stack t = return_stack s"
proof -
  obtain s1 where s1: "ds_pop E s = Ret v s1" "top_first s1 = xs" "wf_stacks s1" "return_stack s1 = return_stack s"
    using pop_to [OF s] .
  have l: "length xs < DS_SIZE" using top_first_length [OF s] by simp
  have rp: "rp s1 = rp s" using length_return_stack [OF s1(3)] length_return_stack [OF s(1)] s1(4) by simp
  show ?thesis
  proof (cases "rp s < RS_SIZE")
    case True
    define u where "u = s1\<lparr>RS := (RS s1)[rp s1 := v], rp := rp s1 + 1\<rparr>"
    have push: "rs_push E v s1 = Ret () u" using True rp by (simp add: rs_push_def u_def)
    define w where "w = u\<lparr>rp := rp u - 1\<rparr>"
    have pop: "rs_pop E u = Ret v w"
      using True rp s1(3) by (simp add: rs_pop_def u_def w_def wf_stacks_def)
    have w: "wf_stacks w" "top_first w = xs" "return_stack w = return_stack s"
      using True rp s1 by (auto simp: w_def u_def wf_stacks_def top_first_def data_stack_def return_stack_def)
    obtain t where "ds_push E v w = Ret () t" "top_first t = v # xs" "return_stack t = return_stack w"
      using effect_D [OF effect_push [OF l] w(1,2)] by metis
    then show ?thesis using True s1(1) push pop w(3) by (auto simp: exec_TOR_def exec_FROMR_def bnd_def)
  next
    case False
    obtain t where "panic E StackOverflow s1 = (Fail (V4_ERR StackOverflow) t :: (_, unit) res)" "top_first t = top_first s1"
        "return_stack t = return_stack s1"
      using panic_to [OF s1(3)] .
    then show ?thesis using False s1 rp by (simp add: exec_TOR_def rs_push_def)
  qed
qed

theorem to_r_from_r_witness:
  "\<exists>t. bnd (exec_TOR sample_env) (\<lambda>_. exec_FROMR sample_env) (with_data [5, 6]) = Ret () t \<and> top_first t = [6, 5]"
  using to_r_from_r [of "with_data [5, 6]" 6 "[5]" sample_env] by (auto simp: DS_SIZE_def RS_SIZE_def)

end
