(* ===== verification/V4_Refine.thy ===== *)
theory V4_Refine
  imports V4_Runs V4_Effects
begin

text \<open>
  An abstract machine on a list, for straight-line code, and the encoding of its programs as bytecode.
  The loop of V4 run on the encoding does on the data stack what the abstract machine does on its list:
  the encoding and decoding of operands, the dispatch and the stack discipline agree.
\<close>

section \<open>The abstract machine\<close>

datatype abs_instr = Push i32 | Prim Op

text \<open>The instructions on a list with the top first; \<^term>\<open>None\<close> where one of V4's would fail or be undefined.\<close>

definition unary :: "(i32 \<Rightarrow> i32 option) \<Rightarrow> i32 list \<Rightarrow> i32 list option" where
  "unary f xs = (case xs of a # r \<Rightarrow> map_option (\<lambda>v. v # r) (f a) | [] \<Rightarrow> None)"

definition binary :: "(i32 \<Rightarrow> i32 \<Rightarrow> i32 option) \<Rightarrow> i32 list \<Rightarrow> i32 list option" where
  "binary f xs = (case xs of b # a # r \<Rightarrow> map_option (\<lambda>v. v # r) (f a b) | _ \<Rightarrow> None)"

definition flag :: "bool \<Rightarrow> i32 option" where
  "flag b = Some (if b then -1 else 0)"

definition abs_prim :: "Op \<Rightarrow> i32 list \<Rightarrow> i32 list option" where
  "abs_prim x xs = (case x of
      Op_DUP \<Rightarrow> (case xs of a # r \<Rightarrow> Some (a # a # r) | [] \<Rightarrow> None)
    | Op_DROP \<Rightarrow> (case xs of a # r \<Rightarrow> Some r | [] \<Rightarrow> None)
    | Op_SWAP \<Rightarrow> (case xs of b # a # r \<Rightarrow> Some (a # b # r) | _ \<Rightarrow> None)
    | Op_OVER \<Rightarrow> (case xs of b # a # r \<Rightarrow> Some (a # b # a # r) | _ \<Rightarrow> None)
    | Op_SELECT \<Rightarrow> (case xs of a # b # c # r \<Rightarrow> Some ((if c \<noteq> 0 then a else b) # r) | _ \<Rightarrow> None)
    | Op_ADD \<Rightarrow> binary (\<lambda>a b. exact32 (sint a + sint b)) xs
    | Op_SUB \<Rightarrow> binary (\<lambda>a b. exact32 (sint a - sint b)) xs
    | Op_MUL \<Rightarrow> binary (\<lambda>a b. exact32 (sint a * sint b)) xs
    | Op_DIV \<Rightarrow> binary (\<lambda>a b. if b = 0 then None else exact32 (sint a sdiv sint b)) xs
    | Op_MOD \<Rightarrow> binary (\<lambda>a b. if b = 0 then None
        else map_option (\<lambda>_. word_of_int (sint a smod sint b)) (exact32 (sint a sdiv sint b))) xs
    | Op_DIVU \<Rightarrow> binary (\<lambda>a b. if b = 0 then None else Some (a div b)) xs
    | Op_MODU \<Rightarrow> binary (\<lambda>a b. if b = 0 then None else Some (a mod b)) xs
    | Op_EQ \<Rightarrow> binary (\<lambda>a b. flag (a = b)) xs
    | Op_NE \<Rightarrow> binary (\<lambda>a b. flag (a \<noteq> b)) xs
    | Op_LT \<Rightarrow> binary (\<lambda>a b. flag (sint a < sint b)) xs
    | Op_LE \<Rightarrow> binary (\<lambda>a b. flag (sint a \<le> sint b)) xs
    | Op_GT \<Rightarrow> binary (\<lambda>a b. flag (sint a > sint b)) xs
    | Op_GE \<Rightarrow> binary (\<lambda>a b. flag (sint a \<ge> sint b)) xs
    | Op_LTU \<Rightarrow> binary (\<lambda>a b. flag (a < b)) xs
    | Op_LEU \<Rightarrow> binary (\<lambda>a b. flag (a \<le> b)) xs
    | Op_AND \<Rightarrow> binary (\<lambda>a b. Some (a AND b)) xs
    | Op_OR \<Rightarrow> binary (\<lambda>a b. Some (a OR b)) xs
    | Op_XOR \<Rightarrow> binary (\<lambda>a b. Some (a XOR b)) xs
    | Op_SHL \<Rightarrow> binary (\<lambda>a k. if sint a < 0 \<or> sint a * 2 ^ unat (k AND 0x1F) \<ge> 2 ^ 32 then None
        else Some (push_bit (unat (k AND 0x1F)) a)) xs
    | Op_SHR \<Rightarrow> binary (\<lambda>a k. Some (drop_bit (unat (k AND 0x1F)) a)) xs
    | Op_SAR \<Rightarrow> binary (\<lambda>a k. Some (signed_drop_bit (unat (k AND 0x1F)) a)) xs
    | Op_INVERT \<Rightarrow> unary (\<lambda>a. Some (NOT a)) xs
    | Op_INC \<Rightarrow> unary (\<lambda>a. exact32 (sint a + 1)) xs
    | Op_DEC \<Rightarrow> unary (\<lambda>a. exact32 (sint a - 1)) xs
    | Op_LIT0 \<Rightarrow> Some (0 # xs)
    | Op_LIT1 \<Rightarrow> Some (1 # xs)
    | Op_LITN1 \<Rightarrow> Some (-1 # xs)
    | _ \<Rightarrow> None)"

fun abs_step :: "abs_instr \<Rightarrow> i32 list \<Rightarrow> i32 list option" where
  "abs_step (Push k) xs = Some (k # xs)"
| "abs_step (Prim x) xs = abs_prim x xs"

fun abs_run :: "abs_instr list \<Rightarrow> i32 list \<Rightarrow> i32 list option" where
  "abs_run [] xs = Some xs"
| "abs_run (i # is) xs = (case abs_step i xs of
      None \<Rightarrow> None
    | Some ys \<Rightarrow> if length ys \<le> DS_SIZE then abs_run is ys else None)"

section \<open>The encoding\<close>

definition bytes32 :: "i32 \<Rightarrow> u8 list" where
  "bytes32 k = [ucast k, ucast (drop_bit 8 k), ucast (drop_bit 16 k), ucast (drop_bit 24 k)]"

fun encode1 :: "abs_instr \<Rightarrow> u8 list" where
  "encode1 (Push k) = op_byte Op_LIT # bytes32 k"
| "encode1 (Prim x) = [op_byte x]"

definition encode :: "abs_instr list \<Rightarrow> u8 list" where
  "encode is = concat (map encode1 is) @ [op_byte Op_RET]"

lemma bytes32_join:
  "(ucast (ucast k :: u8) OR push_bit 8 (ucast (ucast (drop_bit 8 k) :: u8)) OR
    push_bit 16 (ucast (ucast (drop_bit 16 k) :: u8)) OR push_bit 24 (ucast (ucast (drop_bit 24 k) :: u8)) :: i32) = k"
proof (rule bit_word_eqI)
  fix n assume "n < LENGTH(32)"
  then show "bit (ucast (ucast k :: u8) OR push_bit 8 (ucast (ucast (drop_bit 8 k) :: u8)) OR
    push_bit 16 (ucast (ucast (drop_bit 16 k) :: u8)) OR push_bit 24 (ucast (ucast (drop_bit 24 k) :: u8)) :: i32) n = bit k n"
    by (cases "n < 8"; cases "n < 16"; cases "n < 24") (auto simp: bit_simps)
qed

lemma read_bytes32: "read_i32_le (pre @ bytes32 k @ post) (length pre) s = Ret k s"
  using bytes32_join [of k] by (simp add: read_i32_le_def byte_at_def bytes32_def nth_append bnd_def)

section \<open>Simulation\<close>

lemma effect_binary_value:
  assumes "binary f xs = Some ys" and "\<And>a b v s. f a b = Some v \<Longrightarrow> binary_result E op a b s = Ret v s"
  shows "effect (exec_binary E op) xs ys"
  using assms by (auto simp: binary_def split: list.splits intro!: effect_binary)

lemma effect_unary_value:
  assumes "unary f xs = Some ys" and "length ys \<le> DS_SIZE" and "\<And>a v s. f a = Some v \<Longrightarrow> g a s = Ret v s"
  shows "effect (bnd (ds_pop E) (\<lambda>a. bnd (g a) (ds_push E))) xs ys"
  using assms by (auto simp: unary_def split: list.splits intro!: effect_pop effect_value effect_push)

lemma exactly_value: "exact32 x = Some v \<Longrightarrow> exactly x s = Ret v s"
  by (simp add: exactly_def)

lemma flag_value: "flag b = Some v \<Longrightarrow> truth b = v"
  by (auto simp: flag_def truth_def V4_TRUE_def V4_FALSE_def)

definition simulated :: "Op \<Rightarrow> i32 list \<Rightarrow> i32 list \<Rightarrow> 'd env \<Rightarrow> bool" where
  "simulated x xs ys E \<longleftrightarrow> (\<exists>m. effect m xs ys \<and>
     (\<forall>fuel run bc len ip. exec_op x E fuel run bc len ip = continue_at ip m))"

lemma simulatedI: "effect m xs ys \<Longrightarrow> (\<And>fuel run bc len ip. exec_op x E fuel run bc len ip = continue_at ip m) \<Longrightarrow> simulated x xs ys E"
  unfolding simulated_def by blast

lemma sim_binary:
  assumes "binary f xs = Some ys" and "\<And>a b v s. f a b = Some v \<Longrightarrow> binary_result E x a b s = Ret v s"
    and "\<And>fuel run bc len ip. exec_op x E fuel run bc len ip = continue_at ip (exec_binary E x)"
  shows "simulated x xs ys E"
  by (rule simulatedI [OF effect_binary_value [OF assms(1,2)] assms(3)])

lemma sim_bits:
  assumes "binary (\<lambda>a b. Some (f a b)) xs = Some ys" and "\<And>a b r. effect m (b # a # r) (f a b # r)"
    and "\<And>fuel run bc len ip. exec_op x E fuel run bc len ip = continue_at ip m"
  shows "simulated x xs ys E"
  using assms(1,2) by (intro simulatedI [OF _ assms(3)]) (auto simp: binary_def split: list.splits)

lemma sim_shuffles:
  assumes "abs_prim x xs = Some ys" and "length ys \<le> DS_SIZE" and "x \<in> {Op_DUP, Op_DROP, Op_SWAP, Op_OVER, Op_SELECT}"
  shows "simulated x xs ys E"
  using assms
  by (auto simp: abs_prim_def split: list.splits intro!: simulatedI [OF effect_shuffles(1)] simulatedI [OF effect_shuffles(2)]
      simulatedI [OF effect_shuffles(3)] simulatedI [OF effect_shuffles(4)] simulatedI [OF effect_shuffles(5)])

lemma sim_arith:
  assumes "abs_prim x xs = Some ys" and "x \<in> {Op_ADD, Op_SUB, Op_MUL}"
  shows "simulated x xs ys E"
  using assms by (auto simp: abs_prim_def intro!: sim_binary exactly_value)

lemma sim_divide:
  assumes "abs_prim x xs = Some ys" and "x \<in> {Op_DIV, Op_MOD, Op_DIVU, Op_MODU}"
  shows "simulated x xs ys E"
  using assms
  by (auto simp: abs_prim_def exactly_value bnd_def split: if_splits intro!: sim_binary)

lemma sim_compare:
  assumes "abs_prim x xs = Some ys" and "x \<in> {Op_EQ, Op_NE, Op_LT, Op_LE, Op_GT, Op_GE, Op_LTU, Op_LEU}"
  shows "simulated x xs ys E"
  using assms by (auto simp: abs_prim_def intro!: sim_binary flag_value)

lemma sim_bitwise:
  assumes "abs_prim x xs = Some ys" and "x \<in> {Op_AND, Op_OR, Op_XOR, Op_SHR, Op_SAR}"
  shows "simulated x xs ys E"
  using assms(2)
proof (elim insertE emptyE)
  show ?thesis if "x = Op_AND" using assms(1) that by (intro sim_bits [OF _ effect_bits(1)]) (simp_all add: abs_prim_def)
  show ?thesis if "x = Op_OR" using assms(1) that by (intro sim_bits [OF _ effect_bits(2)]) (simp_all add: abs_prim_def)
  show ?thesis if "x = Op_XOR" using assms(1) that by (intro sim_bits [OF _ effect_bits(3)]) (simp_all add: abs_prim_def)
  show ?thesis if "x = Op_SHR"
    using assms(1) that by (intro sim_bits [OF _ effect_bits(5)]) (simp_all add: abs_prim_def shift_count_def)
  show ?thesis if "x = Op_SAR"
    using assms(1) that by (intro sim_bits [OF _ effect_bits(6)]) (simp_all add: abs_prim_def shift_count_def)
qed

lemma sim_shift_left:
  assumes "abs_prim Op_SHL xs = Some ys"
  shows "simulated Op_SHL xs ys E"
proof (rule simulatedI)
  obtain k a r where xs: "xs = k # a # r" and ok: "\<not> (sint a < 0 \<or> sint a * 2 ^ shift_count k \<ge> 2 ^ 32)"
    and ys: "ys = push_bit (shift_count k) a # r"
    using assms by (auto simp: abs_prim_def binary_def shift_count_def split: list.splits if_splits)
  have "shift_left a (shift_count k) s = Ret (push_bit (shift_count k) a) s" for s :: "'a machine"
    using ok by (simp add: shift_left_def)
  then have "effect (bnd (shift_left a (shift_count k)) (ds_push E)) r ys" if "length r < DS_SIZE"
    unfolding ys by (rule effect_value) (rule effect_push [OF that])
  then show "effect (exec_SHL E) xs ys"
    unfolding exec_SHL_def xs by (intro effect_pop) simp
qed simp

lemma sim_unary:
  assumes "abs_prim x xs = Some ys" and "length ys \<le> DS_SIZE" and "x \<in> {Op_INVERT, Op_INC, Op_DEC}"
  shows "simulated x xs ys E"
  using assms(3)
proof (elim insertE emptyE)
  show ?thesis if x: "x = Op_INVERT"
  proof -
    have "effect (exec_INVERT E) xs ys"
      using assms(1) x by (auto simp: abs_prim_def unary_def split: list.splits intro: effect_bits(4))
    then show ?thesis by (rule simulatedI) (simp add: x)
  qed
  show ?thesis if x: "x = Op_INC"
  proof -
    have "effect (exec_INC E) xs ys"
      unfolding exec_INC_def
      by (rule effect_unary_value [where f = "\<lambda>a. exact32 (sint a + 1)"]) (use assms x in \<open>simp_all add: abs_prim_def exactly_value\<close>)
    then show ?thesis by (rule simulatedI) (simp add: x)
  qed
  show ?thesis if x: "x = Op_DEC"
  proof -
    have "effect (exec_DEC E) xs ys"
      unfolding exec_DEC_def
      by (rule effect_unary_value [where f = "\<lambda>a. exact32 (sint a - 1)"]) (use assms x in \<open>simp_all add: abs_prim_def exactly_value\<close>)
    then show ?thesis by (rule simulatedI) (simp add: x)
  qed
qed

lemma sim_literal:
  assumes "abs_prim x xs = Some ys" and "length ys \<le> DS_SIZE" and "x \<in> {Op_LIT0, Op_LIT1, Op_LITN1}"
  shows "simulated x xs ys E"
  using assms by (auto simp: abs_prim_def exec_literal_def intro!: simulatedI [OF effect_push])

lemma prim_simulated:
  assumes "abs_prim x xs = Some ys" and "length ys \<le> DS_SIZE"
  shows "simulated x xs ys E"
proof -
  have "x \<in> {Op_DUP, Op_DROP, Op_SWAP, Op_OVER, Op_SELECT} \<or> x \<in> {Op_ADD, Op_SUB, Op_MUL} \<or>
      x \<in> {Op_DIV, Op_MOD, Op_DIVU, Op_MODU} \<or> x \<in> {Op_EQ, Op_NE, Op_LT, Op_LE, Op_GT, Op_GE, Op_LTU, Op_LEU} \<or>
      x \<in> {Op_AND, Op_OR, Op_XOR, Op_SHR, Op_SAR} \<or> x = Op_SHL \<or>
      x \<in> {Op_INVERT, Op_INC, Op_DEC} \<or> x \<in> {Op_LIT0, Op_LIT1, Op_LITN1}"
    using assms(1) by (cases x) (simp_all add: abs_prim_def)
  then show ?thesis
    using sim_shuffles [OF assms] sim_arith [OF assms(1)] sim_divide [OF assms(1)] sim_compare [OF assms(1)]
      sim_bitwise [OF assms(1)] sim_shift_left [of xs ys E] sim_unary [OF assms] sim_literal [OF assms] assms(1) by blast
qed

lemma exec_step_at:
  assumes "c = op_byte op # args"
  shows "exec_step E fuel run (pre @ c @ post) len (length pre) s = exec_op op E fuel run (pre @ c @ post) len (Suc (length pre)) s"
  using assms by (simp add: exec_step_def byte_at_def bnd_def del: op_byte.simps)

text \<open>One round of the loop on the encoding of an instruction.\<close>

lemma step_simulated:
  assumes i: "abs_step i xs = Some ys" "length ys \<le> DS_SIZE" and bc: "bc = pre @ encode1 i @ post" "int (length (pre @ encode1 i)) \<le> len"
    and s: "wf_stacks s" "top_first s = xs"
  shows "\<exists>t. exec_step E fuel run bc len (length pre) s = Ret (Continue (length pre + length (encode1 i))) t \<and>
    wf_stacks t \<and> top_first t = ys"
proof (cases i)
  case (Push k)
  have "ys = k # xs" using i(1) Push by simp
  then obtain t where t: "ds_push E k s = Ret () t" "top_first t = ys" "wf_stacks t"
    using effect_D [OF effect_push s] i(2) by (metis Suc_le_lessD length_Cons)
  have "read_i32_le bc (Suc (length pre)) s = Ret k s"
    using read_bytes32 [of "pre @ [op_byte Op_LIT]" k post s] Push bc(1) by simp
  moreover have "bc ! length pre = op_byte Op_LIT" "length pre < length bc" using bc(1) Push by simp_all
  moreover have "length (bytes32 k) = 4" by (simp add: bytes32_def)
  moreover have "decode (op_byte Op_LIT) = Some Op_LIT" by (rule decode_op_byte)
  ultimately show ?thesis
    using t Push bc by (simp add: exec_step_def byte_at_def exec_LIT_def continue_at_def bnd_def del: op_byte.simps)
next
  case (Prim x)
  obtain m where m: "effect m xs ys" "\<And>fuel run bc len ip. exec_op x E fuel run bc len ip = continue_at ip m"
    using prim_simulated [of x xs ys E] i Prim unfolding simulated_def by auto
  obtain t where t: "m s = Ret () t" "top_first t = ys" "wf_stacks t" using effect_D [OF m(1) s] .
  have "bc ! length pre = op_byte x" "length pre < length bc" using bc(1) Prim by simp_all
  then show ?thesis
    using t Prim m(2) by (simp add: exec_step_def byte_at_def continue_at_def bnd_def del: op_byte.simps)
qed

text \<open>
  A run of the code in a buffer: \<open>pre\<close> is behind the instruction pointer, and \<open>post\<close> lies behind the length
  the caller gave.
\<close>

lemma run_simulated:
  assumes "abs_run is xs = Some ys" and "wf_stacks s" and "top_first s = xs" and "length is < fuel"
    and "bc = pre @ encode is @ post" and "len = int (length (pre @ encode is))"
  shows "\<exists>t. exec_loop fuel E bc len (length pre) s = Ret () t \<and> wf_stacks t \<and> top_first t = ys"
  using assms
proof (induction "is" arbitrary: xs s fuel pre)
  case Nil
  then obtain f where f: "fuel = Suc f" by (cases fuel) auto
  have "bc ! length pre = op_byte Op_RET" "length pre < length bc" "int (length pre) < len"
    using Nil.prems(5,6) by (simp_all add: encode_def)
  then have "exec_step E f run bc len (length pre) s = Ret Return s" for run
    by (simp add: exec_step_def byte_at_def del: op_byte.simps)
  then show ?case
    using Nil.prems \<open>int (length pre) < len\<close> f by (simp add: exec_loop_Suc bnd_def)
next
  case (Cons i "is")
  then obtain f where f: "fuel = Suc f" "length is < f" by (cases fuel) auto
  obtain zs where z: "abs_step i xs = Some zs" "length zs \<le> DS_SIZE" "abs_run is zs = Some ys"
    using Cons.prems(1) by (auto split: option.splits if_splits)
  have bc: "bc = pre @ encode1 i @ (encode is @ post)" "len = int (length ((pre @ encode1 i) @ encode is))"
    using Cons.prems(5,6) by (simp_all add: encode_def)
  obtain t where t: "exec_step E f (vm_exec_raw E f) bc len (length pre) s =
      Ret (Continue (length pre + length (encode1 i))) t" "wf_stacks t" "top_first t = zs"
    using step_simulated [OF z(1,2) bc(1) _ Cons.prems(2,3), of len E f "vm_exec_raw E f"] bc(2) by auto
  have "\<exists>u. exec_loop f E bc len (length (pre @ encode1 i)) t = Ret () u \<and> wf_stacks u \<and> top_first u = ys"
    using Cons.IH [OF z(3) t(2,3) f(2), of "pre @ encode1 i"] bc by simp
  moreover have "int (length pre) < len" using bc(2) by (simp add: encode_def)
  ultimately show ?case using t(1) f(1) by (simp add: exec_loop_Suc bnd_def)
qed

lemma exec_encode_in_buffer:
  assumes "abs_run is (top_first s) = Some ys" and "wf_stacks s" and "length is < fuel"
  shows "\<exists>t. vm_exec_raw E fuel (encode is @ post) (int (length (encode is))) s = Ret 0 t \<and> wf_stacks t \<and> top_first t = ys"
  using run_simulated [OF assms(1,2) refl assms(3), of "encode is @ post" "[]" post "int (length (encode is))" E]
  by (auto simp: encode_def vm_exec_raw_def entry_assert_def bnd_def code_of_def)

lemma exec_encode:
  assumes "abs_run is xs = Some ys" and "wf_stacks s" and "top_first s = xs" and "length is < fuel"
  shows "\<exists>t. vm_exec_raw E fuel (encode is) (int (length (encode is))) s = Ret 0 t \<and> wf_stacks t \<and> top_first t = ys"
  using exec_encode_in_buffer [of "is" s ys fuel E "[]"] assms by simp

end
