(* ===== verification/V4_Run_Props.thy ===== *)
theory V4_Run_Props
  imports V4_Refine V4_Data_Props
begin

text \<open>
  The properties of whole runs of the interpreter: what a run can end with, its independence of the
  fuel, the code that ends and the code that does not, decoding, operand sizes and calls.
\<close>

section \<open>A sample dictionary\<close>

text \<open>
  Word 0 is \<open>DUP ADD RET\<close>, word 1 is \<open>CALL 0 CALL 0 RET\<close>, word 2 calls itself: \<open>CALL 2 RET\<close>.
\<close>

definition code0 :: "u8 list" where "code0 = [0x01, 0x10, 0x51]"

definition code1 :: "u8 list" where "code1 = [0x50, 0, 0, 0x50, 0, 0, 0x51]"

definition code2 :: "u8 list" where "code2 = [0x50, 2, 0, 0x51]"

definition word_of :: "u8 list \<Rightarrow> Word" where
  "word_of c = \<lparr>w_name = NullName, w_code = Some c, w_code_len = int (length c)\<rparr>"

definition dict_vm :: "nat machine" where
  "dict_vm = sample_vm\<lparr>words := [word_of code0, word_of code1, word_of code2] @ replicate 253 null_word, word_count := 3,
     DS := 5 # replicate 255 0, sp := 1\<rparr>"

lemma word_of_simps [simp]:
  "w_code (word_of c) = Some c" "w_code_len (word_of c) = int (length c)" "wf_word (word_of c) \<longleftrightarrow> c \<noteq> []"
  by (simp_all add: word_of_def wf_word_def)

lemma dict_vm_simps [simp]:
  "word_count dict_vm = 3" "words dict_vm ! 0 = word_of code0" "words dict_vm ! Suc 0 = word_of code1"
  "words dict_vm ! 2 = word_of code2" "length (words dict_vm) = 256"
  by (simp_all add: dict_vm_def)

lemma wf_dict_vm [simp]: "wf_vm dict_vm"
  using wf_sample_vm
  by (simp add: dict_vm_def wf_vm_def wf_stacks_def wf_mem_def wf_dict_def DS_SIZE_def V4_MAX_WORDS_def code0_def code1_def code2_def)

lemma sample_safe [simp]: "sys_safe sample_env" "sys_keeps_words sample_env"
  by (simp_all add: sys_safe_def sys_keeps_words_def)

section \<open>Outcomes\<close>

text \<open>C3: a run of any bytecode on a well-formed machine, with any amount of fuel, returns an error code and
  a machine that is well-formed again: stack pointers inside their stacks, registered words intact,
  message ring and scheduler consistent. The only undefined behaviour it can show is signed overflow, a
  shift of a negative value and, in a build with tasks, the two defects of saving a stack that is too
  large for a task's block and of pushing an unset message.
\<close>
theorem run_outcome:
  assumes "wf_vm s" and "sys_safe E" and "0 < len" and "len \<le> int (length bc)"
  shows "case vm_exec_raw E fuel bc len s of
      Ret e t \<Rightarrow> wf_vm t
    | Fail e t \<Rightarrow> False
    | Undef u \<Rightarrow> u \<in> {SignedOverflow, ShiftUndefined} \<or> enable_tasks E \<and> u \<in> {OutOfBounds, Indeterminate}
    | Timeout \<Rightarrow> True"
proof -
  have "res_ok wf_vm (possible_ub E) (vm_exec_raw E fuel bc len s)"
    by (rule keeps_D [OF keeps_vm_exec_raw assms(1)]) (use assms in simp_all)
  then show ?thesis
    by (cases "vm_exec_raw E fuel bc len s") (auto simp: res_ok_def possible_ub_def split: if_splits)
qed

theorem run_outcome_witness:
  "case vm_exec_raw sample_env 9 code1 7 dict_vm of Ret e t \<Rightarrow> wf_vm t | Fail e t \<Rightarrow> False | _ \<Rightarrow> True"
  using run_outcome [of dict_vm sample_env 7 code1 9] by (simp add: code1_def split: res.splits)

text \<open>
  The fuel of the model is not part of the behaviour: once a run has ended, with any outcome, more fuel
  gives the same outcome.
\<close>
theorem fuel_irrelevant:
  assumes "vm_exec_raw E n bc len s \<noteq> Timeout" and "n \<le> n'"
  shows "vm_exec_raw E n' bc len s = vm_exec_raw E n bc len s"
  using exec_raw_more [OF assms(2), of E bc len] assms(1) by (auto simp: act_le_def res_le_def)

lemma run_RET: "vm_exec_raw sample_env (Suc n) [0x51] 1 s = Ret 0 s"
  by (simp add: vm_exec_raw_def entry_assert_def exec_loop_Suc exec_step_def byte_at_def bnd_def code_of_def)

theorem fuel_irrelevant_witness: "vm_exec_raw sample_env 100 [0x51] 1 sample_vm = Ret 0 sample_vm"
  using fuel_irrelevant [of sample_env "Suc 0" "[0x51]" 1 sample_vm 100] by (simp add: run_RET)

section \<open>Termination\<close>

text \<open>C4: layered code ends. When in every registered word, and in the code itself, jumps go forward, calls
  name words registered earlier and no receive waits, and no word is longer than \<open>L\<close>, then a run with
  fuel above \<open>(n + 1) * (L + 1)\<close>, \<open>n\<close> being the number of words, returns a code and a well-formed machine
  (or shows the undefined behaviour of the previous theorem): it does not loop, and calls nest at most
  \<open>n\<close> deep.
\<close>
theorem layered_code_ends:
  assumes s: "wf_vm s" and sys: "sys_safe E" "sys_keeps_words E" and len: "0 < len" "len \<le> int (length bc)" "len \<le> int L"
    and n: "word_count s = int n" and dict: "layered_dict (words s) n" "\<And>i. i < n \<Longrightarrow> w_code_len (words s ! i) \<le> int L"
    and bc: "layered n bc len 0" and fuel: "(n + 1) * (L + 1) < fuel"
  shows "(\<exists>e t. vm_exec_raw E fuel bc len s = Ret e t \<and> wf_vm t) \<or> (\<exists>u \<in> possible_ub E. vm_exec_raw E fuel bc len s = Undef u)"
proof -
  have "nat (len - int 0) + fuel_bound L n < fuel" using len fuel by (simp add: fuel_bound_def)
  then have "exec_loop fuel E bc len 0 s \<noteq> Timeout"
    using layered_ends [OF sys(2) dict, of s n bc len 0 fuel] bc n by (simp add: has_words_def)
  then have "vm_exec_raw E fuel bc len s \<noteq> Timeout"
    by (auto simp: vm_exec_raw_def entry_assert_def bnd_def code_of_def split: res.split)
  moreover have "res_ok wf_vm (possible_ub E) (vm_exec_raw E fuel bc len s)"
    by (rule keeps_D [OF keeps_vm_exec_raw s]) (use sys len in simp_all)
  ultimately show ?thesis
    by (cases "vm_exec_raw E fuel bc len s") (auto simp: res_ok_def)
qed

lemma layered_code0: "layered 0 code0 3 0"
  and layered_code1: "layered (Suc 0) code1 7 0"
  by (simp_all add: layered.simps word_at_def code0_def code1_def)

definition layered_vm :: "nat machine" where "layered_vm = dict_vm\<lparr>word_count := 2\<rparr>"

theorem layered_code_ends_witness:
  "(\<exists>e t. vm_exec_raw sample_env 30 code1 7 layered_vm = Ret e t \<and> wf_vm t) \<or>
   (\<exists>u \<in> possible_ub sample_env. vm_exec_raw sample_env 30 code1 7 layered_vm = Undef u)"
proof (rule layered_code_ends [where n = 2 and L = 7])
  show "wf_vm layered_vm"
    using wf_dict_vm by (simp add: layered_vm_def wf_vm_def wf_stacks_def wf_mem_def wf_dict_def dict_vm_def)
  have "layered_dict (words dict_vm) 2"
    using layered_code0 layered_code1 by (simp add: layered_dict_def upt_rec numeral_2_eq_2 code0_def code1_def)
  then show "layered_dict (words layered_vm) 2" by (simp add: layered_vm_def)
  show "layered 2 code1 7 0" by (simp add: layered.simps word_at_def code1_def)
  show "w_code_len (words layered_vm ! i) \<le> int 7" if "i < 2" for i
    using that by (auto simp: layered_vm_def less_Suc_eq numeral_2_eq_2 code0_def code1_def)
qed (simp_all add: code1_def layered_vm_def)

text \<open>C28: a word that calls itself never returns, whatever the machine and however much fuel it is given: no
  check bounds the depth of calls (the recursion of \<open>vm_exec_raw\<close> takes neither a return stack cell nor
  anything else that could run out, only the host's stack).
\<close>
theorem self_call_never_returns:
  assumes "word_count s = int n" and "n < 2 ^ 16" and "unat w < n" and "w_code (words s ! unat w) = Some c"
    and "w_code_len (words s ! unat w) = int (length c)" and "3 \<le> length c"
    and "c ! 0 = op_byte Op_CALL" and "word_at c 1 = w"
  shows "vm_exec E fuel (Some (words s ! unat w)) (Some s) = Timeout"
proof -
  have "unat (word_of_int (int n) :: u16) = n" using assms(2) by (simp add: unat_of_nat)
  then have "\<not> w \<ge> word_of_int (int n)" using assms(3) by (simp add: word_le_nat_alt not_le)
  moreover have "0 < length c" using assms(6) by linarith
  ultimately have "exec_loop fuel E c (int (length c)) 0 s = Timeout"
    using assms by (intro self_call_loop [where W = "words s" and n = "int n" and w = w]) (simp_all add: has_words_def)
  moreover have "c \<noteq> []" using assms(6) by auto
  ultimately show ?thesis
    using assms(4,5) by (simp add: vm_exec_def null_checked_def vm_exec_raw_def entry_assert_def bnd_def code_of_def)
qed

theorem self_call_never_returns_witness: "vm_exec sample_env 1000 (Some (words dict_vm ! 2)) (Some dict_vm) = Timeout"
  using self_call_never_returns [of dict_vm 3 2 code2 sample_env 1000] by (simp add: code2_def word_at_def)

section \<open>Dispatch\<close>

text \<open>
  An instruction that goes on goes on right behind its operand bytes, as many as the table of
  primitives lists for it; a jump goes on inside the word or at its end. So the loop never leaves the word
  except by \<open>FellOffEnd\<close> or a return.
\<close>
theorem next_instruction:
  assumes "exec_op op E fuel run bc len ip s = Ret (Continue ip') t" and "int ip \<le> len"
  shows "if is_jump op then int ip' \<le> len else ip' = ip + imm_size (prim_kind op)"
proof (cases "is_jump op")
  case True
  then show ?thesis using yields_D [OF exec_jump_next [OF True assms(2)] assms(1)] by auto
next
  case False
  then show ?thesis using yields_D [OF exec_op_next [OF False] assms(1)] by auto
qed

theorem next_instruction_witness: "9 = 7 + imm_size (prim_kind Op_LIT_I16)"
proof -
  have "exec_op Op_LIT_I16 sample_env 0 (\<lambda>c l. Ret 0) (replicate 9 0) 9 7 sample_vm =
      Ret (Continue 9) (sample_vm\<lparr>DS := (DS sample_vm)[0 := 0], sp := 1\<rparr>)"
    by (simp add: exec_LIT_I16_def read_i16_word continue_at_def word_at_def bnd_def ds_push_def DS_SIZE_def)
  from next_instruction [OF this] show ?thesis by simp
qed

text \<open>
  What the loop refuses, each with a panic and nothing executed: a byte that is no opcode, a task
  opcode in a build without tasks, and the end of the word without a \<open>RET\<close>.
\<close>
theorem loop_errors:
  assumes "ip < length bc"
  shows "(int ip \<ge> len \<longrightarrow> exec_loop (Suc fuel) E bc len ip s = panic E FellOffEnd s) \<and>
    (int ip < len \<and> (case decode (bc ! ip) of None \<Rightarrow> True | Some op \<Rightarrow> is_task_op op \<and> \<not> enable_tasks E) \<longrightarrow>
      exec_loop (Suc fuel) E bc len ip s = panic E UnknownOp s)"
proof -
  have pan: "bnd (panic E UnknownOp) (\<lambda>fl :: flow. case fl of Return \<Rightarrow> Ret () | Continue ip' \<Rightarrow> k ip') s = panic E UnknownOp s" for k
    by (simp add: bnd_def panic_def vm_panic_eq)
  have task: "exec_op op E fuel run bc len (ip + 1) = panic E UnknownOp" if "is_task_op op" "\<not> enable_tasks E" for op run
    using that by (cases op) (simp_all add: with_tasks_def)
  show ?thesis
  proof (intro conjI impI, simp add: exec_loop_Suc, elim conjE)
    assume ip: "int ip < len" and d: "case decode (bc ! ip) of None \<Rightarrow> True | Some op \<Rightarrow> is_task_op op \<and> \<not> enable_tasks E"
    have "exec_step E fuel run bc len ip s = panic E UnknownOp s" for run
      using d assms task by (cases "decode (bc ! ip)") (simp_all add: exec_step_def byte_at_def)
    then show "exec_loop (Suc fuel) E bc len ip s = panic E UnknownOp s"
      using ip by (simp add: exec_loop_Suc bnd_def panic_def vm_panic_eq)
  qed
qed

theorem loop_errors_witness:
  "exec_loop 4 (sample_env\<lparr>enable_tasks := False\<rparr>) [0x99] 1 0 sample_vm = panic (sample_env\<lparr>enable_tasks := False\<rparr>) UnknownOp sample_vm"
  using loop_errors [of 0 "[0x99]" 1 3 "sample_env\<lparr>enable_tasks := False\<rparr>" sample_vm] by simp

section \<open>Calls\<close>

text \<open>One call: the word's run in a new frame, and what the caller makes of its outcome.\<close>

lemma call_runs_word:
  assumes s: "wf_vm s" and read: "int ip + 2 \<le> len" "ip + 1 < length bc" and w: "w = word_at bc ip"
  shows "if int (unat w) < word_count s
    then (\<exists>c. w_code (words s ! unat w) = Some c \<and>
      exec_CALL E (vm_exec_raw E fuel) bc len ip s =
        (case vm_exec_raw E fuel c (w_code_len (words s ! unat w)) (s\<lparr>fp := Some (rp s)\<rparr>) of
           Ret e t \<Rightarrow> if e = 0 then Ret (Continue (ip + 2)) (t\<lparr>fp := fp s\<rparr>) else Fail e (t\<lparr>fp := fp s\<rparr>)
         | Fail e t \<Rightarrow> Fail e t
         | Undef u \<Rightarrow> Undef u
         | Timeout \<Rightarrow> Timeout))
    else exec_CALL E (vm_exec_raw E fuel) bc len ip s = panic E InvalidWordIdx s"
proof -
  have wc: "0 \<le> word_count s" "word_count s \<le> 256" using s by (simp_all add: wf_vm_def wf_dict_def V4_MAX_WORDS_def)
  then have "uint (word_of_int (word_count s) :: u16) = word_count s" by (simp add: uint_word_of_int)
  then have idx: "w \<ge> word_of_int (word_count s) \<longleftrightarrow> \<not> int (unat w) < word_count s"
    by (simp add: word_le_def not_less)
  show ?thesis
  proof (cases "int (unat w) < word_count s")
    case True
    then have nw: "\<not> w \<ge> word_of_int (word_count s)" using idx by simp
    obtain c where c: "w_code (words s ! unat w) = Some c" "0 < w_code_len (words s ! unat w)"
      using call_word_wf(2) [OF s nw] by (auto simp: wf_word_def split: option.splits)
    let ?r = "vm_exec_raw E fuel c (w_code_len (words s ! unat w)) (s\<lparr>fp := Some (rp s)\<rparr>)"
    have "exec_CALL E (vm_exec_raw E fuel) bc len ip s =
        bnd (vm_exec_raw E fuel c (w_code_len (words s ! unat w)))
          (\<lambda>e s1. if e \<noteq> 0 then Fail e (s1\<lparr>fp := fp s\<rparr>) else Ret (Continue (ip + 2)) (s1\<lparr>fp := fp s\<rparr>))
          (s\<lparr>fp := Some (rp s)\<rparr>)"
      using nw c read unfolding exec_CALL_def read_i16_bnd w [symmetric] Let_def by simp
    also have "\<dots> = (case ?r of
           Ret e t \<Rightarrow> if e = 0 then Ret (Continue (ip + 2)) (t\<lparr>fp := fp s\<rparr>) else Fail e (t\<lparr>fp := fp s\<rparr>)
         | Fail e t \<Rightarrow> Fail e t | Undef u \<Rightarrow> Undef u | Timeout \<Rightarrow> Timeout)"
      by (cases ?r) simp_all
    finally show ?thesis using True c by simp
  next
    case False
    then show ?thesis using idx read unfolding exec_CALL_def read_i16_bnd w [symmetric] by simp
  qed
qed

section \<open>Refinement of a stack machine\<close>

text \<open>C1: the interpreter implements an abstract machine that works on a list. A straight-line program of
  literals and stack, arithmetic, comparison and logic instructions, for which the abstract machine
  yields the stack \<open>ys\<close>, is encoded as bytecode; the run of the bytecode returns 0 with exactly the stack
  \<open>ys\<close>, in as many rounds as the program has instructions and one for its \<open>RET\<close>.
\<close>
theorem interpreter_refines_stack_machine:
  assumes "abs_run is (top_first s) = Some ys" and "wf_stacks s" and "length is < fuel"
  shows "\<exists>t. vm_exec_raw E fuel (encode is) (int (length (encode is))) s = Ret 0 t \<and> wf_stacks t \<and> top_first t = ys"
  by (rule exec_encode [OF assms(1,2) refl assms(3)])

theorem interpreter_refines_stack_machine_witness:
  "\<exists>t. vm_exec_raw sample_env 9 (encode [Push 100000, Prim Op_DUP, Prim Op_LITN1, Prim Op_MUL, Prim Op_SUB]) 10 sample_vm = Ret 0 t \<and>
    top_first t = [200000]"
proof -
  have "abs_run [Push 100000, Prim Op_DUP, Prim Op_LITN1, Prim Op_MUL, Prim Op_SUB] (top_first sample_vm) = Some [200000]"
    by (simp add: top_first_def data_stack_def abs_prim_def binary_def exact32_def int32_min_def int32_max_def DS_SIZE_def)
  from interpreter_refines_stack_machine [OF this wf_stacks_sample, of 9 sample_env]
  show ?thesis by (auto simp: encode_def bytes32_def)
qed

end
