(* ===== verification/V4_Typing.thy ===== *)
theory V4_Typing
  imports V4_Runs
begin

text \<open>
  A stack discipline for bytecode, checked statically: every instruction start of a word gets a depth of the
  data stack above what the word may not touch, and a depth of the return stack above the word's frame.
  Words have signatures, so calls are checked one by one and recursion needs no unfolding. Checked code
  never underflows a stack and never reaches outside its frame; a word that returns leaves the depths its
  signature says.
\<close>

section \<open>The check\<close>

text \<open>
  What the instructions without control flow, calls and locals take from and leave on the data stack and
  the return stack. Instructions of tasks switch stacks, and a SYS handler is foreign code: none of them has
  a type.
\<close>

fun stack_type :: "Op \<Rightarrow> (nat \<times> nat \<times> nat \<times> nat) option" where
  "stack_type Op_LIT = Some (0, Suc 0, 0, 0)"
| "stack_type Op_LIT_U8 = Some (0, Suc 0, 0, 0)"
| "stack_type Op_LIT_I8 = Some (0, Suc 0, 0, 0)"
| "stack_type Op_LIT_I16 = Some (0, Suc 0, 0, 0)"
| "stack_type Op_LIT0 = Some (0, Suc 0, 0, 0)"
| "stack_type Op_LIT1 = Some (0, Suc 0, 0, 0)"
| "stack_type Op_LITN1 = Some (0, Suc 0, 0, 0)"
| "stack_type Op_DUP = Some (Suc 0, Suc (Suc 0), 0, 0)"
| "stack_type Op_DROP = Some (Suc 0, 0, 0, 0)"
| "stack_type Op_SWAP = Some (Suc (Suc 0), Suc (Suc 0), 0, 0)"
| "stack_type Op_OVER = Some (Suc (Suc 0), Suc (Suc (Suc 0)), 0, 0)"
| "stack_type Op_INC = Some (Suc 0, Suc 0, 0, 0)"
| "stack_type Op_DEC = Some (Suc 0, Suc 0, 0, 0)"
| "stack_type Op_INVERT = Some (Suc 0, Suc 0, 0, 0)"
| "stack_type Op_SELECT = Some (Suc (Suc (Suc 0)), Suc 0, 0, 0)"
| "stack_type Op_LOAD = Some (Suc 0, Suc 0, 0, 0)"
| "stack_type Op_LOAD8U = Some (Suc 0, Suc 0, 0, 0)"
| "stack_type Op_LOAD16U = Some (Suc 0, Suc 0, 0, 0)"
| "stack_type Op_LOAD8S = Some (Suc 0, Suc 0, 0, 0)"
| "stack_type Op_LOAD16S = Some (Suc 0, Suc 0, 0, 0)"
| "stack_type Op_STORE = Some (Suc (Suc 0), 0, 0, 0)"
| "stack_type Op_STORE8 = Some (Suc (Suc 0), 0, 0, 0)"
| "stack_type Op_STORE16 = Some (Suc (Suc 0), 0, 0, 0)"
| "stack_type Op_TOR = Some (Suc 0, 0, 0, Suc 0)"
| "stack_type Op_FROMR = Some (0, Suc 0, Suc 0, 0)"
| "stack_type Op_RFETCH = Some (0, Suc 0, Suc 0, Suc 0)"
| "stack_type op = (if op \<in> {Op_ADD, Op_SUB, Op_MUL, Op_DIV, Op_MOD, Op_DIVU, Op_MODU, Op_EQ, Op_NE, Op_LT, Op_LE, Op_GT,
     Op_GE, Op_LTU, Op_LEU, Op_AND, Op_OR, Op_XOR, Op_SHL, Op_SHR, Op_SAR} then Some (Suc (Suc 0), Suc 0, 0, 0) else None)"

text \<open>The types of a word: its signature (taken and left on the data stack, left on the return stack), and a depth pair per byte.\<close>

type_synonym sig = "nat \<Rightarrow> (nat \<times> nat \<times> nat) option"
type_synonym depths = "(nat \<times> nat) option list"

definition arrives :: "depths \<Rightarrow> int \<Rightarrow> nat \<Rightarrow> nat \<Rightarrow> nat \<Rightarrow> bool" where
  "arrives ty len ip d r \<longleftrightarrow> (int ip < len \<longrightarrow> ip < length ty \<and> ty ! ip = Some (d, r))"

definition operand16 :: "u8 list \<Rightarrow> nat \<Rightarrow> u16" where
  "operand16 bc ip = ucast (bc ! ip) OR push_bit 8 (ucast (bc ! (ip + 1)))"

definition fits :: "sig \<Rightarrow> nat \<Rightarrow> nat \<Rightarrow> depths \<Rightarrow> u8 list \<Rightarrow> int \<Rightarrow> nat \<Rightarrow> Op \<Rightarrow> nat \<Rightarrow> nat \<Rightarrow> bool" where
  "fits sg outs kept ty bc len ip op d r = (case op of
      Op_RET \<Rightarrow> d = outs \<and> r = kept
    | Op_JMP \<Rightarrow> arrives ty len (nat (int (ip + 2) + sint (operand16 bc ip))) d r
    | Op_JZ \<Rightarrow> 0 < d \<and> arrives ty len (nat (int (ip + 2) + sint (operand16 bc ip))) (d - 1) r \<and> arrives ty len (ip + 2) (d - 1) r
    | Op_JNZ \<Rightarrow> 0 < d \<and> arrives ty len (nat (int (ip + 2) + sint (operand16 bc ip))) (d - 1) r \<and> arrives ty len (ip + 2) (d - 1) r
    | Op_CALL \<Rightarrow> (case sg (unat (operand16 bc ip)) of
          None \<Rightarrow> False
        | Some (i, out, k) \<Rightarrow> i \<le> d \<and> arrives ty len (ip + 2) (d - i + out) (r + k))
    | Op_LGET \<Rightarrow> unat (bc ! ip) < r \<and> arrives ty len (ip + 1) (d + 1) r
    | Op_LSET \<Rightarrow> unat (bc ! ip) < r \<and> 0 < d \<and> arrives ty len (ip + 1) (d - 1) r
    | Op_LTEE \<Rightarrow> unat (bc ! ip) < r \<and> 0 < d \<and> arrives ty len (ip + 1) d r
    | Op_LINC \<Rightarrow> unat (bc ! ip) < r \<and> arrives ty len (ip + 1) d r
    | Op_LDEC \<Rightarrow> unat (bc ! ip) < r \<and> arrives ty len (ip + 1) d r
    | Op_LGET0 \<Rightarrow> 0 < r \<and> arrives ty len ip (d + 1) r
    | Op_LGET1 \<Rightarrow> 1 < r \<and> arrives ty len ip (d + 1) r
    | Op_LSET0 \<Rightarrow> 0 < r \<and> 0 < d \<and> arrives ty len ip (d - 1) r
    | Op_LSET1 \<Rightarrow> 1 < r \<and> 0 < d \<and> arrives ty len ip (d - 1) r
    | _ \<Rightarrow> (case stack_type op of
          None \<Rightarrow> False
        | Some (a, p, x, y) \<Rightarrow> a \<le> d \<and> x \<le> r \<and> arrives ty len (ip + imm_size (prim_kind op)) (d - a + p) (r - x + y)))"

definition well_typed :: "sig \<Rightarrow> nat \<times> nat \<times> nat \<Rightarrow> u8 list \<Rightarrow> int \<Rightarrow> depths \<Rightarrow> bool" where
  "well_typed sg t bc len ty = (case t of (ins, outs, kept) \<Rightarrow>
     arrives ty len 0 ins 0 \<and>
     list_all (\<lambda>ip. case ty ! ip of
         None \<Rightarrow> True
       | Some (d, r) \<Rightarrow> (case decode (bc ! ip) of
             None \<Rightarrow> True
           | Some op \<Rightarrow> fits sg outs kept ty bc len (ip + 1) op d r)) [0..<length ty])"

section \<open>States of a depth\<close>

text \<open>What a run of a word keeps: the dictionary, the windows, and the bottoms of its parts of the two stacks.\<close>

record 'd frame =
  f_words :: "Word list"
  f_count :: int
  f_mmio :: "'d V4_Mmio list"
  f_low :: nat
  f_base :: nat

definition shape :: "'d frame \<Rightarrow> nat \<Rightarrow> nat \<Rightarrow> 'd machine \<Rightarrow> bool" where
  "shape F d r s \<longleftrightarrow> words s = f_words F \<and> word_count s = f_count F \<and> mmio s = f_mmio F \<and>
     sp s = f_low F + d \<and> rp s = f_base F + r \<and> (fp s = None \<or> fp s = Some (f_base F))"

text \<open>A window's callbacks return codes of their own; none is taken for a stack underflow, or it would be.\<close>

definition quiet_window :: "'d V4_Mmio \<Rightarrow> bool" where
  "quiet_window m \<longleftrightarrow> (\<forall>f u a out w. read32 m = Some f \<longrightarrow> fst (f u a out w) \<noteq> V4_ERR StackUnderflow) \<and>
     (\<forall>f u a v w. write32 m = Some f \<longrightarrow> fst (f u a v w) \<noteq> V4_ERR StackUnderflow)"

definition quiet :: "'d frame \<Rightarrow> bool" where
  "quiet F \<longleftrightarrow> (\<forall>m \<in> set (f_mmio F). quiet_window m)"

section \<open>Actions that do not underflow\<close>

definition ends :: "('s \<Rightarrow> bool) \<Rightarrow> ('s, 'a) act \<Rightarrow> ('a \<Rightarrow> 's \<Rightarrow> bool) \<Rightarrow> bool" where
  "ends P m Q \<longleftrightarrow> (\<forall>s. P s \<longrightarrow> (case m s of
      Ret a t \<Rightarrow> Q a t
    | Fail e t \<Rightarrow> e \<noteq> 0 \<and> e \<noteq> V4_ERR StackUnderflow
    | Undef u \<Rightarrow> True
    | Timeout \<Rightarrow> True))"

named_theorems ends_intros \<open>actions that end without an underflow\<close>

lemma ends_bnd [ends_intros]: "ends P m Q \<Longrightarrow> (\<And>a. ends (Q a) (f a) R) \<Longrightarrow> ends P (bnd m f) R"
  by (fastforce simp: ends_def bnd_def split: res.splits)

lemma ends_Ret: "(\<And>s. P s \<Longrightarrow> Q a s) \<Longrightarrow> ends P (Ret a) Q"
  by (simp add: ends_def)

lemma ends_same [ends_intros]: "ends P (Ret a) (\<lambda>_. P)"
  by (simp add: ends_Ret)

lemma ends_Undef [ends_intros]: "ends P (\<lambda>s. Undef u) Q"
  and ends_Timeout [ends_intros]: "ends P (\<lambda>s. Timeout) Q"
  by (simp_all add: ends_def)

lemma ends_if [ends_intros]: "(b \<Longrightarrow> ends P m Q) \<Longrightarrow> (\<not> b \<Longrightarrow> ends P n Q) \<Longrightarrow> ends P (if b then m else n) Q"
  by simp

lemma ends_panic: "x \<noteq> OK \<Longrightarrow> x \<noteq> StackUnderflow \<Longrightarrow> ends P (panic E x) Q"
  using V4_ERR_inject [of x StackUnderflow]
  by (auto simp: ends_def panic_def vm_panic_eq V4_ERR_eq_0_iff simp del: V4_ERR.simps)

lemma ends_panics [ends_intros]:
  "ends P (panic E TruncatedLiteral) Q" "ends P (panic E TruncatedJump) Q" "ends P (panic E JumpOutOfRange) Q"
  "ends P (panic E FellOffEnd) Q" "ends P (panic E DivByZero) Q" "ends P (panic E StackOverflow) Q"
  "ends P (panic E InvalidArg) Q" "ends P (panic E InvalidWordIdx) Q" "ends P (panic E UnknownOp) Q"
  by (simp_all add: ends_panic)

lemma ends_weaken: "ends P m Q \<Longrightarrow> (\<And>s. P' s \<Longrightarrow> P s) \<Longrightarrow> (\<And>a s. Q a s \<Longrightarrow> Q' a s) \<Longrightarrow> ends P' m Q'"
  by (fastforce simp: ends_def split: res.splits)

lemma ends_D: "ends P m Q \<Longrightarrow> P s \<Longrightarrow> m s = Ret a t \<Longrightarrow> Q a t"
  by (fastforce simp: ends_def)

lemma ends_Fail: "ends P m Q \<Longrightarrow> P s \<Longrightarrow> m s = Fail e t \<Longrightarrow> e \<noteq> 0 \<and> e \<noteq> V4_ERR StackUnderflow"
  by (fastforce simp: ends_def)

lemma panic_ends [simp]:
  "case panic E TruncatedJump s of Ret a t \<Rightarrow> Q a t | Fail e t \<Rightarrow> e \<noteq> 0 \<and> e \<noteq> V4_ERR StackUnderflow | Undef u \<Rightarrow> True | Timeout \<Rightarrow> True"
  "case panic E StackOverflow s of Ret a t \<Rightarrow> Q a t | Fail e t \<Rightarrow> e \<noteq> 0 \<and> e \<noteq> V4_ERR StackUnderflow | Undef u \<Rightarrow> True | Timeout \<Rightarrow> True"
  "case panic E InvalidArg s of Ret a t \<Rightarrow> Q a t | Fail e t \<Rightarrow> e \<noteq> 0 \<and> e \<noteq> V4_ERR StackUnderflow | Undef u \<Rightarrow> True | Timeout \<Rightarrow> True"
  "case panic E InvalidWordIdx s of Ret a t \<Rightarrow> Q a t | Fail e t \<Rightarrow> e \<noteq> 0 \<and> e \<noteq> V4_ERR StackUnderflow | Undef u \<Rightarrow> True | Timeout \<Rightarrow> True"
  by (auto simp: panic_def vm_panic_eq)

section \<open>The stacks\<close>

lemma ends_stacks [ends_intros]:
  "ends (shape F d r) (ds_push E v) (\<lambda>_. shape F (Suc d) r)"
  "ends (shape F (Suc d) r) (ds_pop E) (\<lambda>_. shape F d r)"
  "ends (shape F (Suc d) r) (ds_peek E 0) (\<lambda>_. shape F (Suc d) r)"
  "ends (shape F (Suc (Suc d)) r) (ds_peek E 1) (\<lambda>_. shape F (Suc (Suc d)) r)"
  "ends (shape F d r) (rs_push E v) (\<lambda>_. shape F d (Suc r))"
  "ends (shape F d (Suc r)) (rs_pop E) (\<lambda>_. shape F d r)"
  "ends (shape F d (Suc r)) (rs_peek E 0) (\<lambda>_. shape F d (Suc r))"
  by (auto simp: ends_def ds_push_def ds_pop_def ds_peek_def rs_push_def rs_pop_def rs_peek_def shape_def
      simp del: V4_ERR.simps)

lemma ends_cells [ends_intros]:
  "idx < r \<Longrightarrow> ends (shape F d r) (local_cell E idx) (\<lambda>_. shape F d r)"
  "ends (shape F d r) (get_cell i) (\<lambda>_. shape F d r)"
  "ends (shape F d r) (set_cell i v) (\<lambda>_. shape F d r)"
  by (auto simp: ends_def local_cell_def get_cell_def set_cell_def shape_def split: option.split simp del: V4_ERR.simps)

lemma ends_reads [ends_intros]:
  "ends P (byte_at bc i) (\<lambda>b t. P t \<and> b = bc ! i)"
  "ends P (read_i32_le bc i) (\<lambda>_. P)"
  "ends P (read_i16_le bc i) (\<lambda>w t. P t \<and> w = operand16 bc i)"
  by (auto simp: ends_def byte_at_def read_i32_le_def read_i16_le_def bnd_def operand16_def)

lemma ends_conj [ends_intros]: "(b \<Longrightarrow> ends P m Q) \<Longrightarrow> ends (\<lambda>s. P s \<and> b) m Q"
  by (auto simp: ends_def)

lemma ends_values [ends_intros]:
  "ends P (exactly x) (\<lambda>_. P)" "ends P (shift_left v n) (\<lambda>_. P)"
  by (auto simp: ends_def exactly_def shift_left_def split: option.split)

lemma ends_binary_result [ends_intros]: "ends P (binary_result E op a b) (\<lambda>_. P)"
  by (cases op; simp only: binary_result.simps; (rule ends_intros)+)

section \<open>Memory\<close>

lemma window_quiet:
  assumes "quiet F" and "shape F d r s" and "find_mmio s a \<ge> 0"
  shows "quiet_window (mmio s ! nat (find_mmio s a))"
proof -
  have "nat (find_mmio s a) < length (take (nat (mmio_count s)) (mmio s))"
    using find_mmio_from_Some [of 0 "take (nat (mmio_count s)) (mmio s)" a "nat (find_mmio s a)"] assms(3)
    by (simp add: find_mmio_def)
  then have "mmio s ! nat (find_mmio s a) \<in> set (mmio s)" by simp
  then show ?thesis using assms(1,2) by (simp add: quiet_def shape_def)
qed

lemma quiet_codes:
  "quiet_window m \<Longrightarrow> read32 m = Some f \<Longrightarrow> f u a out w = (e, x, w') \<Longrightarrow> e \<noteq> V4_ERR StackUnderflow"
  "quiet_window m \<Longrightarrow> write32 m = Some g \<Longrightarrow> g u a v w = (e, w') \<Longrightarrow> e \<noteq> V4_ERR StackUnderflow"
  unfolding quiet_window_def by (metis fst_conv)+

lemma ram_codes:
  "v4_is_in_ram s a n \<noteq> V4_ERR StackUnderflow" "v4_is_aligned4 a \<noteq> V4_ERR StackUnderflow" "V4_ERR OobMemory \<noteq> V4_ERR StackUnderflow"
  "0 \<noteq> V4_ERR StackUnderflow"
  by (simp_all add: v4_is_in_ram_def v4_is_aligned4_def Let_def)

lemma shape_outer [simp]:
  "shape F d r (s\<lparr>world := w\<rparr>) = shape F d r s" "shape F d r (s\<lparr>mem := m\<rparr>) = shape F d r s"
  by (simp_all add: shape_def)

lemma ends_words:
  assumes "quiet F"
  shows "ends (shape F d r) (v4_mem_read32_core a out) (\<lambda>x t. shape F d r t \<and> fst x \<noteq> V4_ERR StackUnderflow)"
    "ends (shape F d r) (v4_mem_write32_core a v) (\<lambda>e t. shape F d r t \<and> e \<noteq> V4_ERR StackUnderflow)"
  by (auto simp: ends_def v4_mem_read32_core_def v4_mem_write32_core_def Let_def ram_codes simp del: V4_ERR.simps
      split: option.split prod.split dest: quiet_codes [OF window_quiet [OF assms]])

lemma ends_halves:
  "ends (shape F d r) (v4_mem_read16_core a out) (\<lambda>x t. shape F d r t \<and> fst x \<noteq> V4_ERR StackUnderflow)"
  "ends (shape F d r) (v4_mem_write16_core a v) (\<lambda>e t. shape F d r t \<and> e \<noteq> V4_ERR StackUnderflow)"
  "ends (shape F d r) (v4_mem_read8_core a out) (\<lambda>x t. shape F d r t \<and> fst x \<noteq> V4_ERR StackUnderflow)"
  "ends (shape F d r) (v4_mem_write8_core a v) (\<lambda>e t. shape F d r t \<and> e \<noteq> V4_ERR StackUnderflow)"
  by (auto simp: ends_def v4_mem_read16_core_def v4_mem_write16_core_def v4_mem_read8_core_def v4_mem_write8_core_def
      ram_codes simp del: V4_ERR.simps split: option.split)

lemma ends_loaded: "ends P m (\<lambda>x t. Q t \<and> fst x \<noteq> V4_ERR StackUnderflow) \<Longrightarrow> ends P (loaded m) (\<lambda>_. Q)"
  by (fastforce simp: ends_def loaded_def bnd_def split: res.splits prod.splits)

lemma ends_check: "ends P m (\<lambda>e t. Q t \<and> e \<noteq> V4_ERR StackUnderflow) \<Longrightarrow> ends P (check m) (\<lambda>_. Q)"
  by (fastforce simp: ends_def check_def bnd_def split: res.splits)

section \<open>Instructions\<close>

lemma ends_continue: "ends P m (\<lambda>_. Q) \<Longrightarrow> ends P (continue_at ip m) (\<lambda>fl t. fl = Continue ip \<and> Q t)"
  unfolding continue_at_def by (erule ends_bnd) (simp add: ends_Ret)

lemmas simple_defs = exec_DUP_def exec_DROP_def exec_SWAP_def exec_OVER_def exec_literal_def exec_binary_def exec_INC_def
  exec_DEC_def exec_AND_def exec_OR_def exec_XOR_def exec_INVERT_def exec_SHL_def exec_SHR_def exec_SAR_def exec_SELECT_def
  exec_TOR_def exec_FROMR_def exec_RFETCH_def

lemmas memory_defs = exec_LOAD_def exec_STORE_def exec_LOAD8U_def exec_LOAD16U_def exec_STORE8_def exec_STORE16_def
  exec_LOAD8S_def exec_LOAD16S_def

lemma ends_shuffles:
  "ends (shape F (Suc d) r) (exec_DUP E) (\<lambda>_. shape F (Suc (Suc d)) r)"
  "ends (shape F (Suc d) r) (exec_DROP E) (\<lambda>_. shape F d r)"
  "ends (shape F (Suc (Suc d)) r) (exec_SWAP E) (\<lambda>_. shape F (Suc (Suc d)) r)"
  "ends (shape F (Suc (Suc d)) r) (exec_OVER E) (\<lambda>_. shape F (Suc (Suc (Suc d))) r)"
  "ends (shape F (Suc (Suc (Suc d))) r) (exec_SELECT E) (\<lambda>_. shape F (Suc d) r)"
  "ends (shape F (Suc d) r) (exec_TOR E) (\<lambda>_. shape F d (Suc r))"
  "ends (shape F d (Suc r)) (exec_FROMR E) (\<lambda>_. shape F (Suc d) r)"
  "ends (shape F d (Suc r)) (exec_RFETCH E) (\<lambda>_. shape F (Suc d) (Suc r))"
  "ends (shape F d r) (exec_literal E k) (\<lambda>_. shape F (Suc d) r)"
  unfolding simple_defs by (rule ends_intros)+

lemma ends_arithmetic:
  "ends (shape F (Suc (Suc d)) r) (exec_binary E op) (\<lambda>_. shape F (Suc d) r)"
  "ends (shape F (Suc (Suc d)) r) (exec_AND E) (\<lambda>_. shape F (Suc d) r)"
  "ends (shape F (Suc (Suc d)) r) (exec_OR E) (\<lambda>_. shape F (Suc d) r)"
  "ends (shape F (Suc (Suc d)) r) (exec_XOR E) (\<lambda>_. shape F (Suc d) r)"
  "ends (shape F (Suc (Suc d)) r) (exec_SHL E) (\<lambda>_. shape F (Suc d) r)"
  "ends (shape F (Suc (Suc d)) r) (exec_SHR E) (\<lambda>_. shape F (Suc d) r)"
  "ends (shape F (Suc (Suc d)) r) (exec_SAR E) (\<lambda>_. shape F (Suc d) r)"
  "ends (shape F (Suc d) r) (exec_INVERT E) (\<lambda>_. shape F (Suc d) r)"
  "ends (shape F (Suc d) r) (exec_INC E) (\<lambda>_. shape F (Suc d) r)"
  "ends (shape F (Suc d) r) (exec_DEC E) (\<lambda>_. shape F (Suc d) r)"
  unfolding simple_defs by (rule ends_intros)+

lemma ends_memory:
  assumes quiet: "quiet F"
  shows "ends (shape F (Suc d) r) (exec_LOAD E) (\<lambda>_. shape F (Suc d) r)"
    "ends (shape F (Suc d) r) (exec_LOAD8U E) (\<lambda>_. shape F (Suc d) r)"
    "ends (shape F (Suc d) r) (exec_LOAD16U E) (\<lambda>_. shape F (Suc d) r)"
    "ends (shape F (Suc d) r) (exec_LOAD8S E) (\<lambda>_. shape F (Suc d) r)"
    "ends (shape F (Suc d) r) (exec_LOAD16S E) (\<lambda>_. shape F (Suc d) r)"
    "ends (shape F (Suc (Suc d)) r) (exec_STORE E) (\<lambda>_. shape F d r)"
    "ends (shape F (Suc (Suc d)) r) (exec_STORE8 E) (\<lambda>_. shape F d r)"
    "ends (shape F (Suc (Suc d)) r) (exec_STORE16 E) (\<lambda>_. shape F d r)"
  unfolding memory_defs by (rule ends_loaded ends_check ends_words [OF quiet] ends_halves ends_intros)+

lemma ends_literals:
  "ends (shape F d r) (exec_LIT E bc len ip) (\<lambda>fl t. fl = Continue (ip + 4) \<and> shape F (Suc d) r t)"
  "ends (shape F d r) (exec_LIT_U8 E bc len ip) (\<lambda>fl t. fl = Continue (ip + 1) \<and> shape F (Suc d) r t)"
  "ends (shape F d r) (exec_LIT_I8 E bc len ip) (\<lambda>fl t. fl = Continue (ip + 1) \<and> shape F (Suc d) r t)"
  "ends (shape F d r) (exec_LIT_I16 E bc len ip) (\<lambda>fl t. fl = Continue (ip + 2) \<and> shape F (Suc d) r t)"
  unfolding exec_LIT_def exec_LIT_U8_def exec_LIT_I8_def exec_LIT_I16_def by (rule ends_continue ends_intros)+

lemma ends_simple:
  assumes quiet: "quiet F"
  shows "case stack_type op of None \<Rightarrow> True | Some (a, p, x, y) \<Rightarrow>
    ends (shape F (a + d) (x + r)) (exec_op op E fuel run bc len ip)
      (\<lambda>fl t. fl = Continue (ip + imm_size (prim_kind op)) \<and> shape F (p + d) (y + r) t)"
  by (cases op;
      simp add: ends_literals ends_literals [simplified] ends_continue ends_shuffles ends_arithmetic ends_memory [OF quiet])

text \<open>Where an instruction may go on: at a byte of the depths the machine has, or behind the end.\<close>

definition lands :: "depths \<Rightarrow> int \<Rightarrow> nat \<Rightarrow> nat \<Rightarrow> 'd frame \<Rightarrow> flow \<Rightarrow> 'd machine \<Rightarrow> bool" where
  "lands ty len outs kept F fl t = (case fl of
      Return \<Rightarrow> shape F outs kept t
    | Continue ip \<Rightarrow> int ip < len \<longrightarrow> (\<exists>d r. ip < length ty \<and> ty ! ip = Some (d, r) \<and> shape F d r t))"

lemma lands_Continue: "arrives ty len ip d r \<Longrightarrow> shape F d r t \<Longrightarrow> lands ty len outs kept F (Continue ip) t"
  by (simp add: lands_def arrives_def)

lemma ends_lands:
  "ends P m (\<lambda>fl t. fl = Continue ip \<and> shape F d r t) \<Longrightarrow> arrives ty len ip d r \<Longrightarrow> ends P m (lands ty len outs kept F)"
  by (erule ends_weaken) (auto intro: lands_Continue)

lemma ends_goes_on: "arrives ty len ip d r \<Longrightarrow> ends (shape F d r) (Ret (Continue ip)) (lands ty len outs kept F)"
  by (rule ends_Ret) (rule lands_Continue)

lemma ends_jump_to:
  assumes "arrives ty len (nat (int ip + sint off)) d r"
  shows "ends (shape F d r) (jump_to E len ip off) (lands ty len outs kept F)"
  unfolding jump_to_def Let_def by (rule ends_intros ends_goes_on assms)+

lemma ends_jumps:
  assumes "arrives ty len (nat (int (ip + 2) + sint (operand16 bc ip))) d r"
  shows "ends (shape F d r) (exec_JMP E bc len ip) (lands ty len outs kept F)"
    "arrives ty len (ip + 2) d r \<Longrightarrow> ends (shape F (Suc d) r) (exec_JZ E bc len ip) (lands ty len outs kept F)"
    "arrives ty len (ip + 2) d r \<Longrightarrow> ends (shape F (Suc d) r) (exec_JNZ E bc len ip) (lands ty len outs kept F)"
  unfolding exec_JMP_def exec_JZ_def exec_JNZ_def
  by ((rule ends_intros ends_jump_to ends_goes_on | assumption), (hypsubst, rule assms)?)+

lemma ends_locals:
  "idx < r \<Longrightarrow> ends (shape F d r) (local_get E idx) (\<lambda>_. shape F (Suc d) r)"
  "idx < r \<Longrightarrow> ends (shape F (Suc d) r) (local_set E idx) (\<lambda>_. shape F d r)"
  "idx < r \<Longrightarrow> ends (shape F (Suc d) r) (local_tee E idx) (\<lambda>_. shape F (Suc d) r)"
  "idx < r \<Longrightarrow> ends (shape F d r) (local_inc E idx) (\<lambda>_. shape F d r)"
  "idx < r \<Longrightarrow> ends (shape F d r) (local_dec E idx) (\<lambda>_. shape F d r)"
  unfolding local_get_def local_set_def local_tee_def local_inc_def local_dec_def
  by (rule ends_intros | assumption)+

lemma ends_with_index:
  assumes "ends P (m (unat (bc ! ip))) (\<lambda>_. Q)"
  shows "ends P (with_index E m bc len ip) (\<lambda>fl t. fl = Continue (ip + 1) \<and> Q t)"
  unfolding with_index_def
  by ((rule ends_intros ends_continue), (hypsubst, rule assms)?)+

subsection \<open>Calls\<close>

text \<open>What a run of a word must do for a call of it: end without an underflow, with the depths of its type.\<close>

definition obeys :: "'d frame \<Rightarrow> nat \<Rightarrow> nat \<Rightarrow> nat \<Rightarrow> ('d machine, v4_err) act \<Rightarrow> bool" where
  "obeys F ins outs kept m \<longleftrightarrow>
     ends (shape F ins 0) m (\<lambda>e t. e \<noteq> V4_ERR StackUnderflow \<and> (e = 0 \<longrightarrow> shape F outs kept t))"

definition inner :: "'d frame \<Rightarrow> nat \<Rightarrow> nat \<Rightarrow> 'd frame" where
  "inner F d r = F\<lparr>f_low := f_low F + d, f_base := f_base F + r\<rparr>"

lemma shape_enter:
  "shape F (i + d) r s \<Longrightarrow> shape (inner F d r) i 0 (s\<lparr>fp := Some (rp s)\<rparr>)"
  by (auto simp: shape_def inner_def)

lemma shape_leave:
  "shape (inner F d r) out k t \<Longrightarrow> fp' = None \<or> fp' = Some (f_base F) \<Longrightarrow> shape F (d + out) (r + k) (t\<lparr>fp := fp'\<rparr>)"
  by (auto simp: shape_def inner_def)

lemma ends_CALL:
  assumes run: "\<And>code. w_code (f_words F ! unat (operand16 bc ip)) = Some code \<Longrightarrow>
      obeys (inner F d r) i out k (run code (w_code_len (f_words F ! unat (operand16 bc ip))))"
  shows "ends (shape F (i + d) r) (exec_CALL E run bc len ip) (\<lambda>fl t. fl = Continue (ip + 2) \<and> shape F (d + out) (r + k) t)"
  unfolding ends_def
proof (intro allI impI)
  fix s assume s: "shape F (i + d) r s"
  let ?w = "f_words F ! unat (operand16 bc ip)" and ?s = "s\<lparr>fp := Some (rp s)\<rparr>"
  have w: "words s = f_words F" "fp s = None \<or> fp s = Some (f_base F)" using s by (auto simp: shape_def)
  show "case exec_CALL E run bc len ip s of Ret a t \<Rightarrow> a = Continue (ip + 2) \<and> shape F (d + out) (r + k) t
    | Fail e t \<Rightarrow> e \<noteq> 0 \<and> e \<noteq> V4_ERR StackUnderflow | Undef u \<Rightarrow> True | Timeout \<Rightarrow> True"
  proof (cases "w_code ?w")
    case None
    then show ?thesis
      by (auto simp: exec_CALL_def bnd_def read_i16_le_def byte_at_def operand16_def w Let_def simp del: V4_ERR.simps
          split: res.splits)
  next
    case (Some code)
    have "case run code (w_code_len ?w) ?s of
        Ret e t \<Rightarrow> e \<noteq> V4_ERR StackUnderflow \<and> (e = 0 \<longrightarrow> shape (inner F d r) out k t)
      | Fail e t \<Rightarrow> e \<noteq> 0 \<and> e \<noteq> V4_ERR StackUnderflow | Undef u \<Rightarrow> True | Timeout \<Rightarrow> True"
      using run [OF Some] shape_enter [OF s] by (simp only: obeys_def ends_def)
    then show ?thesis using Some shape_leave [OF _ w(2)]
      by (auto simp: exec_CALL_def bnd_def read_i16_le_def byte_at_def operand16_def w(1) Let_def simp del: V4_ERR.simps
          split: res.splits)
  qed
qed

section \<open>One instruction\<close>

definition callees :: "sig \<Rightarrow> 'd frame \<Rightarrow> (u8 list \<Rightarrow> int \<Rightarrow> ('d machine, v4_err) act) \<Rightarrow> bool" where
  "callees sg F run \<longleftrightarrow> (\<forall>n i out k code d r. sg n = Some (i, out, k) \<longrightarrow> w_code (f_words F ! n) = Some code \<longrightarrow>
     obeys (inner F d r) i out k (run code (w_code_len (f_words F ! n))))"

lemma fits_simple:
  assumes "fits sg outs kept ty bc len ip op d r"
  shows "case stack_type op of None \<Rightarrow> True | Some (a, p, x, y) \<Rightarrow>
    a \<le> d \<and> x \<le> r \<and> arrives ty len (ip + imm_size (prim_kind op)) (d - a + p) (r - x + y)"
  using assms by (cases op; simp add: fits_def)

lemma ends_control:
  assumes "fits sg outs kept ty bc len ip op d r" and "stack_type op = None" and "callees sg F run"
  shows "ends (shape F d r) (exec_op op E fuel run bc len ip) (lands ty len outs kept F)"
proof (cases op)
  case Op_RET
  then show ?thesis using assms(1) by (auto simp: fits_def lands_def intro: ends_Ret)
next
  case Op_JMP
  then show ?thesis using assms(1) by (simp add: fits_def ends_jumps)
next
  case Op_JZ
  then show ?thesis using assms(1) by (cases d) (simp_all add: fits_def ends_jumps)
next
  case Op_JNZ
  then show ?thesis using assms(1) by (cases d) (simp_all add: fits_def ends_jumps)
next
  case Op_CALL
  then obtain i out k where sg: "sg (unat (operand16 bc ip)) = Some (i, out, k)" and "i \<le> d"
    and next_ip: "arrives ty len (ip + 2) (d - i + out) (r + k)"
    using assms(1) by (auto simp: fits_def split: option.splits)
  then have "ends (shape F (i + (d - i)) r) (exec_CALL E run bc len ip)
      (\<lambda>fl t. fl = Continue (ip + 2) \<and> shape F (d - i + out) (r + k) t)"
    using assms(3) by (intro ends_CALL) (auto simp: callees_def)
  from ends_lands [OF this next_ip] show ?thesis using \<open>i \<le> d\<close> Op_CALL by simp
qed (insert assms(1,2), (cases d; simp add: fits_def exec_LGET_def exec_LSET_def exec_LTEE_def exec_LINC_def exec_LDEC_def;
  (rule ends_lands, ((rule ends_with_index | rule ends_continue), rule ends_locals); simp))+)

lemma ends_exec_op:
  assumes "fits sg outs kept ty bc len ip op d r" and "callees sg F run" and "quiet F"
  shows "ends (shape F d r) (exec_op op E fuel run bc len ip) (lands ty len outs kept F)"
proof (cases "stack_type op")
  case None
  then show ?thesis using ends_control assms by blast
next
  case (Some q)
  obtain a p x y where q: "q = (a, p, x, y)" by (metis surj_pair)
  have fit: "a \<le> d \<and> x \<le> r \<and> arrives ty len (ip + imm_size (prim_kind op)) (d - a + p) (r - x + y)"
    using fits_simple [OF assms(1)] Some q by (simp only: option.case prod.case)
  have "ends (shape F (a + (d - a)) (x + (r - x))) (exec_op op E fuel run bc len ip)
      (\<lambda>fl t. fl = Continue (ip + imm_size (prim_kind op)) \<and> shape F (d - a + p) (r - x + y) t)"
    using ends_simple [OF assms(3), where op = op and d = "d - a" and r = "r - x"] Some q
    by (simp add: add.commute [of p] add.commute [of y])
  from ends_lands [OF this] show ?thesis using fit by (simp only: le_add_diff_inverse)
qed

section \<open>Runs\<close>

text \<open>A typed dictionary: for each of its first words a type or none, and the typed words check.\<close>

type_synonym types = "((nat \<times> nat \<times> nat) \<times> depths) option list"

definition sig_of :: "types \<Rightarrow> sig" where
  "sig_of T n = (if n < length T then map_option fst (T ! n) else None)"

definition well_typed_words :: "types \<Rightarrow> Word list \<Rightarrow> bool" where
  "well_typed_words T ws \<longleftrightarrow> list_all (\<lambda>n. case T ! n of
       None \<Rightarrow> True
     | Some (t, ty) \<Rightarrow> (case w_code (ws ! n) of
           None \<Rightarrow> True
         | Some c \<Rightarrow> well_typed (sig_of T) t c (w_code_len (ws ! n)) ty)) [0..<length T]"

lemma well_typed_wordsD:
  assumes "well_typed_words T ws" and "sig_of T n = Some t" and "w_code (ws ! n) = Some c"
  shows "\<exists>ty. well_typed (sig_of T) t c (w_code_len (ws ! n)) ty"
proof -
  obtain ty where "n < length T" and "T ! n = Some (t, ty)"
    using assms(2) by (auto simp: sig_of_def split: if_splits)
  then show ?thesis using assms(1,3) unfolding well_typed_words_def list_all_iff
    by (cases t) (fastforce dest: bspec [of _ _ n])
qed

lemma well_typedD:
  assumes "well_typed sg (i, out, k) bc len ty"
  shows "arrives ty len 0 i 0"
    and "ip < length ty \<Longrightarrow> ty ! ip = Some (d, r) \<Longrightarrow> decode (bc ! ip) = Some op \<Longrightarrow> fits sg out k ty bc len (ip + 1) op d r"
  using assms by (auto simp: well_typed_def list_all_iff split: option.splits)

lemma inner_frame [simp]: "f_words (inner F d r) = f_words F" "quiet (inner F d r) = quiet F"
  by (simp_all add: inner_def quiet_def)

lemma ends_code_of:
  "ends P m (\<lambda>_. Q) \<Longrightarrow> ends P (code_of m) (\<lambda>e t. e \<noteq> V4_ERR StackUnderflow \<and> (e = 0 \<longrightarrow> Q t))"
  by (fastforce simp: ends_def code_of_def split: res.splits)

lemma ends_raw:
  assumes "ends P (exec_loop fuel E bc len 0) (\<lambda>_. Q)"
  shows "ends P (vm_exec_raw E fuel bc len) (\<lambda>e t. e \<noteq> V4_ERR StackUnderflow \<and> (e = 0 \<longrightarrow> Q t))"
  unfolding vm_exec_raw_def by (rule ends_bnd [OF _ ends_code_of [OF assms]]) (simp add: ends_def entry_assert_def)

lemma ends_step:
  assumes ty: "well_typed sg (i, out, k) bc len ty" and "callees sg F run" and "quiet F"
    and ip: "int ip < len \<Longrightarrow> ip < length ty \<and> ty ! ip = Some (d, r)" "int ip < len"
  shows "ends (shape F d r) (exec_step E fuel run bc len ip) (lands ty len out k F)"
  unfolding exec_step_def
proof (rule ends_bnd, rule ends_reads, rule ends_conj)
  fix b assume b: "b = bc ! ip"
  show "ends (shape F d r) (case decode b of None \<Rightarrow> panic E UnknownOp | Some op \<Rightarrow> exec_op op E fuel run bc len (ip + 1))
      (lands ty len out k F)"
  proof (cases "decode b")
    case None
    then show ?thesis by (simp add: ends_panics)
  next
    case (Some op)
    then show ?thesis using b ends_exec_op [OF well_typedD(2) [OF ty] assms(2,3)] ip by simp
  qed
qed

lemma ends_beyond: "\<not> int ip < len \<Longrightarrow> ends P (exec_loop fuel E bc len ip) Q"
  by (cases fuel) (simp_all add: exec_loop_Suc ends_panics ends_Timeout)

lemma ends_exec_loop:
  assumes "well_typed_words T (f_words F)" and "quiet F" and "well_typed (sig_of T) (i, out, k) bc len ty"
    and "arrives ty len ip d r"
  shows "ends (shape F d r) (exec_loop fuel E bc len ip) (\<lambda>_. shape F out k)"
  using assms
proof (induction fuel arbitrary: F i out k bc len ty ip d r)
  case 0
  then show ?case by (simp add: ends_Timeout)
next
  case (Suc fuel)
  note T = Suc.prems(1) and q = Suc.prems(2) and ty = Suc.prems(3)
  have raw: "obeys (inner F d' r') i' out' k' (vm_exec_raw E fuel code (w_code_len (f_words F ! n)))"
    if sig: "sig_of T n = Some (i', out', k')" and code: "w_code (f_words F ! n) = Some code" for n i' out' k' code d' r'
  proof -
    obtain ty' where ty': "well_typed (sig_of T) (i', out', k') code (w_code_len (f_words F ! n)) ty'"
      using well_typed_wordsD [OF T sig code] by blast
    show ?thesis
      unfolding obeys_def
      by (rule ends_raw, rule Suc.IH [OF _ _ ty' well_typedD(1) [OF ty']]) (simp_all add: T q)
  qed
  then have callees: "callees (sig_of T) F (vm_exec_raw E fuel)" by (simp add: callees_def)
  have goes_on: "ends (lands ty len out k F fl) (case fl of Return \<Rightarrow> Ret () | Continue ip' \<Rightarrow> exec_loop fuel E bc len ip')
      (\<lambda>_. shape F out k)" for fl
  proof (cases fl)
    case Return
    then show ?thesis by (auto simp: lands_def intro: ends_Ret)
  next
    case (Continue ip')
    have "ends (lands ty len out k F fl) (exec_loop fuel E bc len ip') (\<lambda>_. shape F out k)"
    proof (cases "int ip' < len")
      case True
      have "ends (shape F d' r') (exec_loop fuel E bc len ip') (\<lambda>_. shape F out k)"
        if "ip' < length ty" "ty ! ip' = Some (d', r')" for d' r'
        using Suc.IH [OF T q ty] that by (simp add: arrives_def)
      then show ?thesis using True Continue unfolding ends_def lands_def by fastforce
    qed (rule ends_beyond)
    then show ?thesis using Continue by simp
  qed
  show ?case
  proof (cases "int ip < len")
    case True
    then have "ends (shape F d r) (exec_step E fuel (vm_exec_raw E fuel) bc len ip) (lands ty len out k F)"
      using Suc.prems(4) by (intro ends_step [OF ty callees q]) (auto simp: arrives_def)
    then show ?thesis using True goes_on by (simp add: exec_loop_Suc ends_bnd)
  next
    case False
    then show ?thesis by (simp add: exec_loop_Suc ends_panics)
  qed
qed

lemma ends_vm_exec_raw:
  assumes "well_typed_words T (f_words F)" and "quiet F" and "well_typed (sig_of T) (i, out, k) bc len ty"
  shows "ends (shape F i 0) (vm_exec_raw E fuel bc len) (\<lambda>e t. e \<noteq> V4_ERR StackUnderflow \<and> (e = 0 \<longrightarrow> shape F out k t))"
  by (rule ends_raw, rule ends_exec_loop [OF assms well_typedD(1) [OF assms(3)]])

end
