(* ===== verification/V4_Typing_Props.thy ===== *)
theory V4_Typing_Props
  imports V4_Typing V4_Run_Props
begin

text \<open>
  Soundness of the stack discipline of \<open>V4_Typing\<close> for runs of registered words, and a typed dictionary:
  the words of \<open>V4_Run_Props\<close>, one of which calls another twice, and one of which calls itself.
\<close>

definition dict_types :: types where
  "dict_types = [
     Some ((1, 1, 0), [Some (1, 0), Some (2, 0), Some (1, 0)]),
     Some ((1, 1, 0), [Some (1, 0), None, None, Some (1, 0), None, None, Some (1, 0)]),
     Some ((0, 0, 0), [Some (0, 0), None, None, Some (0, 0)])]"

lemma dict_well_typed: "well_typed_words dict_types (words dict_vm)"
proof -
  have "words dict_vm ! Suc (Suc 0) = word_of code2" using dict_vm_simps(4) by (simp only: numeral_2_eq_2)
  then show ?thesis
    by (simp add: well_typed_words_def dict_types_def sig_of_def well_typed_def arrives_def fits_def operand16_def upt_rec
      code0_def code1_def code2_def numeral_2_eq_2 [symmetric])
qed

text \<open>C5: a word that checks against its signature runs as the signature says. Let the dictionary be typed,
  let no MMIO callback return the code of a stack underflow, and let the data stack hold at least what
  the word takes. Then the run never ends with a stack underflow, of either stack or of a local; when it
  ends with 0, the data stack has lost what the word takes and gained what it leaves, and the return stack
  what the word keeps there. This holds for any fuel and for words that loop or call themselves.
\<close>
theorem typed_word_runs_safely:
  assumes s: "wf_vm s" and E: "sys_safe E" and T: "well_typed_words T (words s)"
    and n: "int n < word_count s" "sig_of T n = Some (i, out, k)" "i \<le> sp s"
    and mmio: "\<forall>m \<in> set (mmio s). quiet_window m" and fp: "fp s = None \<or> fp s = Some (rp s)"
  shows "case vm_exec E fuel (Some (words s ! n)) (Some s) of
      Ret e t \<Rightarrow> e \<noteq> V4_ERR StackUnderflow \<and>
        (\<exists>t'. t = Some t' \<and> wf_vm t' \<and> (e = 0 \<longrightarrow> sp t' = sp s - i + out \<and> rp t' = rp s + k))
    | Fail e t \<Rightarrow> False
    | Undef u \<Rightarrow> u \<in> possible_ub E
    | Timeout \<Rightarrow> True"
proof -
  obtain c where c: "w_code (words s ! n) = Some c" and len: "0 < w_code_len (words s ! n)" "w_code_len (words s ! n) \<le> int (length c)"
  proof -
    have "n < length (take (nat (word_count s)) (words s))"
      using s n(1) by (simp add: wf_vm_def wf_dict_def)
    moreover have "list_all wf_word (take (nat (word_count s)) (words s))" using s by (simp add: wf_vm_def wf_dict_def)
    ultimately have "wf_word (words s ! n)" by (metis list_all_length nth_take length_take min_less_iff_conj)
    then show ?thesis using that by (auto simp: wf_word_def split: option.splits)
  qed
  obtain ty where ty: "well_typed (sig_of T) (i, out, k) c (w_code_len (words s ! n)) ty"
    using well_typed_wordsD [OF T n(2) c] by blast
  let ?F = "\<lparr>f_words = words s, f_count = word_count s, f_mmio = mmio s, f_low = sp s - i, f_base = rp s\<rparr>"
  let ?run = "vm_exec_raw E fuel c (w_code_len (words s ! n))"
  have start: "shape ?F i 0 s" using fp n(3) by (simp add: shape_def)
  have ends: "ends (shape ?F i 0) ?run (\<lambda>e t. e \<noteq> V4_ERR StackUnderflow \<and> (e = 0 \<longrightarrow> shape ?F out k t))"
    by (rule ends_vm_exec_raw [OF _ _ ty]) (use T mmio in \<open>simp_all add: quiet_def\<close>)
  have shaped: "?run s = Ret e t \<Longrightarrow> e \<noteq> V4_ERR StackUnderflow \<and> (e = 0 \<longrightarrow> shape ?F out k t)" for e t
    using ends_D [OF ends start] .
  have ok: "res_ok wf_vm (possible_ub E) (?run s)"
    by (rule keeps_D [OF keeps_vm_exec_raw s]) (use E len in simp_all)
  have no_Fail: "?run s \<noteq> Fail e t" for e t
    by (simp add: vm_exec_raw_def bnd_def entry_assert_def code_of_def split: res.splits)
  have call: "vm_exec E fuel (Some (words s ! n)) (Some s) = null_checked (V4_ERR InvalidArg) ?run (Some s)"
    using c by (simp add: vm_exec_def)
  show ?thesis
  proof (cases "?run s")
    case (Ret e t)
    then show ?thesis using shaped [OF Ret] ok unfolding call by (simp add: null_checked_def res_ok_def shape_def del: V4_ERR.simps)
  next
    case (Fail e t)
    then show ?thesis using no_Fail by blast
  qed (use ok in \<open>simp_all add: call null_checked_def res_ok_def\<close>)
qed

lemma dict_vm_windows [simp]:
  "mmio dict_vm = replicate V4_MAX_MMIO zero_mmio" "quiet_window zero_mmio"
   "fp dict_vm = None" "sp dict_vm = 1" "rp dict_vm = 0"
  by (simp_all add: dict_vm_def sample_vm_def zero_vm_def quiet_window_def zero_mmio_def)

theorem typed_word_runs_safely_witness:
  "\<exists>t. vm_exec sample_env 9 (Some (words dict_vm ! 0)) (Some dict_vm) = Ret 0 (Some t) \<and> sp t = 1 \<and> rp t = 0"
proof -
  have "abs_run [Prim Op_DUP, Prim Op_ADD] (top_first dict_vm) = Some [10]"
    by (simp add: dict_vm_def top_first_def data_stack_def abs_prim_def binary_def exact32_def int32_min_def int32_max_def DS_SIZE_def)
  from exec_encode [OF this _ refl, of 9 sample_env]
  have "\<exists>t. vm_exec_raw sample_env 9 (encode [Prim Op_DUP, Prim Op_ADD]) (int (length (encode [Prim Op_DUP, Prim Op_ADD]))) dict_vm = Ret 0 t"
    using wf_dict_vm by (auto simp: wf_vm_def)
  then obtain t where run: "vm_exec sample_env 9 (Some (words dict_vm ! 0)) (Some dict_vm) = Ret 0 (Some t)"
    by (auto simp: vm_exec_def null_checked_def encode_def code0_def)
  then show ?thesis
    using typed_word_runs_safely [OF wf_dict_vm sample_safe(1) dict_well_typed, of 0 1 1 0 9]
    by (simp add: sig_of_def dict_types_def)
qed

end
