(* ===== verification/V4_Short_Forms.thy ===== *)
theory V4_Short_Forms
  imports V4_Refine V4_Data_Props
begin

text \<open>
  The instruction set has short forms: \<open>LIT0\<close>, \<open>LIT1\<close>, \<open>LITN1\<close>, \<open>LIT_U8\<close>, \<open>LIT_I8\<close> and \<open>LIT_I16\<close> beside \<open>LIT\<close>,
  and \<open>LGET0\<close>, \<open>LGET1\<close>, \<open>LSET0\<close>, \<open>LSET1\<close> beside \<open>LGET\<close> and \<open>LSET\<close>. This theory encodes straight-line
  programs once with the long forms only and once with the shortest form of each instruction, and runs both
  in lockstep: the two encodings cannot be told apart by running them.
\<close>

section \<open>Two encodings\<close>

datatype source_instr = Literal i32 | Plain Op | Get u8 | Put u8

text \<open>Plain instructions are those without operand bytes.\<close>

definition plain :: "source_instr list \<Rightarrow> bool" where
  "plain p = list_all (\<lambda>i. case i of Plain op \<Rightarrow> prim_kind op = NoImm | _ \<Rightarrow> True) p"

definition le16 :: "i32 \<Rightarrow> u8 list" where
  "le16 k = [ucast k, ucast (drop_bit 8 k)]"

fun long_form :: "source_instr \<Rightarrow> u8 list" where
  "long_form (Literal k) = op_byte Op_LIT # bytes32 k"
| "long_form (Plain op) = [op_byte op]"
| "long_form (Get i) = [op_byte Op_LGET, i]"
| "long_form (Put i) = [op_byte Op_LSET, i]"

fun short_form :: "source_instr \<Rightarrow> u8 list" where
  "short_form (Literal k) =
    (if k = 0 then [op_byte Op_LIT0]
     else if k = 1 then [op_byte Op_LIT1]
     else if k = -1 then [op_byte Op_LITN1]
     else if k < 256 then [op_byte Op_LIT_U8, ucast k]
     else if -128 \<le> sint k \<and> sint k < 128 then [op_byte Op_LIT_I8, ucast k]
     else if -32768 \<le> sint k \<and> sint k < 32768 then op_byte Op_LIT_I16 # le16 k
     else op_byte Op_LIT # bytes32 k)"
| "short_form (Plain op) = [op_byte op]"
| "short_form (Get i) = (if i = 0 then [op_byte Op_LGET0] else if i = 1 then [op_byte Op_LGET1] else [op_byte Op_LGET, i])"
| "short_form (Put i) = (if i = 0 then [op_byte Op_LSET0] else if i = 1 then [op_byte Op_LSET1] else [op_byte Op_LSET, i])"

definition assemble :: "(source_instr \<Rightarrow> u8 list) \<Rightarrow> source_instr list \<Rightarrow> u8 list" where
  "assemble form p = concat (map form p) @ [op_byte Op_RET]"

section \<open>What an encoding does\<close>

text \<open>The action of an instruction, without its place in the bytecode.\<close>

definition at_ip :: "nat \<Rightarrow> flow \<Rightarrow> flow" where
  "at_ip ip fl = (case fl of Continue _ \<Rightarrow> Continue ip | Return \<Rightarrow> Return)"

definition meaning :: "'d env \<Rightarrow> nat \<Rightarrow> source_instr \<Rightarrow> ('d machine, flow) act" where
  "meaning E fuel i = (case i of
      Literal k \<Rightarrow> continue_at 0 (ds_push E k)
    | Plain op \<Rightarrow> exec_op op E fuel (\<lambda>c l. Ret 0) [] 0 0
    | Get i \<Rightarrow> continue_at 0 (local_get E (unat i))
    | Put i \<Rightarrow> continue_at 0 (local_set E (unat i)))"

text \<open>\<open>codes E form i\<close>: wherever the form stands in a word, a round of the loop on it does what \<open>i\<close> means.\<close>

definition codes :: "'d env \<Rightarrow> u8 list \<Rightarrow> source_instr \<Rightarrow> bool" where
  "codes E c i \<longleftrightarrow> (\<forall>fuel run pre post s.
     exec_step E fuel run (pre @ c @ post) (int (length (pre @ c @ post))) (length pre) s =
       bnd (meaning E fuel i) (\<lambda>fl. Ret (at_ip (length pre + length c) fl)) s)"

lemma bnd_at_ip [simp]: "bnd (continue_at 0 m) (\<lambda>fl. Ret (at_ip ip fl)) = continue_at ip m"
  by (simp add: fun_eq_iff continue_at_def bnd_def at_ip_def split: res.split)

lemma plain_exec_op:
  assumes "prim_kind op = NoImm"
  shows "exec_op op E fuel run bc len ip = bnd (exec_op op E fuel (\<lambda>c l. Ret 0) [] 0 0) (\<lambda>fl. Ret (at_ip ip fl))"
  using assms
  by (cases op) (simp_all add: fun_eq_iff continue_at_def bnd_def at_ip_def with_tasks_def exec_TASK_EXIT_def panic_def vm_panic_eq split: res.split)

lemma codesI:
  assumes "c = op_byte op # args"
    and "\<And>fuel run pre post s. exec_op op E fuel run (pre @ c @ post) (int (length (pre @ c @ post))) (Suc (length pre)) s =
       bnd (meaning E fuel i) (\<lambda>fl. Ret (at_ip (length pre + length c) fl)) s"
  shows "codes E c i"
  unfolding codes_def using assms(2) by (simp only: exec_step_at [OF assms(1)]) simp

subsection \<open>Operand bytes\<close>

lemma le16_bytes:
  "(ucast (ucast k :: u8) OR push_bit 8 (ucast (ucast (drop_bit 8 k) :: u8)) :: u16) = ucast (k :: i32)"
proof (rule bit_word_eqI)
  fix n assume "n < LENGTH(16)"
  then show "bit (ucast (ucast k :: u8) OR push_bit 8 (ucast (ucast (drop_bit 8 k) :: u8)) :: u16) n = bit (ucast k :: u16) n"
    by (cases "n < 8") (auto simp: bit_simps)
qed

lemma narrow_unsigned: "k < 256 \<Longrightarrow> ucast (ucast k :: u8) = (k :: i32)"
  by (simp add: word_less_nat_alt word_unat_eq_iff unsigned_ucast_eq unsigned_take_bit_eq take_bit_nat_eq_self_iff)

lemma narrow_signed:
  fixes k :: i32
  shows "-128 \<le> sint k \<Longrightarrow> sint k < 128 \<Longrightarrow> scast (ucast k :: u8) = k"
    and "-32768 \<le> sint k \<Longrightarrow> sint k < 32768 \<Longrightarrow> scast (ucast k :: u16) = k"
proof -
  have casts: "(ucast k :: u8) = word_of_int (sint k)" "(ucast k :: u16) = word_of_int (sint k)"
    by (rule bit_word_eqI; auto simp: bit_simps)+
  show "scast (ucast k :: u8) = k" if "-128 \<le> sint k" "sint k < 128"
  proof -
    have "sint (word_of_int (sint k) :: u8) = sint k"
      using that by (simp only: sint_sbintrunc') (simp add: signed_take_bit_int_eq_self)
    then have "(word_of_int (sint (word_of_int (sint k) :: u8)) :: i32) = word_of_int (sint k)" by (rule arg_cong)
    also have "\<dots> = k" by (simp only: of_int_sint scast_id)
    finally have "(word_of_int (sint (word_of_int (sint k) :: u8)) :: i32) = k" .
    then show ?thesis unfolding casts by (simp only: scast_eq)
  qed
  show "scast (ucast k :: u16) = k" if "-32768 \<le> sint k" "sint k < 32768"
  proof -
    have "sint (word_of_int (sint k) :: u16) = sint k"
      using that by (simp only: sint_sbintrunc') (simp add: signed_take_bit_int_eq_self)
    then have "(word_of_int (sint (word_of_int (sint k) :: u16)) :: i32) = word_of_int (sint k)" by (rule arg_cong)
    also have "\<dots> = k" by (simp only: of_int_sint scast_id)
    finally have "(word_of_int (sint (word_of_int (sint k) :: u16)) :: i32) = k" .
    then show ?thesis unfolding casts by (simp only: scast_eq)
  qed
qed

lemma codes_literals:
  "codes E (op_byte Op_LIT # bytes32 k) (Literal k)"
  "codes E [op_byte Op_LIT0] (Literal 0)"
  "codes E [op_byte Op_LIT1] (Literal 1)"
  "codes E [op_byte Op_LITN1] (Literal (-1))"
  "k < 256 \<Longrightarrow> codes E [op_byte Op_LIT_U8, ucast k] (Literal k)"
  "-128 \<le> sint k \<Longrightarrow> sint k < 128 \<Longrightarrow> codes E [op_byte Op_LIT_I8, ucast k] (Literal k)"
  "-32768 \<le> sint k \<Longrightarrow> sint k < 32768 \<Longrightarrow> codes E (op_byte Op_LIT_I16 # le16 k) (Literal k)"
  by (rule codesI, rule refl,
      simp add: meaning_def exec_LIT_def exec_LIT_U8_def exec_LIT_I8_def exec_LIT_I16_def read_i32_le_def read_i16_le_def byte_at_def
        bnd_def nth_append bytes32_def le16_def exec_literal_def bytes32_join le16_bytes narrow_unsigned narrow_signed
        continue_at_def at_ip_def split: res.split del: op_byte.simps)+

lemma codes_locals:
  "codes E [op_byte Op_LGET, i] (Get i)" "codes E [op_byte Op_LSET, i] (Put i)"
  "codes E [op_byte Op_LGET0] (Get 0)" "codes E [op_byte Op_LGET1] (Get 1)"
  "codes E [op_byte Op_LSET0] (Put 0)" "codes E [op_byte Op_LSET1] (Put 1)"
  by (rule codesI, rule refl,
      simp add: meaning_def exec_LGET_def exec_LSET_def with_index_def byte_at_def bnd_def nth_append continue_at_def at_ip_def
        split: res.split del: op_byte.simps)+

lemma codes_plain: "prim_kind op = NoImm \<Longrightarrow> codes E [op_byte op] (Plain op)"
  by (rule codesI, rule refl, subst plain_exec_op) (simp_all add: meaning_def)

lemma codes_forms:
  assumes "case i of Plain op \<Rightarrow> prim_kind op = NoImm | _ \<Rightarrow> True"
  shows "codes E (long_form i) i" "codes E (short_form i) i"
  using assms by (cases i; simp add: codes_literals codes_locals codes_plain del: op_byte.simps)+

section \<open>Lockstep\<close>

lemma flow_at_ip: "at_ip ip fl = Return \<longleftrightarrow> fl = Return" "fl \<noteq> Return \<Longrightarrow> at_ip ip fl = Continue ip"
  by (cases fl; simp add: at_ip_def)+

lemma lockstep:
  assumes "\<And>i. i \<in> set p \<Longrightarrow> codes E (f i) i \<and> codes E (g i) i"
    and "bc = pre @ assemble f p" and "bc' = pre' @ assemble g p"
  shows "exec_loop fuel E bc (int (length bc)) (length pre) s = exec_loop fuel E bc' (int (length bc')) (length pre') s"
  using assms
proof (induction p arbitrary: fuel pre pre' s)
  case Nil
  have "bc ! length pre = op_byte Op_RET" "bc' ! length pre' = op_byte Op_RET"
    "length pre < length bc" "length pre' < length bc'"
    using Nil.prems(2,3) by (simp_all add: assemble_def)
  then show ?case
    by (cases fuel) (simp_all add: exec_loop_Suc exec_step_def byte_at_def bnd_def del: op_byte.simps)
next
  case (Cons i p)
  have bc: "bc = pre @ f i @ assemble f p" "bc' = pre' @ g i @ assemble g p"
    using Cons.prems(2,3) by (simp_all add: assemble_def)
  have len: "length pre < length bc" "length pre' < length bc'" using bc by (simp_all add: assemble_def)
  show ?case
  proof (cases fuel)
    case (Suc n)
    have step: "exec_step E n run bc (int (length bc)) (length pre) s = bnd (meaning E n i) (\<lambda>fl. Ret (at_ip (length (pre @ f i)) fl)) s"
      "exec_step E n run bc' (int (length bc')) (length pre') s = bnd (meaning E n i) (\<lambda>fl. Ret (at_ip (length (pre' @ g i)) fl)) s" for run
      using Cons.prems(1) [of i] unfolding codes_def bc by auto
    have next_round: "exec_loop n E bc (int (length bc)) (length (pre @ f i)) t = exec_loop n E bc' (int (length bc')) (length (pre' @ g i)) t" for t
      using Cons.prems(1) bc by (intro Cons.IH) auto
    show ?thesis
      using len Suc unfolding Suc
      by (cases "meaning E n i s")
        (auto simp: exec_loop_Suc bnd_def step at_ip_def next_round [simplified] split: flow.split)
  qed simp
qed

lemma forms_agree:
  assumes "plain p"
  shows "vm_exec_raw E fuel (assemble long_form p) (int (length (assemble long_form p))) =
    vm_exec_raw E fuel (assemble short_form p) (int (length (assemble short_form p)))"
proof -
  have "codes E (long_form i) i \<and> codes E (short_form i) i" if "i \<in> set p" for i
    using assms codes_forms [of i E] that by (auto simp: plain_def list_all_iff)
  from lockstep [OF this, of p "assemble long_form p" "[]" "assemble short_form p" "[]" fuel]
  have "exec_loop fuel E (assemble long_form p) (int (length (assemble long_form p))) 0 =
      exec_loop fuel E (assemble short_form p) (int (length (assemble short_form p))) 0"
    by (simp add: fun_eq_iff)
  moreover have "entry_assert E (int (length (assemble form p))) = Ret ()" for form
    by (simp add: fun_eq_iff entry_assert_def assemble_def)
  ultimately show ?thesis by (simp only: vm_exec_raw_def)
qed

lemma short_is_shorter: "length (assemble short_form p) \<le> length (assemble long_form p)"
proof -
  have "length (short_form i) \<le> length (long_form i)" for i by (cases i) (simp_all add: bytes32_def le16_def)
  then show ?thesis by (induction p) (simp_all add: assemble_def add_mono)
qed

text \<open>C6: the compact instructions are abbreviations. A straight-line program, assembled once with the long
  forms \<open>LIT\<close>, \<open>LGET\<close> and \<open>LSET\<close> only and once with the shortest literal and local of each instruction,
  behaves the same: on every machine, with every amount of fuel, both runs end with the same code and the
  same machine, or show the same undefined behaviour. The second is never longer.
\<close>
theorem short_forms_equivalent:
  assumes "plain p"
  shows "vm_exec_raw E fuel (assemble long_form p) (int (length (assemble long_form p))) s =
      vm_exec_raw E fuel (assemble short_form p) (int (length (assemble short_form p))) s \<and>
    length (assemble short_form p) \<le> length (assemble long_form p)"
  by (simp only: forms_agree [OF assms] short_is_shorter)

theorem short_forms_equivalent_witness:
  "vm_exec_raw sample_env 9 [0x00, 0xFB, 0xFF, 0xFF, 0xFF, 0x70, 0x79, 0, 0x00, 0x2C, 1, 0, 0, 0x10, 0x51] 15 sample_vm =
   vm_exec_raw sample_env 9 [0x77, 0xFB, 0x70, 0x7C, 0x78, 0x2C, 1, 0x10, 0x51] 9 sample_vm"
proof -
  let ?p = "[Literal (-5), Plain Op_TOR, Get 0, Literal 300, Plain Op_ADD]"
  have "assemble long_form ?p = [0x00, 0xFB, 0xFF, 0xFF, 0xFF, 0x70, 0x79, 0, 0x00, 0x2C, 1, 0, 0, 0x10, 0x51]"
    and "assemble short_form ?p = [0x77, 0xFB, 0x70, 0x7C, 0x78, 0x2C, 1, 0x10, 0x51]"
    by (simp_all add: assemble_def bytes32_def le16_def)
  then show ?thesis using short_forms_equivalent [of ?p sample_env 9 sample_vm] by (simp add: plain_def)
qed

end
