(* ===== verification/V4_Structured.thy ===== *)
theory V4_Structured
  imports V4_Refine
begin

text \<open>
  Structured Forth: literals, instructions on both stacks, \<open>IF ELSE THEN\<close>, \<open>BEGIN UNTIL\<close>, \<open>BEGIN WHILE REPEAT\<close> and
  calls of other words, recursion included. A natural semantics says what a program does to the two stacks;
  a compiler translates it to bytecode with relative jumps; and the interpreter on the compiled words does
  what the semantics says.
\<close>

section \<open>The language\<close>

type_synonym stacks = "i32 list \<times> i32 list"

datatype forth = FNop | FNum i32 | FOp Op | FSeq forth forth | FIf forth forth | FUntil forth | FWhile forth forth
  | FCall nat

text \<open>The instructions on the data and the return stack, both with the top first.\<close>

definition prim_step :: "Op \<Rightarrow> stacks \<Rightarrow> stacks option" where
  "prim_step x st = (case st of (xs, rs) \<Rightarrow> (case x of
      Op_TOR \<Rightarrow> (case xs of v # r \<Rightarrow> Some (r, v # rs) | [] \<Rightarrow> None)
    | Op_FROMR \<Rightarrow> (case rs of v # r \<Rightarrow> Some (v # xs, r) | [] \<Rightarrow> None)
    | Op_RFETCH \<Rightarrow> (case rs of v # r \<Rightarrow> Some (v # xs, rs) | [] \<Rightarrow> None)
    | _ \<Rightarrow> map_option (\<lambda>ys. (ys, rs)) (abs_prim x xs)))"

definition bounded :: "stacks \<Rightarrow> bool" where
  "bounded st \<longleftrightarrow> length (fst st) \<le> DS_SIZE \<and> length (snd st) \<le> RS_SIZE"

inductive evals :: "forth list \<Rightarrow> forth \<Rightarrow> stacks \<Rightarrow> stacks \<Rightarrow> bool" for ws where
  nop: "evals ws FNop st st"
| num: "bounded (k # xs, rs) \<Longrightarrow> evals ws (FNum k) (xs, rs) (k # xs, rs)"
| op: "prim_step x st = Some st' \<Longrightarrow> bounded st' \<Longrightarrow> evals ws (FOp x) st st'"
| seq: "evals ws p st st1 \<Longrightarrow> evals ws q st1 st2 \<Longrightarrow> evals ws (FSeq p q) st st2"
| if_true: "v \<noteq> 0 \<Longrightarrow> evals ws p (xs, rs) st \<Longrightarrow> evals ws (FIf p q) (v # xs, rs) st"
| if_false: "evals ws q (xs, rs) st \<Longrightarrow> evals ws (FIf p q) (0 # xs, rs) st"
| until_done: "evals ws p st (v # xs, rs) \<Longrightarrow> v \<noteq> 0 \<Longrightarrow> evals ws (FUntil p) st (xs, rs)"
| until_again: "evals ws p st (0 # xs, rs) \<Longrightarrow> evals ws (FUntil p) (xs, rs) st' \<Longrightarrow> evals ws (FUntil p) st st'"
| while_done: "evals ws p st (0 # xs, rs) \<Longrightarrow> evals ws (FWhile p q) st (xs, rs)"
| while_again: "evals ws p st (v # xs, rs) \<Longrightarrow> v \<noteq> 0 \<Longrightarrow> evals ws q (xs, rs) st1 \<Longrightarrow> evals ws (FWhile p q) st1 st' \<Longrightarrow>
    evals ws (FWhile p q) st st'"
| call: "i < length ws \<Longrightarrow> evals ws (ws ! i) st st' \<Longrightarrow> evals ws (FCall i) st st'"

inductive_cases evals_elims [elim!]:
  "evals ws FNop st st'" "evals ws (FNum k) st st'" "evals ws (FOp x) st st'" "evals ws (FSeq p q) st st'"
  "evals ws (FIf p q) st st'" "evals ws (FCall i) st st'"

inductive_cases evals_untilE: "evals ws (FUntil p) st st'"

inductive_cases evals_whileE: "evals ws (FWhile p q) st st'"

text \<open>A program has at most one outcome.\<close>

lemma evals_fun: "evals ws p st st1 \<Longrightarrow> evals ws p st st2 \<Longrightarrow> st1 = st2"
proof (induction arbitrary: st2 rule: evals.induct)
  case (until_done p st v xs rs)
  from until_done.prems show ?case by (rule evals_untilE) (use until_done.IH until_done.hyps in auto)
next
  case (until_again p st xs rs st')
  from until_again.prems show ?case by (rule evals_untilE) (auto dest!: until_again.IH)
next
  case (while_done p st xs rs q)
  from while_done.prems show ?case by (rule evals_whileE) (use while_done.IH in auto)
next
  case (while_again p st v xs rs q u st')
  note hyps = while_again.hyps and IH = while_again.IH
  show ?case using while_again.prems
  proof cases
    case (while_done ys qs)
    then show ?thesis using IH(1) [OF while_done(2)] hyps by simp
  next
    case (while_again w ys qs u')
    then have "xs = ys" "rs = qs" using IH(1) [OF while_again(1)] by simp_all
    then have "u = u'" using IH(2) while_again(3) by simp
    then show ?thesis using IH(3) while_again(4) by simp
  qed
next
  case (seq p st st1 q st2')
  from seq.prems obtain u where "evals ws p st u" "evals ws q u st2" by blast
  then show ?case using seq.IH by blast
next
  case (if_true v p xs rs st q)
  from if_true.prems have "evals ws p (xs, rs) st2" using if_true.hyps by blast
  then show ?case by (rule if_true.IH)
next
  case (if_false q xs rs st p)
  from if_false.prems have "evals ws q (xs, rs) st2" by blast
  then show ?case by (rule if_false.IH)
next
  case (call i st st')
  from call.prems have "evals ws (ws ! i) st st2" by blast
  then show ?case by (rule call.IH)
next
  case (op x st st')
  from op.prems have "prim_step x st = Some st2" by blast
  then show ?case using op.hyps by simp
qed blast+

section \<open>The compiler\<close>

definition offset16 :: "int \<Rightarrow> u8 list" where
  "offset16 k = [word_of_int k, word_of_int (drop_bit 8 k)]"

fun compile :: "forth \<Rightarrow> u8 list" where
  "compile FNop = []"
| "compile (FNum k) = op_byte Op_LIT # bytes32 k"
| "compile (FOp x) = [op_byte x]"
| "compile (FSeq p q) = compile p @ compile q"
| "compile (FIf p q) =
    (let cp = compile p; cq = compile q
     in op_byte Op_JZ # offset16 (int (length cp) + 3) @ cp @ op_byte Op_JMP # offset16 (int (length cq)) @ cq)"
| "compile (FUntil p) = (let cp = compile p in cp @ op_byte Op_JZ # offset16 (- int (length cp) - 3))"
| "compile (FWhile p q) =
    (let cp = compile p; cq = compile q
     in cp @ op_byte Op_JZ # offset16 (int (length cq) + 3) @ cq @
        op_byte Op_JMP # offset16 (- int (length cp) - int (length cq) - 6))"
| "compile (FCall i) = op_byte Op_CALL # offset16 (int i)"

definition word_code :: "forth \<Rightarrow> u8 list" where
  "word_code p = compile p @ [op_byte Op_RET]"

text \<open>The dictionary holds the compiled words in order, none too long for a 16-bit jump.\<close>

definition compiled :: "forth list \<Rightarrow> Word list \<Rightarrow> bool" where
  "compiled ws W \<longleftrightarrow> length ws \<le> V4_MAX_WORDS \<and> (\<forall>i < length ws. length (compile (ws ! i)) < 2 ^ 15 \<and>
     w_code (W ! i) = Some (word_code (ws ! i)) \<and> w_code_len (W ! i) = int (length (word_code (ws ! i))))"

lemma length_offset16 [simp]: "length (offset16 k) = 2"
  by (simp add: offset16_def)

lemma offset16_join:
  "(ucast (word_of_int k :: u8) OR push_bit 8 (ucast (word_of_int (drop_bit 8 k) :: u8)) :: u16) = word_of_int k"
proof (rule bit_word_eqI)
  fix n assume "n < LENGTH(16)"
  then show "bit (ucast (word_of_int k :: u8) OR push_bit 8 (ucast (word_of_int (drop_bit 8 k) :: u8)) :: u16) n = bit (word_of_int k :: u16) n"
    by (cases "n < 8") (auto simp: bit_simps)
qed

lemma read_offset16: "i = length pre \<Longrightarrow> read_i16_le (pre @ offset16 k @ post) i s = Ret (word_of_int k) s"
  using offset16_join [of k] by (simp add: read_i16_le_def byte_at_def offset16_def nth_append bnd_def)

lemma sint_offset16: "- (2 ^ 15) \<le> k \<Longrightarrow> k < 2 ^ 15 \<Longrightarrow> sint (word_of_int k :: u16) = k"
  by (simp only: sint_sbintrunc') (simp add: signed_take_bit_int_eq_self)

section \<open>Segments of a run\<close>

text \<open>
  The loop gets from one offset and machine to another, with some rounds of its own and for every amount of
  fuel that is enough for the words called on the way.
\<close>

definition goes :: "'d env \<Rightarrow> u8 list \<Rightarrow> int \<Rightarrow> nat \<Rightarrow> 'd machine \<Rightarrow> nat \<Rightarrow> 'd machine \<Rightarrow> bool" where
  "goes E bc len ip s ip' t \<longleftrightarrow> (\<exists>N k. \<forall>f \<ge> N. exec_loop (f + k) E bc len ip s = exec_loop f E bc len ip' t)"

lemma goes_refl: "goes E bc len ip s ip s"
  unfolding goes_def by (intro exI [of _ 0]) simp

lemma goes_trans:
  assumes "goes E bc len i s j t" and "goes E bc len j t k u"
  shows "goes E bc len i s k u"
proof -
  obtain N m where a: "\<And>f. N \<le> f \<Longrightarrow> exec_loop (f + m) E bc len i s = exec_loop f E bc len j t"
    using assms(1) unfolding goes_def by blast
  obtain N' m' where b: "\<And>f. N' \<le> f \<Longrightarrow> exec_loop (f + m') E bc len j t = exec_loop f E bc len k u"
    using assms(2) unfolding goes_def by blast
  have "exec_loop (f + (m' + m)) E bc len i s = exec_loop f E bc len k u" if "max N N' \<le> f" for f
    using a [of "f + m'"] b [of f] that by (simp add: add.assoc)
  then show ?thesis unfolding goes_def by blast
qed

lemma goes_step:
  assumes "\<And>f. N \<le> f \<Longrightarrow> exec_step E f (vm_exec_raw E f) bc len ip s = Ret (Continue ip') t" and "int ip < len"
  shows "goes E bc len ip s ip' t"
proof -
  have "exec_loop (f + 1) E bc len ip s = exec_loop f E bc len ip' t" if "N \<le> f" for f
    using assms that by (simp add: exec_loop_Suc bnd_def)
  then show ?thesis unfolding goes_def by blast
qed

text \<open>The machine holds the two stacks of the semantics and the dictionary.\<close>

definition holds :: "Word list \<Rightarrow> int \<Rightarrow> stacks \<Rightarrow> 'd machine \<Rightarrow> bool" where
  "holds W n st s \<longleftrightarrow> wf_stacks s \<and> top_first s = fst st \<and> rev (return_stack s) = snd st \<and> has_words W n s"

lemma holds_fp [simp]: "holds W n st (s\<lparr>fp := f\<rparr>) = holds W n st s"
  by (simp add: holds_def wf_stacks_def top_first_def data_stack_def return_stack_def)

text \<open>An instruction of the stack machine does not touch the dictionary.\<close>

lemma prim_keeps_words:
  assumes "abs_prim x xs = Some ys" shows "keeps (has_words W n) UNIV (exec_op x E fuel run bc len ip)"
  using assms
  by (cases x) ((simp add: abs_prim_def; fail) | (simp only: exec_op.simps, intro keeps_intros UNIV_I))+

lemma rs_push_to:
  assumes "wf_stacks s" and "rp s < RS_SIZE"
  obtains t where "rs_push E v s = Ret () t" "return_stack t = return_stack s @ [v]" "top_first t = top_first s" "wf_stacks t"
  using assms
  by (simp add: rs_push_def return_stack_def top_first_def data_stack_def wf_stacks_def take_Suc_update)

lemma rs_pop_to:
  assumes "wf_stacks s" and "return_stack s = rs @ [v]"
  obtains t where "rs_pop E s = Ret v t" "return_stack t = rs" "top_first t = top_first s" "wf_stacks t"
  using take_snoc [OF wf_stacks_rp [OF assms(1)] assms(2) [unfolded return_stack_def]] assms(1) that [of "s\<lparr>rp := rp s - 1\<rparr>"]
  by (simp add: rs_pop_def return_stack_def top_first_def data_stack_def wf_stacks_def le_diff_conv)

lemma push_to:
  assumes "wf_stacks s" and "length (top_first s) < DS_SIZE"
  obtains t where "ds_push E v s = Ret () t" "top_first t = v # top_first s" "return_stack t = return_stack s" "wf_stacks t"
  using effect_D [OF effect_push [OF assms(2)] assms(1) refl] by metis

lemma stacks_words [simp]:
  "keeps (has_words W n) UNIV (exec_TOR E)" "keeps (has_words W n) UNIV (exec_FROMR E)" "keeps (has_words W n) UNIV (exec_RFETCH E)"
  by (intro keeps_intros)+

lemma TOR_holds:
  assumes "holds W n (v # xs, rs) s" and "length rs < RS_SIZE"
  shows "\<exists>t. exec_TOR E s = Ret () t \<and> holds W n (xs, v # rs) t"
proof -
  have s: "wf_stacks s" "top_first s = v # xs" "rev (return_stack s) = rs" "has_words W n s" using assms by (simp_all add: holds_def)
  obtain t where t: "ds_pop E s = Ret v t" "top_first t = xs" "wf_stacks t" "return_stack t = return_stack s"
    using pop_to [OF s(1,2)] .
  have "rp t < RS_SIZE" using assms(2) s(3) length_return_stack [OF t(3)] t(4) by auto
  then obtain u where u: "rs_push E v t = Ret () u" "return_stack u = return_stack t @ [v]" "top_first u = top_first t" "wf_stacks u"
    using rs_push_to [OF t(3)] by blast
  have run: "exec_TOR E s = Ret () u" using t u by (simp add: exec_TOR_def)
  then have "has_words W n u" using keeps_Ret [OF stacks_words(1) s(4)] by simp
  then show ?thesis using run t u s by (auto simp: holds_def)
qed

lemma FROMR_holds:
  assumes "holds W n (xs, v # rs) s" and "length xs < DS_SIZE"
  shows "\<exists>t. exec_FROMR E s = Ret () t \<and> holds W n (v # xs, rs) t"
    and "\<exists>t. exec_RFETCH E s = Ret () t \<and> holds W n (v # xs, v # rs) t"
proof -
  have s: "wf_stacks s" "top_first s = xs" "return_stack s = rev rs @ [v]" "has_words W n s"
    using assms by (simp_all add: holds_def rev_eq_Cons_iff)
  obtain t where t: "rs_pop E s = Ret v t" "return_stack t = rev rs" "top_first t = top_first s" "wf_stacks t"
    using rs_pop_to [OF s(1,3)] .
  obtain u where u: "ds_push E v t = Ret () u" "top_first u = v # xs" "return_stack u = return_stack t" "wf_stacks u"
    using push_to [OF t(4), of E v] t(3) s(2) assms(2) by auto
  have run: "exec_FROMR E s = Ret () u" using t u by (simp add: exec_FROMR_def)
  then have "has_words W n u" using keeps_Ret [OF stacks_words(2) s(4)] by simp
  then show "\<exists>t. exec_FROMR E s = Ret () t \<and> holds W n (v # xs, rs) t" using run t u by (auto simp: holds_def)
  obtain u where u: "ds_push E v s = Ret () u" "top_first u = v # xs" "return_stack u = return_stack s" "wf_stacks u"
    using push_to [OF s(1), of E v] s(2) assms(2) by auto
  have "0 < rp s" using s(3) length_return_stack [OF s(1)] by simp
  then have "rs_peek E 0 s = Ret v s" using rs_peek_eq [OF s(1), of 0 E] s(3) by simp
  then have run: "exec_RFETCH E s = Ret () u" using u by (simp add: exec_RFETCH_def)
  then have "has_words W n u" using keeps_Ret [OF stacks_words(3) s(4)] by simp
  then show "\<exists>t. exec_RFETCH E s = Ret () t \<and> holds W n (v # xs, v # rs) t" using run s u by (auto simp: holds_def)
qed

section \<open>Rounds of the loop\<close>

lemma op_holds:
  assumes "prim_step x st = Some st'" and "bounded st'" and s: "holds W n st s"
  shows "\<exists>t. (\<forall>fuel run bc len ip. exec_op x E fuel run bc len ip s = Ret (Continue ip) t) \<and> holds W n st' t"
proof -
  obtain xs rs where st: "st = (xs, rs)" by (cases st)
  consider (tor) "x = Op_TOR" | (fromr) "x = Op_FROMR" | (rfetch) "x = Op_RFETCH"
    | (prim) ys where "abs_prim x xs = Some ys" "st' = (ys, rs)"
    using assms(1) st by (cases x) (auto simp: prim_step_def)
  then show ?thesis
  proof cases
    case tor
    then obtain v r where x: "xs = v # r" "st' = (r, v # rs)" using assms(1) st by (auto simp: prim_step_def split: list.splits)
    obtain t where "exec_TOR E s = Ret () t" "holds W n st' t"
      using TOR_holds [of W n v r rs s E] s assms(2) st x by (auto simp: bounded_def Suc_le_eq)
    then show ?thesis using tor by (auto simp: continue_at_def)
  next
    case fromr
    then obtain v r where x: "rs = v # r" "st' = (v # xs, r)" using assms(1) st by (auto simp: prim_step_def split: list.splits)
    obtain t where "exec_FROMR E s = Ret () t" "holds W n st' t"
      using FROMR_holds(1) [of W n xs v r s E] s assms(2) st x by (auto simp: bounded_def Suc_le_eq)
    then show ?thesis using fromr by (auto simp: continue_at_def)
  next
    case rfetch
    then obtain v r where x: "rs = v # r" "st' = (v # xs, rs)" using assms(1) st by (auto simp: prim_step_def split: list.splits)
    obtain t where "exec_RFETCH E s = Ret () t" "holds W n st' t"
      using FROMR_holds(2) [of W n xs v r s E] s assms(2) st x by (auto simp: bounded_def Suc_le_eq)
    then show ?thesis using rfetch by (auto simp: continue_at_def)
  next
    case prim
    have "length ys \<le> DS_SIZE" using assms(2) prim(2) by (simp add: bounded_def)
    then obtain m where m: "effect m xs ys" "\<And>fuel run bc len ip. exec_op x E fuel run bc len ip = continue_at ip m"
      using prim_simulated [OF prim(1), of E] unfolding simulated_def by blast
    obtain t where t: "m s = Ret () t" "top_first t = ys" "return_stack t = return_stack s" "wf_stacks t"
      using effect_D [OF m(1), of s] s st by (auto simp: holds_def)
    have run: "exec_op x E fuel run bc len ip s = Ret (Continue ip) t" for fuel run bc len ip
      using m(2) t(1) by (simp add: continue_at_def)
    have "has_words W n t"
      using keeps_Ret [OF prim_keeps_words [OF prim(1)] _ run] s by (simp add: holds_def)
    then show ?thesis using run t s st prim(2) by (auto simp: holds_def)
  qed
qed

lemma JMP_step:
  assumes bc: "bc = pre @ op_byte Op_JMP # offset16 k @ post" and len: "int (length pre) + 3 \<le> len"
    and k: "- (2 ^ 15) \<le> k" "k < 2 ^ 15" and tgt: "0 \<le> int (length pre) + 3 + k" "int (length pre) + 3 + k \<le> len"
  shows "exec_step E fuel run bc len (length pre) s = Ret (Continue (nat (int (length pre) + 3 + k))) s"
proof -
  have "read_i16_le bc (Suc (length pre)) s = Ret (word_of_int k) s"
    using read_offset16 [of "Suc (length pre)" "pre @ [op_byte Op_JMP]" k post s] bc by simp
  then show ?thesis
    using assms exec_step_at [of "op_byte Op_JMP # offset16 k" Op_JMP "offset16 k" E fuel run pre post len s] sint_offset16 [OF k]
    by (simp add: exec_JMP_def jump_to_def Let_def bnd_def add_ac)
qed

lemma JZ_step:
  assumes bc: "bc = pre @ op_byte Op_JZ # offset16 k @ post" and len: "int (length pre) + 3 \<le> len"
    and k: "- (2 ^ 15) \<le> k" "k < 2 ^ 15" and tgt: "0 \<le> int (length pre) + 3 + k" "int (length pre) + 3 + k \<le> len"
    and s: "holds W n (v # xs, rs) s"
  shows "\<exists>t. (\<forall>fuel run. exec_step E fuel run bc len (length pre) s =
      Ret (Continue (if v = 0 then nat (int (length pre) + 3 + k) else length pre + 3)) t) \<and> holds W n (xs, rs) t"
proof -
  obtain t where t: "ds_pop E s = Ret v t" "top_first t = xs" "wf_stacks t" "return_stack t = return_stack s"
    using pop_to [of s v xs E] s by (auto simp: holds_def)
  have "has_words W n t" using keeps_Ret [OF words_stacks(2) _ t(1)] s by (simp add: holds_def)
  then have hold: "holds W n (xs, rs) t" using t s by (simp add: holds_def)
  have "read_i16_le bc (Suc (length pre)) s = Ret (word_of_int k) s"
    using read_offset16 [of "Suc (length pre)" "pre @ [op_byte Op_JZ]" k post s] bc by simp
  then have "exec_step E fuel run bc len (length pre) s =
      Ret (Continue (if v = 0 then nat (int (length pre) + 3 + k) else length pre + 3)) t" for fuel run
    using assms t(1) exec_step_at [of "op_byte Op_JZ # offset16 k" Op_JZ "offset16 k" E fuel run pre post len s] sint_offset16 [OF k]
    by (simp add: exec_JZ_def jump_to_def Let_def bnd_def add_ac)
  then show ?thesis using hold by blast
qed

lemma word_ends:
  assumes "goes E (word_code p) (int (length (word_code p))) 0 s (length (compile p)) t"
  shows "\<exists>N. \<forall>f \<ge> N. vm_exec_raw E f (word_code p) (int (length (word_code p))) s = Ret 0 t"
proof -
  let ?bc = "word_code p" and ?len = "int (length (word_code p))"
  obtain N k where g: "\<And>f. N \<le> f \<Longrightarrow> exec_loop (f + k) E ?bc ?len 0 s = exec_loop f E ?bc ?len (length (compile p)) t"
    using assms unfolding goes_def by blast
  have "exec_step E f run ?bc ?len (length (compile p)) t = Ret Return t" for f run
    using exec_step_at [of "[op_byte Op_RET]" Op_RET "[]" E f run "compile p" "[]" ?len t] by (simp add: word_code_def)
  then have ret: "exec_loop (Suc f) E ?bc ?len (length (compile p)) t = Ret () t" for f
    by (simp add: exec_loop_Suc bnd_def word_code_def)
  have "vm_exec_raw E f ?bc ?len s = Ret 0 t" if "N + k + 1 \<le> f" for f
  proof -
    define f' where "f' = f - k - 1"
    have f': "f = Suc f' + k" "N \<le> Suc f'" using that by (simp_all add: f'_def)
    then have "exec_loop f E ?bc ?len 0 s = Ret () t" using g [of "Suc f'"] ret [of f'] by simp
    then show ?thesis by (simp add: vm_exec_raw_def entry_assert_def word_code_def bnd_def code_of_def)
  qed
  then show ?thesis by blast
qed

lemma CALL_step:
  assumes bc: "bc = pre @ op_byte Op_CALL # offset16 (int i) @ post" and len: "int (length pre) + 3 \<le> len"
    and i: "i < length ws" and ws: "compiled ws W" and s: "holds W (int (length ws)) st s"
    and run: "vm_exec_raw E f (word_code (ws ! i)) (int (length (word_code (ws ! i)))) (s\<lparr>fp := Some (rp s)\<rparr>) = Ret 0 t"
  shows "exec_step E f (vm_exec_raw E f) bc len (length pre) s = Ret (Continue (length pre + 3)) (t\<lparr>fp := fp s\<rparr>)"
proof -
  have n: "i < 256" "length ws \<le> 256" using ws i by (simp_all add: compiled_def V4_MAX_WORDS_def)
  have u: "unat (word_of_int (int i) :: u16) = i" "unat (word_of_int (int (length ws)) :: u16) = length ws"
    using n by (simp_all add: unsigned_of_nat take_bit_nat_eq_self)
  have idx: "\<not> (word_of_int (int i) :: u16) \<ge> word_of_int (int (length ws))"
    using i u by (simp only: word_le_nat_alt not_le)
  have w: "w_code (words s ! i) = Some (word_code (ws ! i))" "w_code_len (words s ! i) = int (length (word_code (ws ! i)))"
    using ws i s by (simp_all add: compiled_def holds_def has_words_def)
  have wc: "word_count s = int (length ws)" using s by (simp add: holds_def has_words_def)
  have "read_i16_le bc (Suc (length pre)) s = Ret (word_of_int (int i)) s"
    using read_offset16 [of "Suc (length pre)" "pre @ [op_byte Op_CALL]" "int i" post s] bc by simp
  moreover have "0 < length (word_code (ws ! i))" by (simp add: word_code_def)
  ultimately have "exec_CALL E (vm_exec_raw E f) bc len (Suc (length pre)) s = Ret (Continue (length pre + 3)) (t\<lparr>fp := fp s\<rparr>)"
    using len idx u(1) w wc run unfolding exec_CALL_def by (simp add: bnd_def Let_def)
  then show ?thesis
    using exec_step_at [of "op_byte Op_CALL # offset16 (int i)" Op_CALL "offset16 (int i)" E f "vm_exec_raw E f" pre post len s] bc
    by simp
qed

section \<open>The compiler is correct\<close>

lemma evals_goes:
  assumes "evals ws p st st'" and ws: "compiled ws W" and "bc = pre @ compile p @ post"
    and "int (length (pre @ compile p)) \<le> len" and "length (compile p) < 2 ^ 15" and "holds W (int (length ws)) st s"
  shows "\<exists>t. goes E bc len (length pre) s (length (pre @ compile p)) t \<and> holds W (int (length ws)) st' t"
  using assms(1,3-)
proof (induction arbitrary: bc len pre post s rule: evals.induct)
  case (nop st)
  then show ?case using goes_refl [of E bc len "length pre" s] by auto
next
  case (num k xs rs)
  have s: "wf_stacks s" "top_first s = xs" "rev (return_stack s) = rs" "has_words W (int (length ws)) s"
    using num.prems by (simp_all add: holds_def)
  obtain t where t: "ds_push E k s = Ret () t" "top_first t = k # xs" "return_stack t = return_stack s" "wf_stacks t"
    using push_to [OF s(1), of E k] s(2) num.hyps by (auto simp: bounded_def)
  have "read_i32_le bc (Suc (length pre)) s = Ret k s"
    using read_bytes32 [of "pre @ [op_byte Op_LIT]" k post s] num.prems(1) by simp
  then have step: "exec_step E f run bc len (length pre) s = Ret (Continue (length pre + 5)) t" for f run
    using num.prems t(1) exec_step_at [of "compile (FNum k)" Op_LIT "bytes32 k" E f run pre post len s]
    by (simp add: exec_LIT_def continue_at_def bnd_def bytes32_def)
  have "has_words W (int (length ws)) t" using keeps_Ret [OF words_stacks(1) s(4) t(1)] .
  then have hold: "holds W (int (length ws)) (k # xs, rs) t" using t s by (simp add: holds_def)
  have "length (pre @ compile (FNum k)) = length pre + 5" by (simp add: bytes32_def)
  then show ?case using goes_step [OF step] num.prems(2) hold by (simp only:) auto
next
  case (op x st st')
  obtain t where t: "\<And>fuel run bc len ip. exec_op x E fuel run bc len ip s = Ret (Continue ip) t" "holds W (int (length ws)) st' t"
    using op_holds [OF op.hyps op.prems(4)] by metis
  have step: "exec_step E f run bc len (length pre) s = Ret (Continue (Suc (length pre))) t" for f run
    using op.prems(1) t(1) exec_step_at [of "[op_byte x]" x "[]" E f run pre post len s] by simp
  show ?case using goes_step [OF step] op.prems(2) t(2) by auto
next
  case (seq p st st1 q st2)
  obtain t where t: "goes E bc len (length pre) s (length (pre @ compile p)) t" "holds W (int (length ws)) st1 t"
    using seq.IH(1) [of bc pre "compile q @ post" len s] seq.prems by auto
  obtain u where u: "goes E bc len (length (pre @ compile p)) t (length ((pre @ compile p) @ compile q)) u" "holds W (int (length ws)) st2 u"
    using seq.IH(2) [of bc "pre @ compile p" post len t] seq.prems t(2) by auto
  show ?case using goes_trans [OF t(1) u(1)] u(2) by auto
next
  case (if_true v p xs rs st q)
  let ?jz = "op_byte Op_JZ # offset16 (int (length (compile p)) + 3)" and ?jmp = "op_byte Op_JMP # offset16 (int (length (compile q)))"
  have bc: "bc = pre @ ?jz @ (compile p @ ?jmp @ compile q @ post)" "bc = (pre @ ?jz) @ compile p @ (?jmp @ compile q @ post)"
    "bc = (pre @ ?jz @ compile p) @ ?jmp @ (compile q @ post)"
    using if_true.prems(1) by (simp_all add: Let_def)
  obtain t where t: "\<And>f run. exec_step E f run bc len (length pre) s = Ret (Continue (length (pre @ ?jz))) t" "holds W (int (length ws)) (xs, rs) t"
    using JZ_step [OF bc(1) [unfolded append_Cons], of len W "int (length ws)" v xs rs s E] if_true.prems if_true.hyps by (auto simp: Let_def)
  obtain u where u: "goes E bc len (length (pre @ ?jz)) t (length ((pre @ ?jz) @ compile p)) u" "holds W (int (length ws)) st u"
    using if_true.IH [OF bc(2) _ _ t(2), of len] if_true.prems by (auto simp: Let_def)
  have j: "exec_step E f run bc len (length ((pre @ ?jz) @ compile p)) u = Ret (Continue (length (pre @ compile (FIf p q)))) u" for f run
    using JMP_step [OF bc(3) [unfolded append_Cons], of len E f run u] if_true.prems by (simp add: Let_def nat_add_distrib add_ac)
  show ?case
    using goes_trans [OF goes_trans [OF goes_step [OF t(1)] u(1)] goes_step [OF j]] u(2) if_true.prems
    by (auto simp: Let_def)
next
  case (if_false q xs rs st p)
  let ?jz = "op_byte Op_JZ # offset16 (int (length (compile p)) + 3)" and ?jmp = "op_byte Op_JMP # offset16 (int (length (compile q)))"
  have bc: "bc = pre @ ?jz @ (compile p @ ?jmp @ compile q @ post)" "bc = (pre @ ?jz @ compile p @ ?jmp) @ compile q @ post"
    using if_false.prems(1) by (simp_all add: Let_def)
  obtain t where t: "\<And>f run. exec_step E f run bc len (length pre) s = Ret (Continue (length (pre @ ?jz @ compile p @ ?jmp))) t"
      "holds W (int (length ws)) (xs, rs) t"
    using JZ_step [OF bc(1) [unfolded append_Cons], of len W "int (length ws)" 0 xs rs s E] if_false.prems
    by (auto simp: Let_def nat_add_distrib add_ac)
  obtain u where u: "goes E bc len (length (pre @ ?jz @ compile p @ ?jmp)) t (length ((pre @ ?jz @ compile p @ ?jmp) @ compile q)) u"
      "holds W (int (length ws)) st u"
    using if_false.IH [OF bc(2) _ _ t(2), of len] if_false.prems by (auto simp: Let_def)
  show ?case using goes_trans [OF goes_step [OF t(1)] u(1)] u(2) if_false.prems by (auto simp: Let_def)
next
  case (until_done p st v xs rs)
  have bc: "bc = pre @ compile p @ (op_byte Op_JZ # offset16 (- int (length (compile p)) - 3) @ post)"
    "bc = (pre @ compile p) @ op_byte Op_JZ # offset16 (- int (length (compile p)) - 3) @ post"
    using until_done.prems(1) by (simp_all add: Let_def)
  obtain t where t: "goes E bc len (length pre) s (length (pre @ compile p)) t" "holds W (int (length ws)) (v # xs, rs) t"
    using until_done.IH [OF bc(1) _ _ until_done.prems(4), of len] until_done.prems(2,3) by (auto simp: Let_def)
  obtain u where u: "\<And>f run. exec_step E f run bc len (length (pre @ compile p)) t = Ret (Continue (length (pre @ compile (FUntil p)))) u"
      "holds W (int (length ws)) (xs, rs) u"
    using JZ_step [OF bc(2), of len W "int (length ws)" v xs rs t E] until_done.prems(2,3) until_done.hyps t(2)
    by (auto simp: Let_def add_ac)
  show ?case using goes_trans [OF t(1) goes_step [OF u(1)]] u(2) until_done.prems(2) by (auto simp: Let_def)
next
  case (until_again p st xs rs st')
  have bc: "bc = pre @ compile p @ (op_byte Op_JZ # offset16 (- int (length (compile p)) - 3) @ post)"
    "bc = (pre @ compile p) @ op_byte Op_JZ # offset16 (- int (length (compile p)) - 3) @ post"
    using until_again.prems(1) by (simp_all add: Let_def)
  obtain t where t: "goes E bc len (length pre) s (length (pre @ compile p)) t" "holds W (int (length ws)) (0 # xs, rs) t"
    using until_again.IH(1) [OF bc(1) _ _ until_again.prems(4), of len] until_again.prems(2,3) by (auto simp: Let_def)
  obtain u where u: "\<And>f run. exec_step E f run bc len (length (pre @ compile p)) t = Ret (Continue (length pre)) u"
      "holds W (int (length ws)) (xs, rs) u"
    using JZ_step [OF bc(2), of len W "int (length ws)" 0 xs rs t E] until_again.prems(2,3) t(2) by (auto simp: Let_def add_ac)
  obtain v where v: "goes E bc len (length pre) u (length (pre @ compile (FUntil p))) v" "holds W (int (length ws)) st' v"
    using until_again.IH(2) [OF until_again.prems(1-3) u(2)] by blast
  have "int (length (pre @ compile p)) < len" using until_again.prems(2) by (simp add: Let_def)
  from goes_trans [OF goes_trans [OF t(1) goes_step [OF u(1) this]] v(1)] v(2) show ?case by blast
next
  case (while_done p st xs rs q)
  let ?jz = "op_byte Op_JZ # offset16 (int (length (compile q)) + 3)"
    and ?jmp = "op_byte Op_JMP # offset16 (- int (length (compile p)) - int (length (compile q)) - 6)"
  have bc: "bc = pre @ compile p @ (?jz @ compile q @ ?jmp @ post)" "bc = (pre @ compile p) @ ?jz @ (compile q @ ?jmp @ post)"
    using while_done.prems(1) by (simp_all add: Let_def)
  obtain t where t: "goes E bc len (length pre) s (length (pre @ compile p)) t" "holds W (int (length ws)) (0 # xs, rs) t"
    using while_done.IH [OF bc(1) _ _ while_done.prems(4), of len] while_done.prems(2,3) by (auto simp: Let_def)
  obtain u where u: "\<And>f run. exec_step E f run bc len (length (pre @ compile p)) t = Ret (Continue (length (pre @ compile (FWhile p q)))) u"
      "holds W (int (length ws)) (xs, rs) u"
    using JZ_step [OF bc(2) [unfolded append_Cons], of len W "int (length ws)" 0 xs rs t E] while_done.prems(2,3) t(2)
    by (auto simp: Let_def nat_add_distrib add_ac)
  show ?case using goes_trans [OF t(1) goes_step [OF u(1)]] u(2) while_done.prems(2) by (auto simp: Let_def)
next
  case (while_again p st v xs rs q st1 st')
  let ?jz = "op_byte Op_JZ # offset16 (int (length (compile q)) + 3)"
    and ?jmp = "op_byte Op_JMP # offset16 (- int (length (compile p)) - int (length (compile q)) - 6)"
  have bc: "bc = pre @ compile p @ (?jz @ compile q @ ?jmp @ post)" "bc = (pre @ compile p) @ ?jz @ (compile q @ ?jmp @ post)"
    "bc = (pre @ compile p @ ?jz) @ compile q @ (?jmp @ post)" "bc = (pre @ compile p @ ?jz @ compile q) @ ?jmp @ post"
    using while_again.prems(1) by (simp_all add: Let_def)
  obtain t where t: "goes E bc len (length pre) s (length (pre @ compile p)) t" "holds W (int (length ws)) (v # xs, rs) t"
    using while_again.IH(1) [OF bc(1) _ _ while_again.prems(4), of len] while_again.prems(2,3) by (auto simp: Let_def)
  obtain u where u: "\<And>f run. exec_step E f run bc len (length (pre @ compile p)) t = Ret (Continue (length (pre @ compile p @ ?jz))) u"
      "holds W (int (length ws)) (xs, rs) u"
    using JZ_step [OF bc(2) [unfolded append_Cons], of len W "int (length ws)" v xs rs t E] while_again.prems(2,3) while_again.hyps t(2)
    by (auto simp: Let_def)
  obtain x where x: "goes E bc len (length (pre @ compile p @ ?jz)) u (length ((pre @ compile p @ ?jz) @ compile q)) x"
      "holds W (int (length ws)) st1 x"
    using while_again.IH(2) [OF bc(3) _ _ u(2), of len] while_again.prems(2,3) by (auto simp: Let_def)
  have j: "exec_step E f run bc len (length ((pre @ compile p @ ?jz) @ compile q)) x = Ret (Continue (length pre)) x" for f run
    using JMP_step [OF bc(4) [unfolded append_Cons], of len E f run x] while_again.prems(2,3) by (simp add: Let_def add_ac)
  obtain y where y: "goes E bc len (length pre) x (length (pre @ compile (FWhile p q))) y" "holds W (int (length ws)) st' y"
    using while_again.IH(3) [OF while_again.prems(1-3) x(2)] by blast
  have "int (length (pre @ compile p)) < len" "int (length ((pre @ compile p @ ?jz) @ compile q)) < len"
    using while_again.prems(2) by (simp_all add: Let_def)
  from goes_trans [OF goes_trans [OF goes_trans [OF goes_trans [OF t(1) goes_step [OF u(1) this(1)]] x(1)] goes_step [OF j this(2)]] y(1)]
    y(2) show ?case by blast
next
  case (call i st st')
  let ?p = "ws ! i"
  have small: "length (compile ?p) < 2 ^ 15" using ws call.hyps by (simp add: compiled_def)
  obtain t where t: "goes E (word_code ?p) (int (length (word_code ?p))) 0 (s\<lparr>fp := Some (rp s)\<rparr>) (length (compile ?p)) t"
      "holds W (int (length ws)) st' t"
    using call.IH [of "word_code ?p" "[]" "[op_byte Op_RET]" "int (length (word_code ?p))" "s\<lparr>fp := Some (rp s)\<rparr>"] small call.prems(4)
    by (auto simp: word_code_def)
  obtain N where N: "\<And>f. N \<le> f \<Longrightarrow>
      vm_exec_raw E f (word_code ?p) (int (length (word_code ?p))) (s\<lparr>fp := Some (rp s)\<rparr>) = Ret 0 t"
    using word_ends [OF t(1)] by blast
  have bc: "bc = pre @ op_byte Op_CALL # offset16 (int i) @ post" and len: "int (length pre) + 3 \<le> len"
    using call.prems(1,2) by simp_all
  have "goes E bc len (length pre) s (length pre + 3) (t\<lparr>fp := fp s\<rparr>)"
    by (rule goes_step [of N], rule CALL_step [OF bc len call.hyps(1) ws call.prems(4) N]) (use len in simp_all)
  then show ?case using t(2) by auto
qed

end
