(* ===== verification/V4_Nonzero.thy ===== *)
theory V4_Nonzero
  imports V4_Runs
begin

text \<open>
  A failure has a code other than 0. So \<open>vm_exec_raw\<close> returns 0 only when its loop came to a \<open>RET\<close> or a
  \<open>TASK_EXIT\<close>: the caller can tell success from failure by the code.
\<close>

definition nonzero :: "('s, 'a) act \<Rightarrow> bool" where
  "nonzero m \<longleftrightarrow> (\<forall>s e t. m s = Fail e t \<longrightarrow> e \<noteq> 0)"

named_theorems nonzero_intros \<open>actions that fail with codes other than 0 only\<close>

lemma nonzero_bnd [nonzero_intros]: "nonzero m \<Longrightarrow> (\<And>a. nonzero (f a)) \<Longrightarrow> nonzero (bnd m f)"
  by (auto simp: nonzero_def bnd_def split: res.splits)

lemma nonzero_if [nonzero_intros]: "(b \<Longrightarrow> nonzero m) \<Longrightarrow> (\<not> b \<Longrightarrow> nonzero n) \<Longrightarrow> nonzero (if b then m else n)"
  by simp

lemma nonzero_case_option [nonzero_intros]:
  "nonzero m \<Longrightarrow> (\<And>a. nonzero (f a)) \<Longrightarrow> nonzero (case x of None \<Rightarrow> m | Some a \<Rightarrow> f a)"
  by (cases x) simp_all

lemma nonzero_case_prod [nonzero_intros]: "(\<And>a b. nonzero (f a b)) \<Longrightarrow> nonzero (case p of (a, b) \<Rightarrow> f a b)"
  by (cases p) simp

lemma V4_ERR_nonzero: "V4_ERR x \<noteq> 0 \<longleftrightarrow> x \<noteq> OK"
  by (cases x) simp_all

lemma nonzero_panic [nonzero_intros]: "x \<noteq> OK \<Longrightarrow> nonzero (panic E x)"
  by (auto simp: nonzero_def panic_def vm_panic_eq V4_ERR_nonzero simp del: V4_ERR.simps)

lemma nonzero_plain [nonzero_intros]:
  "nonzero (Ret a)" "e \<noteq> 0 \<Longrightarrow> nonzero (Fail e)" "nonzero (\<lambda>s. Undef u)" "nonzero (\<lambda>s. Timeout)" "nonzero (on_world f)"
  by (simp_all add: nonzero_def on_world_def split: prod.split)

lemma nonzero_stacks [nonzero_intros]:
  "nonzero (ds_push E v)" "nonzero (ds_pop E)" "nonzero (ds_peek E i)" "nonzero (rs_push E v)" "nonzero (rs_pop E)"
  "nonzero (rs_peek E i)"
  by (auto simp: nonzero_def ds_push_def ds_pop_def ds_peek_def rs_push_def rs_pop_def rs_peek_def panic_def vm_panic_eq)

lemma nonzero_memory [nonzero_intros]:
  "nonzero (v4_mem_read32_core a out)" "nonzero (v4_mem_write32_core a v)" "nonzero (v4_mem_read16_core a out)"
  "nonzero (v4_mem_write16_core a v)" "nonzero (v4_mem_read8_core a out)" "nonzero (v4_mem_write8_core a v)"
  by (simp_all add: nonzero_def v4_mem_read32_core_def v4_mem_write32_core_def v4_mem_read16_core_def
      v4_mem_write16_core_def v4_mem_read8_core_def v4_mem_write8_core_def Let_def split: option.split prod.split)

lemma nonzero_check [nonzero_intros]: "nonzero m \<Longrightarrow> nonzero (check m)"
  unfolding check_def by (rule nonzero_bnd) (simp_all add: nonzero_def)

lemma nonzero_loaded [nonzero_intros]: "nonzero m \<Longrightarrow> nonzero (loaded m)"
  unfolding loaded_def by (intro nonzero_intros) simp_all

lemma nonzero_small [nonzero_intros]:
  "nonzero (byte_at bc i)" "nonzero (exactly x)" "nonzero (shift_left v n)" "nonzero (local_cell E idx)"
  "nonzero (get_cell i)" "nonzero (set_cell i v)" "nonzero (v4_invoke_sys_handler E sid a b c)"
  "nonzero save_current" "nonzero (v4_task_restore_context tk)"
  by (auto simp: nonzero_def byte_at_def exactly_def shift_left_def local_cell_def get_cell_def set_cell_def
      v4_invoke_sys_handler_def save_current_def v4_task_restore_context_def Let_def panic_def vm_panic_eq
      split: option.split prod.split sum.split)

lemma nonzero_binary_result [nonzero_intros]: "nonzero (binary_result E op a b)"
  by (cases op) (simp_all only: binary_result.simps, (intro nonzero_intros; simp)+)

lemma nonzero_pre: "nonzero m \<Longrightarrow> nonzero (\<lambda>s. m (g s))"
  by (simp add: nonzero_def)

lemma nonzero_reads [nonzero_intros]:
  "nonzero (read_i32_le p i)" "nonzero (read_i16_le p i)" "nonzero m \<Longrightarrow> nonzero (continue_at ip m)"
  "nonzero (jump_to E len ip off)"
  unfolding read_i32_le_def read_i16_le_def continue_at_def jump_to_def Let_def
  by (intro nonzero_intros; (assumption | simp))+

lemma nonzero_switch [nonzero_intros]: "nonzero (switch_to n)"
  unfolding nonzero_def switch_to_def Let_def
  using nonzero_small(9) by (auto simp: bnd_def nonzero_def split: res.splits if_splits)

lemma nonzero_select [nonzero_intros]: "nonzero (v4_task_select_next E)"
  unfolding v4_task_select_next_def
  by (intro nonzero_bnd nonzero_plain) (simp add: nonzero_def Let_def split: prod.split)

lemma nonzero_schedule [nonzero_intros]: "nonzero (schedule E)"
  unfolding schedule_def by (intro nonzero_intros)

lemma nonzero_tasks [nonzero_intros]:
  "nonzero (task_exit E)" "nonzero (task_sleep E ms)" "nonzero (task_yield E)" "nonzero (task_send d mt x)"
  "nonzero (task_receive mt)" "nonzero (task_critical_enter E)" "nonzero (task_critical_exit E)"
proof -
  have sch: "nonzero (bnd (schedule E) (\<lambda>_. Ret (V4_ERR OK)))" by (intro nonzero_intros)
  show "nonzero (task_exit E)" unfolding task_exit_def Let_def by (rule nonzero_pre [OF sch])
  show "nonzero (task_yield E)" unfolding task_yield_def by (rule sch)
  show "nonzero (task_sleep E ms)"
    unfolding task_sleep_def Let_def by (intro nonzero_bnd nonzero_plain nonzero_pre [OF sch])
qed (simp_all add: nonzero_def task_send_def task_receive_def task_critical_enter_def task_critical_exit_def Let_def
    split: prod.split option.split)

lemma nonzero_spawn [nonzero_intros]: "nonzero (task_spawn E w p d r)"
  by (auto simp: nonzero_def task_spawn_def Let_def bnd_def on_world_def split: option.split prod.split if_splits)

lemma nonzero_receive_blocking [nonzero_intros]: "nonzero (task_receive_blocking E fuel mt ms)"
proof -
  have "nonzero (receive_loop E mt ms start fuel)" for start
  proof (induction fuel)
    case (Suc fuel)
    then show ?case unfolding receive_loop.simps by (intro nonzero_intros)
  qed (simp add: nonzero_def)
  then show ?thesis unfolding task_receive_blocking_def by (intro nonzero_intros)
qed

lemma nonzero_push_received [nonzero_intros]: "nonzero (push_received E r)"
  unfolding push_received_def by (intro nonzero_intros)

lemma nonzero_locals [nonzero_intros]:
  "nonzero (local_get E idx)" "nonzero (local_set E idx)" "nonzero (local_tee E idx)" "nonzero (local_inc E idx)"
  "nonzero (local_dec E idx)"
  unfolding local_get_def local_set_def local_tee_def local_inc_def local_dec_def by (intro nonzero_intros)+

lemma nonzero_with_index [nonzero_intros]: "(\<And>i. nonzero (m i)) \<Longrightarrow> nonzero (with_index E m bc len ip)"
  unfolding with_index_def by (intro nonzero_intros) simp_all

lemma nonzero_self [nonzero_intros]: "nonzero (exec_TASK_SELF E)" "nonzero (exec_TASK_COUNT E)"
  by (auto simp: nonzero_def exec_TASK_SELF_def exec_TASK_COUNT_def ds_push_def panic_def vm_panic_eq)

lemma nonzero_simple [nonzero_intros]:
  "nonzero (exec_DUP E)" "nonzero (exec_DROP E)" "nonzero (exec_SWAP E)" "nonzero (exec_OVER E)" "nonzero (exec_literal E k)"
  "nonzero (exec_binary E op)" "nonzero (exec_INC E)" "nonzero (exec_DEC E)" "nonzero (exec_AND E)" "nonzero (exec_OR E)"
  "nonzero (exec_XOR E)" "nonzero (exec_INVERT E)" "nonzero (exec_SHL E)" "nonzero (exec_SHR E)" "nonzero (exec_SAR E)"
  "nonzero (exec_SELECT E)" "nonzero (exec_LOAD E)" "nonzero (exec_STORE E)" "nonzero (exec_LOAD8U E)"
  "nonzero (exec_LOAD16U E)" "nonzero (exec_STORE8 E)" "nonzero (exec_STORE16 E)" "nonzero (exec_LOAD8S E)"
  "nonzero (exec_LOAD16S E)" "nonzero (exec_TOR E)" "nonzero (exec_FROMR E)" "nonzero (exec_RFETCH E)" "nonzero (exec_SYS E)"
  unfolding exec_simple_defs exec_SYS_def by (intro nonzero_intros)+

lemma nonzero_task_ops [nonzero_intros]:
  "nonzero (exec_TASK_SPAWN E)" "nonzero (exec_TASK_EXIT E)" "nonzero (exec_TASK_SLEEP E)" "nonzero (exec_TASK_YIELD E)"
  "nonzero (exec_CRITICAL_ENTER E)" "nonzero (exec_CRITICAL_EXIT E)" "nonzero (exec_TASK_SEND E)" "nonzero (exec_TASK_RECEIVE E)"
  "nonzero (exec_TASK_RECEIVE_BLOCKING E fuel)"
  unfolding exec_task_defs by (intro nonzero_intros)+

lemma nonzero_CALL:
  assumes run: "\<And>c l. nonzero (run c l)" shows "nonzero (exec_CALL E run bc len ip)"
proof -
  have inner: "nonzero (\<lambda>s. bnd (run c l) (\<lambda>e s1. let s2 = s1\<lparr>fp := old\<rparr> in if e \<noteq> 0 then Fail e s2 else Ret (Continue (ip + 2)) s2) (g s))"
    for c l old and g :: "'a machine \<Rightarrow> 'a machine"
    by (rule nonzero_pre, rule nonzero_bnd [OF run]) (simp add: nonzero_def Let_def)
  have p: "e \<noteq> 0" if "panic E x s = (Fail e t :: ('a machine, flow) res)" "x \<noteq> OK" for x e and s t :: "'a machine"
    using that by (auto simp: panic_def vm_panic_eq V4_ERR_nonzero simp del: V4_ERR.simps)
  show ?thesis unfolding exec_CALL_def
    by (intro nonzero_intros)
      (use inner in \<open>auto simp: nonzero_def Let_def dest: p split: option.splits if_splits\<close>)
qed

lemma nonzero_exec_op:
  assumes "\<And>c l. nonzero (run c l)" shows "nonzero (exec_op op E fuel run bc len ip)"
  by (cases op)
    (simp_all only: exec_op.simps exec_imm_defs with_tasks_def,
      (intro nonzero_intros nonzero_CALL assms; simp)+)

lemma nonzero_exec_loop: "nonzero (exec_loop fuel E bc len ip)"
proof (induction fuel arbitrary: bc len ip)
  case (Suc fuel)
  have run: "nonzero (vm_exec_raw E fuel c l)" for c l
    by (auto simp: nonzero_def vm_exec_raw_def entry_assert_def bnd_def code_of_def split: res.splits)
  have "nonzero (exec_step E fuel (vm_exec_raw E fuel) bc len ip)"
    unfolding exec_step_def by (intro nonzero_intros nonzero_exec_op run) simp
  moreover have "nonzero (case fl of Return \<Rightarrow> Ret () | Continue ip' \<Rightarrow> exec_loop fuel E bc len ip')" for fl
    using Suc.IH nonzero_plain(1) by (cases fl) auto
  ultimately show ?case unfolding exec_loop_Suc by (intro nonzero_intros) simp_all
qed (simp add: nonzero_def exec_loop_0)

text \<open>The code 0 means that the loop ended without an error.\<close>

lemma exec_raw_success:
  assumes "vm_exec_raw E fuel bc len s = Ret 0 t" shows "exec_loop fuel E bc len 0 s = Ret () t"
  using assms nonzero_exec_loop [of fuel E bc len 0]
  by (auto simp: vm_exec_raw_def entry_assert_def bnd_def code_of_def nonzero_def split: res.splits if_splits)

end
