(* ===== verification/V4_Structured_Exact.thy ===== *)
theory V4_Structured_Exact
  imports V4_Structured V4_Nonzero
begin

text \<open>
  The other direction of \<open>V4_Structured\<close>: when a run of a compiled word returns 0, the natural semantics has an
  outcome. An instruction the semantics gives no meaning, on a stack too short or too full or with an
  undefined result, does not return; so a run that came to the word's \<open>RET\<close> went where the rules go.
\<close>

section \<open>Instructions that do not return\<close>

definition stuck :: "('d machine, 'a) act \<Rightarrow> i32 list \<Rightarrow> bool" where
  "stuck m xs \<longleftrightarrow> (\<forall>s a t. wf_stacks s \<longrightarrow> top_first s = xs \<longrightarrow> m s \<noteq> Ret a t)"

lemma stuck_pop_nil: "stuck (bnd (ds_pop E) f) []"
  unfolding stuck_def
proof (intro allI impI)
  fix s :: "'a machine" and a t assume "wf_stacks s" "top_first s = []"
  from pop_none [OF this, of E] obtain t' where "ds_pop E s = Fail (V4_ERR StackUnderflow) t'" by blast
  then show "bnd (ds_pop E) f s \<noteq> Ret a t" by (simp del: V4_ERR.simps)
qed

lemma stuck_pop: "(length xs < DS_SIZE \<Longrightarrow> stuck (f v) xs) \<Longrightarrow> stuck (bnd (ds_pop E) f) (v # xs)"
  unfolding stuck_def using pop_step [where v = v and xs = xs] by fastforce

lemma stuck_push: "DS_SIZE \<le> length xs \<Longrightarrow> stuck (ds_push E v) xs"
  unfolding stuck_def by (auto dest: top_first_length simp: ds_push_def)

lemma stuck_fails: "(\<And>s a t. m s \<noteq> Ret a t) \<Longrightarrow> stuck (bnd m f) xs"
  by (auto simp: stuck_def bnd_eq_Ret_iff)

lemma stuck_value: "(\<And>s. m s = Ret v s) \<Longrightarrow> stuck (f v) xs \<Longrightarrow> stuck (bnd m f) xs"
  by (simp add: stuck_def bnd_def)

lemma stuck_peek_short: "length xs \<le> i \<Longrightarrow> stuck (bnd (ds_peek E i) f) xs"
  unfolding stuck_def by (auto dest: top_first_length simp: bnd_eq_Ret_iff ds_peek_def)

lemma stuck_peek: "i < length xs \<Longrightarrow> stuck (f (xs ! i)) xs \<Longrightarrow> stuck (bnd (ds_peek E i) f) xs"
  unfolding stuck_def
proof (intro allI impI)
  fix s :: "'a machine" and a t
  assume i: "i < length xs" and f: "\<forall>s a t. wf_stacks s \<longrightarrow> top_first s = xs \<longrightarrow> f (xs ! i) s \<noteq> Ret a t"
    and s: "wf_stacks s" "top_first s = xs"
  have "ds_peek E i s = Ret (xs ! i) s"
    using ds_peek_eq [OF s(1), of i E] s(2) i top_first_length [OF s] by (simp add: top_first_def)
  then show "bnd (ds_peek E i) f s \<noteq> Ret a t" using f s by simp
qed

text \<open>An instruction without a meaning on this stack.\<close>

definition meaningless :: "Op \<Rightarrow> i32 list \<Rightarrow> bool" where
  "meaningless x xs \<longleftrightarrow> (case abs_prim x xs of None \<Rightarrow> True | Some ys \<Rightarrow> DS_SIZE < length ys)"

definition blocks :: "Op \<Rightarrow> i32 list \<Rightarrow> 'd env \<Rightarrow> bool" where
  "blocks x xs E \<longleftrightarrow> (\<exists>m. stuck m xs \<and> (\<forall>fuel run bc len ip. exec_op x E fuel run bc len ip = continue_at ip m))"

lemma blocksI: "stuck m xs \<Longrightarrow> (\<And>fuel run bc len ip. exec_op x E fuel run bc len ip = continue_at ip m) \<Longrightarrow> blocks x xs E"
  unfolding blocks_def by blast

lemma short_list:
  obtains "xs = []" | b where "xs = [b]" | b a r where "xs = b # a # r"
  by (cases xs rule: remdups_adj.cases) auto

lemma stuck_two:
  assumes "\<And>b a r. xs = b # a # r \<Longrightarrow> stuck (f b a) r"
  shows "stuck (bnd (ds_pop E) (\<lambda>b. bnd (ds_pop E) (\<lambda>a. f b a))) xs"
  by (cases xs rule: short_list) (auto intro!: stuck_pop stuck_pop_nil assms)

lemma block_binary:
  assumes "binary f xs = None" and "\<And>a b s v t. f a b = None \<Longrightarrow> binary_result E x a b s \<noteq> Ret v t"
    and "\<And>fuel run bc len ip. exec_op x E fuel run bc len ip = continue_at ip (exec_binary E x)"
  shows "blocks x xs E"
proof (rule blocksI [OF _ assms(3)])
  show "stuck (exec_binary E x) xs" unfolding exec_binary_def
    by (intro stuck_two stuck_fails) (use assms(1,2) in \<open>auto simp: binary_def\<close>)
qed

lemma stuck_bits:
  assumes "binary (\<lambda>a b. Some (f a b)) xs = None"
  shows "stuck (bnd (ds_pop E) (\<lambda>b. bnd (ds_pop E) (\<lambda>a. g a b))) xs"
  by (rule stuck_two) (use assms in \<open>auto simp: binary_def\<close>)

lemma binary_length: "binary f xs = Some ys \<Longrightarrow> Suc (length ys) = length xs"
  by (auto simp: binary_def split: list.splits)

lemma block_arith:
  assumes "meaningless x xs" and len: "length xs \<le> DS_SIZE"
    and x: "x \<in> {Op_ADD, Op_SUB, Op_MUL, Op_DIV, Op_MOD, Op_DIVU, Op_MODU, Op_EQ, Op_NE, Op_LT, Op_LE, Op_GT, Op_GE, Op_LTU, Op_LEU}"
  shows "blocks x xs E"
proof -
  have "abs_prim x xs = None"
    using assms x binary_length [of _ xs] unfolding meaningless_def
    by (auto split: option.splits simp: abs_prim_def) (fastforce dest: binary_length)+
  then show ?thesis
    using x
    by (auto simp: abs_prim_def flag_def exactly_def bnd_eq_Ret_iff panic_def vm_panic_eq split: if_splits option.splits intro!: block_binary)
qed

lemma block_bitwise:
  assumes "meaningless x xs" and len: "length xs \<le> DS_SIZE" and x: "x \<in> {Op_AND, Op_OR, Op_XOR, Op_SHR, Op_SAR}"
  shows "blocks x xs E"
proof -
  have "abs_prim x xs = None"
    using assms x unfolding meaningless_def
    by (auto split: option.splits simp: abs_prim_def) (fastforce dest: binary_length)+
  with x show ?thesis
    by (elim insertE emptyE)
      (auto simp: abs_prim_def exec_AND_def exec_OR_def exec_XOR_def exec_SHR_def exec_SAR_def intro: blocksI [OF stuck_bits])
qed

lemma block_shift_left:
  assumes "meaningless Op_SHL xs" and len: "length xs \<le> DS_SIZE" shows "blocks Op_SHL xs E"
proof (rule blocksI)
  have none: "abs_prim Op_SHL xs = None"
    using assms unfolding meaningless_def by (auto split: option.splits simp: abs_prim_def) (fastforce dest: binary_length)
  show "stuck (exec_SHL E) xs" unfolding exec_SHL_def
  proof (intro stuck_two stuck_fails)
    fix b a r s v and t :: "'a machine" assume "xs = b # a # r"
    then show "shift_left a (shift_count b) s \<noteq> Ret v t"
      using none by (auto simp: abs_prim_def binary_def shift_left_def shift_count_def split: if_splits)
  qed
qed simp

lemma block_unary:
  assumes "meaningless x xs" and len: "length xs \<le> DS_SIZE" and x: "x \<in> {Op_INVERT, Op_INC, Op_DEC}"
  shows "blocks x xs E"
proof -
  have none: "abs_prim x xs = None"
    using assms x unfolding meaningless_def
    by (auto split: option.splits list.splits simp: abs_prim_def unary_def)
  have "stuck (exec_INVERT E) xs" if "x = Op_INVERT" unfolding exec_INVERT_def
    using none that by (cases xs) (auto simp: abs_prim_def unary_def intro: stuck_pop_nil)
  moreover have "stuck (exec_INC E) xs" if "x = Op_INC" unfolding exec_INC_def
    using none that by (cases xs) (auto simp: abs_prim_def unary_def exactly_def intro: stuck_pop_nil stuck_pop [OF stuck_fails])
  moreover have "stuck (exec_DEC E) xs" if "x = Op_DEC" unfolding exec_DEC_def
    using none that by (cases xs) (auto simp: abs_prim_def unary_def exactly_def intro: stuck_pop_nil stuck_pop [OF stuck_fails])
  ultimately show ?thesis using x by (auto intro: blocksI)
qed

lemma block_literal:
  assumes "meaningless x xs" and "x \<in> {Op_LIT0, Op_LIT1, Op_LITN1}"
  shows "blocks x xs E"
  using assms(2)
  by (elim insertE emptyE) (use assms(1) in \<open>auto simp: meaningless_def abs_prim_def exec_literal_def intro: blocksI [OF stuck_push]\<close>)

lemma block_shuffles:
  assumes m: "meaningless x xs" and len: "length xs \<le> DS_SIZE" and x: "x \<in> {Op_DUP, Op_DROP, Op_SWAP, Op_OVER, Op_SELECT}"
  shows "blocks x xs E"
proof -
  have "stuck (exec_DUP E) xs" if "x = Op_DUP" unfolding exec_DUP_def
  proof (cases xs)
    case (Cons a r)
    then show "stuck (bnd (ds_peek E 0) (\<lambda>a. ds_push E a)) xs"
      using m that by (intro stuck_peek stuck_push) (auto simp: meaningless_def abs_prim_def)
  qed (simp add: stuck_peek_short)
  moreover have "stuck (exec_DROP E) xs" if "x = Op_DROP" unfolding exec_DROP_def
    using m that len by (cases xs) (auto simp: meaningless_def abs_prim_def intro!: stuck_pop_nil)
  moreover have "stuck (exec_SWAP E) xs" if "x = Op_SWAP" unfolding exec_SWAP_def
    using m that len by (intro stuck_two) (auto simp: meaningless_def abs_prim_def)
  moreover have "stuck (exec_OVER E) xs" if "x = Op_OVER" unfolding exec_OVER_def
  proof (cases "1 < length xs")
    case True
    then obtain b a r where "xs = b # a # r" by (cases xs rule: short_list) auto
    then show "stuck (bnd (ds_peek E 1) (\<lambda>v. ds_push E v)) xs"
      using m that by (intro stuck_peek stuck_push) (auto simp: meaningless_def abs_prim_def)
  qed (simp add: stuck_peek_short)
  moreover have "stuck (exec_SELECT E) xs" if "x = Op_SELECT" unfolding exec_SELECT_def
  proof (rule stuck_two)
    fix a b r assume "xs = a # b # r"
    then show "stuck (bnd (ds_pop E) (\<lambda>flag. ds_push E (if flag \<noteq> 0 then a else b))) r"
      using m that len by (cases r) (auto simp: meaningless_def abs_prim_def intro!: stuck_pop_nil)
  qed
  ultimately show ?thesis using x by (auto intro: blocksI)
qed

definition alu_op :: "Op \<Rightarrow> bool" where
  "alu_op x \<longleftrightarrow> x \<in> {Op_DUP, Op_DROP, Op_SWAP, Op_OVER, Op_SELECT} \<union>
     {Op_ADD, Op_SUB, Op_MUL, Op_DIV, Op_MOD, Op_DIVU, Op_MODU, Op_EQ, Op_NE, Op_LT, Op_LE, Op_GT, Op_GE, Op_LTU, Op_LEU} \<union>
     {Op_AND, Op_OR, Op_XOR, Op_SHR, Op_SAR} \<union> {Op_SHL} \<union> {Op_INVERT, Op_INC, Op_DEC} \<union> {Op_LIT0, Op_LIT1, Op_LITN1}"

lemma meaningless_blocks:
  assumes "alu_op x" and "meaningless x xs" and "length xs \<le> DS_SIZE" shows "blocks x xs E"
  using assms(1) block_shuffles [OF assms(2,3)] block_arith [OF assms(2,3)] block_bitwise [OF assms(2,3)]
    block_shift_left [OF _ assms(3)] block_unary [OF assms(2,3)] block_literal [OF assms(2)] assms(2)
  unfolding alu_op_def by blast

section \<open>What a return says\<close>

text \<open>The instructions the semantics has rules for, on both stacks.\<close>

definition stack_op :: "Op \<Rightarrow> bool" where
  "stack_op x \<longleftrightarrow> alu_op x \<or> x \<in> {Op_TOR, Op_FROMR, Op_RFETCH}"

lemma holds_bounded: "holds W n st s \<Longrightarrow> bounded st"
  using top_first_length [of s "fst st"] length_return_stack [of s]
  by (auto simp: holds_def bounded_def wf_stacks_def simp flip: length_rev [of "return_stack s"])

lemma return_stack_full: "wf_stacks s \<Longrightarrow> RS_SIZE \<le> length (return_stack s) \<Longrightarrow> rs_push E v s \<noteq> Ret a t"
  by (simp add: rs_push_def)

lemma return_stack_empty:
  assumes "wf_stacks s" and "return_stack s = []"
  shows "rs_pop E s \<noteq> Ret a t" and "rs_peek E 0 s \<noteq> Ret a t"
  using length_return_stack [OF assms(1)] assms(2) by (simp_all add: rs_pop_def rs_peek_def)

lemma TOR_blocked:
  assumes s: "holds W n (xs, rs) s" and none: "case prim_step Op_TOR (xs, rs) of None \<Rightarrow> True | Some st' \<Rightarrow> \<not> bounded st'"
  shows "exec_TOR E s \<noteq> Ret a t"
proof (cases xs)
  case Nil
  then show ?thesis using stuck_pop_nil [of E "rs_push E"] s by (simp add: stuck_def exec_TOR_def holds_def)
next
  case (Cons v r)
  have h: "wf_stacks s" "top_first s = v # r" "rev (return_stack s) = rs" using s Cons by (simp_all add: holds_def)
  obtain u where u: "ds_pop E s = Ret v u" "wf_stacks u" "return_stack u = return_stack s" using pop_to [OF h(1,2)] .
  have "RS_SIZE \<le> length (return_stack u)"
    using none Cons holds_bounded [OF s] h(3) u(3) by (auto simp: prim_step_def bounded_def)
  then show ?thesis using u return_stack_full [OF u(2)] by (simp add: exec_TOR_def)
qed

lemma FROMR_blocked:
  assumes s: "holds W n (xs, rs) s" and x: "x \<in> {Op_FROMR, Op_RFETCH}"
    and none: "case prim_step x (xs, rs) of None \<Rightarrow> True | Some st' \<Rightarrow> \<not> bounded st'"
  shows "exec_FROMR E s \<noteq> Ret a t" and "exec_RFETCH E s \<noteq> Ret a t"
proof -
  have h: "wf_stacks s" "top_first s = xs" "rev (return_stack s) = rs" using s by (simp_all add: holds_def)
  have "exec_FROMR E s \<noteq> Ret a t \<and> exec_RFETCH E s \<noteq> Ret a t"
  proof (cases rs)
    case Nil
    then show ?thesis using return_stack_empty [OF h(1)] h(3) by (auto simp: exec_FROMR_def exec_RFETCH_def bnd_eq_Ret_iff)
  next
    case (Cons v r)
    have full: "DS_SIZE \<le> length xs" using x none Cons holds_bounded [OF s] by (auto simp: prim_step_def bounded_def)
    have rs: "return_stack s = rev r @ [v]" using h(3) Cons by (simp add: rev_eq_Cons_iff)
    obtain u where u: "rs_pop E s = Ret v u" "top_first u = xs" "wf_stacks u" using rs_pop_to [OF h(1) rs] h(2) by metis
    have "0 < rp s" using rs length_return_stack [OF h(1)] by simp
    then have "rs_peek E 0 s = Ret v s" using rs_peek_eq [OF h(1), of 0 E] h(3) Cons by simp
    then show ?thesis
      using u h stuck_push [OF full, of E v] by (simp add: exec_FROMR_def exec_RFETCH_def stuck_def)
  qed
  then show "exec_FROMR E s \<noteq> Ret a t" "exec_RFETCH E s \<noteq> Ret a t" by simp_all
qed

lemma op_returns:
  assumes x: "stack_op x" and s: "holds W n st s" and run: "exec_op x E fuel run bc len ip s = Ret fl t"
  shows "\<exists>st'. prim_step x st = Some st' \<and> bounded st' \<and> fl = Continue ip \<and> holds W n st' t"
proof -
  obtain xs rs where st: "st = (xs, rs)" by (cases st)
  have len: "length xs \<le> DS_SIZE" "length rs \<le> RS_SIZE" using holds_bounded [OF s] st by (simp_all add: bounded_def)
  have "\<exists>st'. prim_step x st = Some st' \<and> bounded st'"
  proof (rule ccontr)
    assume no: "\<not> ?thesis"
    then have none: "case prim_step x (xs, rs) of None \<Rightarrow> True | Some st' \<Rightarrow> \<not> bounded st'"
      using st by (simp split: option.split)
    consider "x = Op_TOR" | "x = Op_FROMR" | "x = Op_RFETCH" | "alu_op x" using x by (auto simp: stack_op_def)
    then show False
    proof cases
      case 1
      then show False using TOR_blocked [of W n xs rs s E] s st none run by (auto simp: continue_at_def bnd_eq_Ret_iff)
    next
      case 2
      then show False using FROMR_blocked(1) [of W n xs rs s x E] s st none run by (auto simp: continue_at_def bnd_eq_Ret_iff)
    next
      case 3
      then show False using FROMR_blocked(2) [of W n xs rs s x E] s st none run by (auto simp: continue_at_def bnd_eq_Ret_iff)
    next
      case 4
      have step: "prim_step x (xs, rs) = map_option (\<lambda>ys. (ys, rs)) (abs_prim x xs)"
        using 4 by (auto simp: alu_op_def prim_step_def)
      have "meaningless x xs"
        using none len(2) unfolding step meaningless_def by (auto simp: bounded_def split: option.splits)
      then obtain m where "stuck m xs" "exec_op x E fuel run bc len ip = continue_at ip m"
        using meaningless_blocks [OF 4 _ len(1), of E] unfolding blocks_def by blast
      then show False using run s st by (auto simp: stuck_def continue_at_def bnd_eq_Ret_iff holds_def)
    qed
  qed
  then obtain st' where st': "prim_step x st = Some st'" "bounded st'" by blast
  obtain u where "exec_op x E fuel run bc len ip s = Ret (Continue ip) u" "holds W n st' u"
    using op_holds [OF st' s, of E] by blast
  then show ?thesis using st' run by auto
qed

section \<open>A run that returns follows the rules\<close>

primrec wf_forth :: "forth \<Rightarrow> bool" where
  "wf_forth FNop = True"
| "wf_forth (FNum k) = True"
| "wf_forth (FOp x) = stack_op x"
| "wf_forth (FSeq p q) = (wf_forth p \<and> wf_forth q)"
| "wf_forth (FIf p q) = (wf_forth p \<and> wf_forth q)"
| "wf_forth (FUntil p) = wf_forth p"
| "wf_forth (FWhile p q) = (wf_forth p \<and> wf_forth q)"
| "wf_forth (FCall i) = (i < 2 ^ 16)"

text \<open>One round of a loop that returns, and is not at a \<open>RET\<close>.\<close>

lemma loop_round:
  assumes "exec_loop f E bc len ip s = Ret () u" and "int ip < len"
    and "\<And>f run t. exec_step E f run bc len ip s \<noteq> Ret Return t"
  obtains f' ip' t where "f = Suc f'" and "exec_step E f' (vm_exec_raw E f') bc len ip s = Ret (Continue ip') t"
    and "exec_loop f' E bc len ip' t = Ret () u"
proof (cases f)
  case 0
  then show thesis using assms(1) by (simp add: exec_loop_0)
next
  case (Suc f')
  then obtain fl t where step: "exec_step E f' (vm_exec_raw E f') bc len ip s = Ret fl t"
    and rest: "(case fl of Return \<Rightarrow> Ret () | Continue ip' \<Rightarrow> exec_loop f' E bc len ip') t = Ret () u"
    using assms(1,2) by (auto simp: exec_loop_Suc bnd_eq_Ret_iff)
  then show thesis using that [OF Suc] assms(3) by (cases fl) auto
qed

text \<open>A round at a known step.\<close>

lemma loop_known:
  assumes "exec_loop f E bc len ip s = Ret () u" and "int ip < len"
    and step: "\<And>f run. exec_step E f run bc len ip s = Ret (Continue ip') t"
  obtains f' where "f = Suc f'" and "exec_loop f' E bc len ip' t = Ret () u"
  by (rule loop_round [OF assms(1,2)]) (auto simp: step intro: that)

lemma JZ_nonempty:
  assumes "exec_loop f E bc len (length pre) s = Ret () u" and bc: "bc = pre @ op_byte Op_JZ # offset16 k @ post"
    and len: "int (length pre) + 3 \<le> len" and s: "holds W n (xs, rs) s"
  shows "xs \<noteq> []"
proof
  assume "xs = []"
  then obtain t' where pop: "ds_pop E s = Fail (V4_ERR StackUnderflow) t'"
    using pop_none [of s E] s by (auto simp: holds_def)
  have "read_i16_le bc (Suc (length pre)) s = Ret (word_of_int k) s"
    using read_offset16 [of "Suc (length pre)" "pre @ [op_byte Op_JZ]" k post s] bc by simp
  then have "exec_step E f run bc len (length pre) s \<noteq> Ret fl t" for f run fl t
    using exec_step_at [of "op_byte Op_JZ # offset16 k" Op_JZ "offset16 k" E f run pre post len s] bc len pop
    by (simp add: exec_JZ_def bnd_def del: V4_ERR.simps)
  then show False using assms(1) len by (cases f) (auto simp: exec_loop_0 exec_loop_Suc bnd_eq_Ret_iff)
qed

lemma CALL_returns:
  assumes bc: "bc = pre @ op_byte Op_CALL # offset16 (int i) @ post" and len: "int (length pre) + 3 \<le> len"
    and i: "i < 2 ^ 16" and ws: "compiled ws W" and s: "holds W (int (length ws)) st s"
    and run: "exec_step E f (vm_exec_raw E f) bc len (length pre) s = Ret fl t"
  shows "i < length ws \<and> fl = Continue (length pre + 3) \<and> (\<exists>t'. t = t'\<lparr>fp := fp s\<rparr> \<and>
    vm_exec_raw E f (word_code (ws ! i)) (int (length (word_code (ws ! i)))) (s\<lparr>fp := Some (rp s)\<rparr>) = Ret 0 t')"
proof -
  have n: "length ws \<le> 256" using ws by (simp add: compiled_def V4_MAX_WORDS_def)
  have u: "unat (word_of_int (int i) :: u16) = i" "unat (word_of_int (int (length ws)) :: u16) = length ws"
    using n i by (simp_all add: unsigned_of_nat take_bit_nat_eq_self)
  have wc: "word_count s = int (length ws)" "words s = W" using s by (simp_all add: holds_def has_words_def)
  have read: "read_i16_le bc (Suc (length pre)) s = Ret (word_of_int (int i)) s"
    using read_offset16 [of "Suc (length pre)" "pre @ [op_byte Op_CALL]" "int i" post s] bc by simp
  have call: "exec_CALL E (vm_exec_raw E f) bc len (Suc (length pre)) s = Ret fl t"
    using run exec_step_at [of "op_byte Op_CALL # offset16 (int i)" Op_CALL "offset16 (int i)" E f "vm_exec_raw E f" pre post len s] bc
    by simp
  have idx: "\<not> (word_of_int (int i) :: u16) \<ge> word_of_int (int (length ws))"
    using call read len wc by (auto simp: exec_CALL_def bnd_def)
  then have lt: "i < length ws" using u by (simp only: word_le_nat_alt not_le)
  have w: "w_code (W ! i) = Some (word_code (ws ! i))" "w_code_len (W ! i) = int (length (word_code (ws ! i)))"
    "0 < length (word_code (ws ! i))"
    using ws lt by (simp_all add: compiled_def word_code_def)
  show ?thesis
    using call read len idx lt w wc u(1) by (auto simp: exec_CALL_def bnd_def Let_def split: res.splits if_splits)
qed

text \<open>The segment of a program is passed: from its start the loop reaches its end, on the stacks of an outcome.\<close>

definition passes :: "'d env \<Rightarrow> forth list \<Rightarrow> Word list \<Rightarrow> forth \<Rightarrow> u8 list \<Rightarrow> int \<Rightarrow> nat \<Rightarrow> nat \<Rightarrow> stacks \<Rightarrow> 'd machine \<Rightarrow> bool" where
  "passes E ws W p bc len f ip st u \<longleftrightarrow> (\<exists>f' st' t. f' \<le> f \<and> evals ws p st st' \<and> holds W (int (length ws)) st' t \<and>
     exec_loop f' E bc len ip t = Ret () u)"

lemma passesE:
  assumes "passes E ws W p bc len f ip st u"
  obtains f' st' t where "f' \<le> f" "evals ws p st st'" "holds W (int (length ws)) st' t" "exec_loop f' E bc len ip t = Ret () u"
  using assms unfolding passes_def by blast

lemma passesI:
  assumes "evals ws p st st'" "holds W (int (length ws)) st' t" "exec_loop f' E bc len ip' t = Ret () u" "ip' = ip" "f' \<le> f"
  shows "passes E ws W p bc len f ip st u"
  using assms unfolding passes_def by blast

lemma passes_num:
  assumes bc: "bc = pre @ compile (FNum k) @ post" and len: "int (length (pre @ compile (FNum k))) \<le> len"
    and s: "holds W (int (length ws)) st s" and run: "exec_loop f E bc len (length pre) s = Ret () u"
  shows "passes E ws W (FNum k) bc len f (length (pre @ compile (FNum k))) st u"
proof -
  obtain xs rs where st: "st = (xs, rs)" by (cases st)
  have h: "wf_stacks s" "top_first s = xs" "rev (return_stack s) = rs" "has_words W (int (length ws)) s"
    using s st by (simp_all add: holds_def)
  have read: "read_i32_le bc (Suc (length pre)) s = Ret k s"
    using read_bytes32 [of "pre @ [op_byte Op_LIT]" k post s] bc by simp
  have step: "exec_step E f run bc len (length pre) s = continue_at (length pre + 5) (ds_push E k) s" for f run
    using bc len read exec_step_at [of "compile (FNum k)" Op_LIT "bytes32 k" E f run pre post len s]
    by (simp add: exec_LIT_def bnd_def bytes32_def add_ac)
  have "int (length pre) < len" using len by simp
  then obtain f' ip t where f: "f = Suc f'" and t: "continue_at (length pre + 5) (ds_push E k) s = Ret (Continue ip) t"
    and rest: "exec_loop f' E bc len ip t = Ret () u"
    by (rule loop_round [OF run]) (auto simp: step continue_at_def bnd_eq_Ret_iff)
  have push: "ds_push E k s = Ret () t" and ip: "ip = length pre + 5" using t by (auto simp: continue_at_def bnd_eq_Ret_iff)
  then have "length xs < DS_SIZE" using top_first_length [OF h(1,2)] by (auto simp: ds_push_def split: if_splits)
  then have ev: "evals ws (FNum k) st (k # xs, rs)"
    using holds_bounded [OF s] st by (auto simp: bounded_def intro: evals.num)
  obtain v where "ds_push E k s = Ret () v" "top_first v = k # xs" "return_stack v = return_stack s" "wf_stacks v"
    using push_to [OF h(1), of E k] h(2) \<open>length xs < DS_SIZE\<close> by auto
  then have "holds W (int (length ws)) (k # xs, rs) t"
    using push h keeps_Ret [OF words_stacks(1) h(4) push] by (simp add: holds_def)
  moreover have "length (pre @ compile (FNum k)) = length pre + 5" by (simp add: bytes32_def)
  ultimately show ?thesis using ev rest ip f unfolding passes_def by (metis le_SucI order_refl)
qed

lemma passes_op:
  assumes x: "stack_op x" and bc: "bc = pre @ [op_byte x] @ post" and len: "int (length pre) + 1 \<le> len"
    and s: "holds W (int (length ws)) st s" and run: "exec_loop f E bc len (length pre) s = Ret () u"
  shows "passes E ws W (FOp x) bc len f (Suc (length pre)) st u"
proof -
  have step: "exec_step E f run bc len (length pre) s = exec_op x E f run bc len (Suc (length pre)) s" for f run
    using bc exec_step_at [of "[op_byte x]" x "[]" E f run pre post len s] by simp
  have "exec_step E f run bc len (length pre) s \<noteq> Ret Return t" for f run t
    using op_returns [OF x s] unfolding step by blast
  moreover have "int (length pre) < len" using len by simp
  ultimately obtain f' ip t where f: "f = Suc f'" and t: "exec_op x E f' (vm_exec_raw E f') bc len (Suc (length pre)) s = Ret (Continue ip) t"
    and rest: "exec_loop f' E bc len ip t = Ret () u"
    using loop_round [OF run] unfolding step by metis
  from op_returns [OF x s t] obtain st' where "prim_step x st = Some st'" "bounded st'" "ip = Suc (length pre)" "holds W (int (length ws)) st' t"
    by auto
  then show ?thesis using rest f unfolding passes_def by (metis evals.op le_SucI order_refl)
qed

text \<open>At a \<open>JZ\<close>, whichever way it goes.\<close>

lemma passes_JZ:
  assumes run: "exec_loop f E bc len (length pre) s = Ret () u" and bc: "bc = pre @ op_byte Op_JZ # offset16 k @ post"
    and len: "int (length pre) + 3 \<le> len" and k: "- (2 ^ 15) \<le> k" "k < 2 ^ 15"
    and tgt: "0 \<le> int (length pre) + 3 + k" "int (length pre) + 3 + k \<le> len" and s: "holds W n st s"
  obtains f' v xs rs t where "f = Suc f'" and "st = (v # xs, rs)" and "holds W n (xs, rs) t"
    and "exec_loop f' E bc len (if v = 0 then nat (int (length pre) + 3 + k) else length pre + 3) t = Ret () u"
proof -
  obtain ys rs where st: "st = (ys, rs)" by (cases st)
  then obtain v xs where ys: "ys = v # xs" using JZ_nonempty [OF run bc len] s by (cases ys) auto
  obtain t where t: "\<And>f run. exec_step E f run bc len (length pre) s =
      Ret (Continue (if v = 0 then nat (int (length pre) + 3 + k) else length pre + 3)) t" "holds W n (xs, rs) t"
    using JZ_step [OF bc len k tgt, of W n v xs rs s E] s st ys by auto
  have "int (length pre) < len" using len by simp
  then show thesis by (rule loop_known [OF run _ t(1)]) (use that t(2) st ys in blast)
qed

lemma passes_JMP:
  assumes run: "exec_loop f E bc len (length pre) s = Ret () u" and bc: "bc = pre @ op_byte Op_JMP # offset16 k @ post"
    and len: "int (length pre) + 3 \<le> len" and k: "- (2 ^ 15) \<le> k" "k < 2 ^ 15"
    and tgt: "0 \<le> int (length pre) + 3 + k" "int (length pre) + 3 + k \<le> len"
  obtains f' where "f = Suc f'" and "exec_loop f' E bc len (nat (int (length pre) + 3 + k)) s = Ret () u"
proof -
  have "int (length pre) < len" using len by simp
  then show thesis by (rule loop_known [OF run _ JMP_step [OF bc len k tgt]]) (use that in blast)
qed

text \<open>A program is exact up to some fuel: a run that returns and goes through its code passes it.\<close>

definition exact :: "'d env \<Rightarrow> forth list \<Rightarrow> Word list \<Rightarrow> nat \<Rightarrow> forth \<Rightarrow> bool" where
  "exact E ws W F p \<longleftrightarrow> (\<forall>f bc pre post len st s u. f \<le> F \<longrightarrow> bc = pre @ compile p @ post \<longrightarrow>
     int (length (pre @ compile p)) \<le> len \<longrightarrow> length (compile p) < 2 ^ 15 \<longrightarrow> holds W (int (length ws)) st s \<longrightarrow>
     exec_loop f E bc len (length pre) s = Ret () u \<longrightarrow> passes E ws W p bc len f (length (pre @ compile p)) st u)"

lemma exactI:
  assumes "\<And>f bc pre post len st s u. f \<le> F \<Longrightarrow> bc = pre @ compile p @ post \<Longrightarrow> int (length (pre @ compile p)) \<le> len \<Longrightarrow>
    length (compile p) < 2 ^ 15 \<Longrightarrow> holds W (int (length ws)) st s \<Longrightarrow> exec_loop f E bc len (length pre) s = Ret () u \<Longrightarrow>
    passes E ws W p bc len f (length (pre @ compile p)) st u"
  shows "exact E ws W F p"
  unfolding exact_def using assms by blast

lemma exactD:
  assumes "exact E ws W F p" and "f \<le> F" and "bc = pre @ compile p @ post" and "int (length (pre @ compile p)) \<le> len"
    and "length (compile p) < 2 ^ 15" and "holds W (int (length ws)) st s" and "exec_loop f E bc len (length pre) s = Ret () u"
  shows "passes E ws W p bc len f (length (pre @ compile p)) st u"
  using assms unfolding exact_def by blast

lemma exact_zero: "exact E ws W 0 p"
  by (rule exactI) (simp add: exec_loop_0)

lemma exact_seq:
  assumes p: "exact E ws W F p" and q: "exact E ws W F q"
  shows "exact E ws W F (FSeq p q)"
proof (rule exactI)
  fix f bc pre post len st s u
  assume prems: "f \<le> F" "bc = pre @ compile (FSeq p q) @ post" "int (length (pre @ compile (FSeq p q))) \<le> len"
    "length (compile (FSeq p q)) < 2 ^ 15" "holds W (int (length ws)) st s" "exec_loop f E bc len (length pre) s = Ret () u"
  show "passes E ws W (FSeq p q) bc len f (length (pre @ compile (FSeq p q))) st u"
  proof -
    have bc: "bc = pre @ compile p @ (compile q @ post)" "bc = (pre @ compile p) @ compile q @ post" using prems(2) by simp_all
    have "passes E ws W p bc len f (length (pre @ compile p)) st u"
      by (rule exactD [OF p prems(1) bc(1) _ _ prems(5,6)]) (use prems(3,4) in simp_all)
    then obtain f' st1 t where t: "f' \<le> f" "evals ws p st st1" "holds W (int (length ws)) st1 t"
      "exec_loop f' E bc len (length (pre @ compile p)) t = Ret () u" by (rule passesE)
    have "passes E ws W q bc len f' (length ((pre @ compile p) @ compile q)) st1 u"
      by (rule exactD [OF q _ bc(2) _ _ t(3,4)]) (use prems(1,3,4) t(1) in simp_all)
    then obtain f'' st2 v where v: "f'' \<le> f'" "evals ws q st1 st2" "holds W (int (length ws)) st2 v"
      "exec_loop f'' E bc len (length ((pre @ compile p) @ compile q)) v = Ret () u" by (rule passesE)
    show ?thesis by (rule passesI [OF evals.seq [OF t(2) v(2)] v(3,4)]) (use t(1) v(1) in simp_all)
  qed
qed

lemma exact_if:
  assumes p: "exact E ws W F p" and q: "exact E ws W F q"
  shows "exact E ws W F (FIf p q)"
proof (rule exactI)
  fix f bc pre post len st s u
  assume prems: "f \<le> F" "bc = pre @ compile (FIf p q) @ post" "int (length (pre @ compile (FIf p q))) \<le> len"
    "length (compile (FIf p q)) < 2 ^ 15" "holds W (int (length ws)) st s" "exec_loop f E bc len (length pre) s = Ret () u"
  show "passes E ws W (FIf p q) bc len f (length (pre @ compile (FIf p q))) st u"
  proof -
    let ?jz = "op_byte Op_JZ # offset16 (int (length (compile p)) + 3)" and ?jmp = "op_byte Op_JMP # offset16 (int (length (compile q)))"
    have bc: "bc = pre @ op_byte Op_JZ # offset16 (int (length (compile p)) + 3) @ (compile p @ ?jmp @ compile q @ post)"
      "bc = (pre @ ?jz) @ compile p @ (?jmp @ compile q @ post)"
      "bc = (pre @ ?jz @ compile p) @ op_byte Op_JMP # offset16 (int (length (compile q))) @ (compile q @ post)"
      "bc = (pre @ ?jz @ compile p @ ?jmp) @ compile q @ post"
      using prems(2) by (simp_all add: Let_def)
    have end_ip: "length (pre @ compile (FIf p q)) = length pre + length (compile p) + length (compile q) + 6"
      by (simp add: Let_def)
    have len: "int (length pre + length (compile p) + length (compile q) + 6) \<le> len"
      "length (compile p) + length (compile q) + 6 < 2 ^ 15" using prems(3,4) by (simp_all add: Let_def)
    obtain f' v xs rs t where t: "f = Suc f'" "st = (v # xs, rs)" "holds W (int (length ws)) (xs, rs) t"
      "exec_loop f' E bc len (if v = 0 then nat (int (length pre) + 3 + (int (length (compile p)) + 3)) else length pre + 3) t = Ret () u"
      by (rule passes_JZ [OF prems(6) bc(1) _ _ _ _ _ prems(5)]) (use len in simp_all)
    have f': "f' \<le> F" using prems(1) t(1) by simp
    show ?thesis
    proof (cases "v = 0")
      case True
      have ip: "nat (int (length pre) + 3 + (int (length (compile p)) + 3)) = length (pre @ ?jz @ compile p @ ?jmp)" by simp
      have "passes E ws W q bc len f' (length ((pre @ ?jz @ compile p @ ?jmp) @ compile q)) (xs, rs) u"
        by (rule exactD [OF q f' bc(4) _ _ t(3)]) (use len t(4) True ip in simp_all)
      then obtain g st' x where x: "g \<le> f'" "evals ws q (xs, rs) st'" "holds W (int (length ws)) st' x"
        "exec_loop g E bc len (length ((pre @ ?jz @ compile p @ ?jmp) @ compile q)) x = Ret () u" by (rule passesE)
      show ?thesis unfolding t(2) True
        by (rule passesI [OF evals.if_false [OF x(2)] x(3,4)]) (use x(1) t(1) in \<open>simp_all add: Let_def\<close>)
    next
      case False
      have "passes E ws W p bc len f' (length ((pre @ ?jz) @ compile p)) (xs, rs) u"
        by (rule exactD [OF p f' bc(2) _ _ t(3)]) (use len t(4) False in simp_all)
      then obtain g st' x where x: "g \<le> f'" "evals ws p (xs, rs) st'" "holds W (int (length ws)) st' x"
        "exec_loop g E bc len (length ((pre @ ?jz) @ compile p)) x = Ret () u" by (rule passesE)
      have here: "length ((pre @ ?jz) @ compile p) = length (pre @ ?jz @ compile p)" by simp
      obtain g' where g': "g = Suc g'"
        "exec_loop g' E bc len (nat (int (length (pre @ ?jz @ compile p)) + 3 + int (length (compile q)))) x = Ret () u"
        by (rule passes_JMP [OF x(4) [unfolded here] bc(3)]) (use len in simp_all)
      have "nat (int (length (pre @ ?jz @ compile p)) + 3 + int (length (compile q))) = length (pre @ compile (FIf p q))"
        unfolding end_ip by simp
      then show ?thesis unfolding t(2)
        by (rule passesI [OF evals.if_true [OF False x(2)] x(3) g'(2)]) (use x(1) t(1) g'(1) in simp_all)
    qed
  qed
qed

lemma exact_until:
  assumes p: "exact E ws W (Suc F) p" and again: "exact E ws W F (FUntil p)"
  shows "exact E ws W (Suc F) (FUntil p)"
proof (rule exactI)
  fix f bc pre post len st s u
  assume prems: "f \<le> Suc F" "bc = pre @ compile (FUntil p) @ post" "int (length (pre @ compile (FUntil p))) \<le> len"
    "length (compile (FUntil p)) < 2 ^ 15" "holds W (int (length ws)) st s" "exec_loop f E bc len (length pre) s = Ret () u"
  show "passes E ws W (FUntil p) bc len f (length (pre @ compile (FUntil p))) st u"
  proof -
    have bc: "bc = pre @ compile p @ (op_byte Op_JZ # offset16 (- int (length (compile p)) - 3) @ post)"
      "bc = (pre @ compile p) @ op_byte Op_JZ # offset16 (- int (length (compile p)) - 3) @ post"
      using prems(2) by (simp_all add: Let_def)
    have len: "int (length pre + length (compile p) + 3) \<le> len" "length (compile p) + 3 < 2 ^ 15"
      using prems(3,4) by (simp_all add: Let_def)
    have "passes E ws W p bc len f (length (pre @ compile p)) st u"
      by (rule exactD [OF p prems(1) bc(1) _ _ prems(5,6)]) (use len in simp_all)
    then obtain g st1 t where t: "g \<le> f" "evals ws p st st1" "holds W (int (length ws)) st1 t"
      "exec_loop g E bc len (length (pre @ compile p)) t = Ret () u" by (rule passesE)
    obtain g' v xs rs x where x: "g = Suc g'" "st1 = (v # xs, rs)" "holds W (int (length ws)) (xs, rs) x"
      "exec_loop g' E bc len (if v = 0 then nat (int (length (pre @ compile p)) + 3 + (- int (length (compile p)) - 3))
         else length (pre @ compile p) + 3) x = Ret () u"
      by (rule passes_JZ [OF t(4) bc(2) _ _ _ _ _ t(3)]) (use len in simp_all)
    show ?thesis
    proof (cases "v = 0")
      case True
      have g': "g' \<le> F" using prems(1) t(1) x(1) by simp
      have "passes E ws W (FUntil p) bc len g' (length (pre @ compile (FUntil p))) (xs, rs) u"
        by (rule exactD [OF again g' prems(2-4) x(3)]) (use x(4) True in simp)
      then obtain h st' y where y: "h \<le> g'" "evals ws (FUntil p) (xs, rs) st'" "holds W (int (length ws)) st' y"
        "exec_loop h E bc len (length (pre @ compile (FUntil p))) y = Ret () u" by (rule passesE)
      show ?thesis
        by (rule passesI [OF evals.until_again [OF t(2) [unfolded x(2) True] y(2)] y(3,4) refl]) (use y(1) x(1) t(1) in simp)
    next
      case False
      show ?thesis
        by (rule passesI [OF evals.until_done [OF t(2) [unfolded x(2)] False] x(3,4)])
          (use False x(1) t(1) in \<open>simp_all add: Let_def\<close>)
    qed
  qed
qed

lemma exact_while:
  assumes p: "exact E ws W (Suc F) p" and q: "exact E ws W (Suc F) q" and again: "exact E ws W F (FWhile p q)"
  shows "exact E ws W (Suc F) (FWhile p q)"
proof (rule exactI)
  fix f bc pre post len st s u
  assume prems: "f \<le> Suc F" "bc = pre @ compile (FWhile p q) @ post" "int (length (pre @ compile (FWhile p q))) \<le> len"
    "length (compile (FWhile p q)) < 2 ^ 15" "holds W (int (length ws)) st s" "exec_loop f E bc len (length pre) s = Ret () u"
  show "passes E ws W (FWhile p q) bc len f (length (pre @ compile (FWhile p q))) st u"
  proof -
    let ?jz = "op_byte Op_JZ # offset16 (int (length (compile q)) + 3)"
      and ?jmp = "op_byte Op_JMP # offset16 (- int (length (compile p)) - int (length (compile q)) - 6)"
    have bc: "bc = pre @ compile p @ (?jz @ compile q @ ?jmp @ post)"
      "bc = (pre @ compile p) @ op_byte Op_JZ # offset16 (int (length (compile q)) + 3) @ (compile q @ ?jmp @ post)"
      "bc = (pre @ compile p @ ?jz) @ compile q @ (?jmp @ post)"
      "bc = (pre @ compile p @ ?jz @ compile q) @ op_byte Op_JMP # offset16 (- int (length (compile p)) - int (length (compile q)) - 6) @ post"
      using prems(2) by (simp_all add: Let_def)
    have len: "int (length pre + length (compile p) + length (compile q) + 6) \<le> len"
      "length (compile p) + length (compile q) + 6 < 2 ^ 15" using prems(3,4) by (simp_all add: Let_def)
    have "passes E ws W p bc len f (length (pre @ compile p)) st u"
      by (rule exactD [OF p prems(1) bc(1) _ _ prems(5,6)]) (use len in simp_all)
    then obtain g st1 t where t: "g \<le> f" "evals ws p st st1" "holds W (int (length ws)) st1 t"
      "exec_loop g E bc len (length (pre @ compile p)) t = Ret () u" by (rule passesE)
    obtain g' v xs rs x where x: "g = Suc g'" "st1 = (v # xs, rs)" "holds W (int (length ws)) (xs, rs) x"
      "exec_loop g' E bc len (if v = 0 then nat (int (length (pre @ compile p)) + 3 + (int (length (compile q)) + 3))
         else length (pre @ compile p) + 3) x = Ret () u"
      by (rule passes_JZ [OF t(4) bc(2) _ _ _ _ _ t(3)]) (use len in simp_all)
    have g': "g' \<le> F" "g' \<le> Suc F" using prems(1) t(1) x(1) by simp_all
    show ?thesis
    proof (cases "v = 0")
      case True
      show ?thesis
        by (rule passesI [OF evals.while_done [OF t(2) [unfolded x(2) True]] x(3,4)])
          (use True x(1) t(1) in \<open>simp_all add: Let_def nat_add_distrib\<close>)
    next
      case False
      have ip: "length (pre @ compile p) + 3 = length (pre @ compile p @ ?jz)" by simp
      have "passes E ws W q bc len g' (length ((pre @ compile p @ ?jz) @ compile q)) (xs, rs) u"
        by (rule exactD [OF q g'(2) bc(3) _ _ x(3)]) (use len x(4) False ip in \<open>simp_all add: add.assoc\<close>)
      then obtain h st2 y where y: "h \<le> g'" "evals ws q (xs, rs) st2" "holds W (int (length ws)) st2 y"
        "exec_loop h E bc len (length ((pre @ compile p @ ?jz) @ compile q)) y = Ret () u" by (rule passesE)
      have here: "length ((pre @ compile p @ ?jz) @ compile q) = length (pre @ compile p @ ?jz @ compile q)" by simp
      obtain h' where h': "h = Suc h'"
        "exec_loop h' E bc len (nat (int (length (pre @ compile p @ ?jz @ compile q)) + 3 + (- int (length (compile p)) - int (length (compile q)) - 6))) y = Ret () u"
        by (rule passes_JMP [OF y(4) [unfolded here] bc(4)]) (use len in simp_all)
      have home: "nat (int (length (pre @ compile p @ ?jz @ compile q)) + 3 + (- int (length (compile p)) - int (length (compile q)) - 6)) = length pre"
        by simp
      have "h' \<le> F" using h'(1) y(1) g'(1) by simp
      then have "passes E ws W (FWhile p q) bc len h' (length (pre @ compile (FWhile p q))) st2 u"
        by (rule exactD [OF again _ prems(2-4) y(3)]) (use h'(2) home in simp)
      then obtain m st' z where z: "m \<le> h'" "evals ws (FWhile p q) st2 st'" "holds W (int (length ws)) st' z"
        "exec_loop m E bc len (length (pre @ compile (FWhile p q))) z = Ret () u" by (rule passesE)
      show ?thesis
        by (rule passesI [OF evals.while_again [OF t(2) [unfolded x(2)] False y(2) z(2)] z(3,4) refl])
          (use z(1) h'(1) y(1) x(1) t(1) in simp)
    qed
  qed
qed

lemma word_exact:
  assumes p: "exact E ws W F p" and "f \<le> F" and short: "length (compile p) < 2 ^ 15" and s: "holds W (int (length ws)) st s"
    and run: "vm_exec_raw E f (word_code p) (int (length (word_code p))) s = Ret 0 t"
  obtains st' where "evals ws p st st'" and "holds W (int (length ws)) st' t"
proof -
  have "passes E ws W p (word_code p) (int (length (word_code p))) f (length ([] @ compile p)) st t"
    by (rule exactD [where pre = "[]" and post = "[op_byte Op_RET]" and s = s, OF p assms(2) _ _ short s])
      (use exec_raw_success [OF run] in \<open>simp_all add: word_code_def\<close>)
  then obtain g st' u where u: "evals ws p st st'" "holds W (int (length ws)) st' u"
    "exec_loop g E (word_code p) (int (length (word_code p))) (length (compile p)) u = Ret () t"
    by (elim passesE) simp
  have "exec_step E h run (word_code p) len (length (compile p)) u = Ret Return u" for h run len
    using exec_step_at [of "[op_byte Op_RET]" Op_RET "[]" E h run "compile p" "[]" len u] by (simp add: word_code_def)
  then have "t = u" using u(3) by (cases g) (auto simp: exec_loop_0 exec_loop_Suc bnd_def word_code_def)
  then show thesis using u that by simp
qed

lemma exact_call:
  assumes ws: "compiled ws W" and words: "\<And>i. i < length ws \<Longrightarrow> exact E ws W F (ws ! i)" and i: "i < 2 ^ 16"
  shows "exact E ws W (Suc F) (FCall i)"
proof (rule exactI)
  fix f bc pre post len st s u
  assume prems: "f \<le> Suc F" "bc = pre @ compile (FCall i) @ post" "int (length (pre @ compile (FCall i))) \<le> len"
    "length (compile (FCall i)) < 2 ^ 15" "holds W (int (length ws)) st s" "exec_loop f E bc len (length pre) s = Ret () u"
  show "passes E ws W (FCall i) bc len f (length (pre @ compile (FCall i))) st u"
  proof -
    have bc: "bc = pre @ op_byte Op_CALL # offset16 (int i) @ post" and len: "int (length pre) + 3 \<le> len"
      using prems(2,3) by simp_all
    note ret = CALL_returns [OF bc len i ws prems(5)]
    have "exec_step E f run bc len (length pre) s = exec_CALL E run bc len (Suc (length pre)) s" for f run
      using exec_step_at [of "op_byte Op_CALL # offset16 (int i)" Op_CALL "offset16 (int i)" E f run pre post len s] bc by simp
    then have "exec_step E f run bc len (length pre) s \<noteq> Ret Return t" for f run t
      using yields_CALL [of "\<lambda>fl. fl \<noteq> Return" "Suc (length pre)" E run bc len] unfolding yields_def by simp blast
    moreover have "int (length pre) < len" using len by simp
    ultimately obtain f' ip t where t: "f = Suc f'" "exec_step E f' (vm_exec_raw E f') bc len (length pre) s = Ret (Continue ip) t"
      "exec_loop f' E bc len ip t = Ret () u"
      using loop_round [OF prems(6)] by metis
    from ret [OF t(2)] obtain t' where lt: "i < length ws" and ip: "ip = length pre + 3" and t': "t = t'\<lparr>fp := fp s\<rparr>"
      and run: "vm_exec_raw E f' (word_code (ws ! i)) (int (length (word_code (ws ! i)))) (s\<lparr>fp := Some (rp s)\<rparr>) = Ret 0 t'"
      by auto
    have callee: "exact E ws W F (ws ! i)" "length (compile (ws ! i)) < 2 ^ 15"
      using ws words lt by (simp_all add: compiled_def)
    obtain st' where y: "evals ws (ws ! i) st st'" "holds W (int (length ws)) st' t'"
      by (rule word_exact [OF callee(1) _ callee(2) _ run, of st]) (use prems(1,5) t(1) in simp_all)
    then have "holds W (int (length ws)) st' t" using y(2) t' by simp
    then show ?thesis by (rule passesI [OF evals.call [OF lt y(1)] _ t(3)]) (use t(1) ip in simp_all)
  qed
qed

lemma program_exact:
  assumes ws: "compiled ws W" "list_all wf_forth ws" and "wf_forth p"
  shows "exact E ws W F p"
  using assms(3)
proof (induction F arbitrary: p)
  case 0
  show ?case by (rule exact_zero)
next
  case (Suc F)
  note later = Suc.IH
  show ?case using Suc.prems
  proof (induction p)
    case FNop
    show ?case
      by (rule exactI, rule passesI [OF evals.nop], assumption, assumption) simp_all
  next
    case (FNum k)
    show ?case by (rule exactI, rule passes_num)
  next
    case (FOp x)
    then show ?case using passes_op [of x _ _ _ _ W ws _ _ _ E] by (intro exactI) simp
  next
    case (FSeq p q)
    then show ?case by (simp add: exact_seq)
  next
    case (FIf p q)
    then show ?case by (simp add: exact_if)
  next
    case (FUntil p)
    then show ?case by (simp add: exact_until later)
  next
    case (FWhile p q)
    then show ?case by (simp add: exact_while later)
  next
    case (FCall i)
    then show ?case using ws by (intro exact_call) (simp_all add: later list_all_length)
  qed
qed

end
