(* ===== verification/V4_Structured_Props.thy ===== *)
theory V4_Structured_Props
  imports V4_Structured_Exact V4_Data_Props
begin

text \<open>
  The property of structured Forth: compiled words on the interpreter do exactly what the natural semantics
  says, with a dictionary of two words as its witness.
\<close>

lemma words_holds:
  assumes "word_count s = int (length ws)" and "wf_stacks s"
  shows "holds (words s) (int (length ws)) (top_first s, rev (return_stack s)) s"
  using assms by (simp add: holds_def has_words_def)

lemma word_exec:
  assumes "compiled ws (words s)" and "word_count s = int (length ws)" and "i < length ws"
  shows "vm_exec E fuel (vm_get_word (Some s) (int i)) (Some s) = Ret 0 (Some t) \<longleftrightarrow>
    vm_exec_raw E fuel (word_code (ws ! i)) (int (length (word_code (ws ! i)))) s = Ret 0 t"
  using assms
  by (auto simp: vm_exec_def vm_get_word_def null_checked_def compiled_def map_res_def split: res.splits)

lemma words_run:
  assumes "compiled ws (words s)" and "word_count s = int (length ws)" and "i < length ws" and "wf_stacks s"
    and "evals ws (ws ! i) (top_first s, rev (return_stack s)) (ys, rs)"
  shows "\<exists>fuel t. vm_exec E fuel (vm_get_word (Some s) (int i)) (Some s) = Ret 0 (Some t) \<and> top_first t = ys \<and> rev (return_stack t) = rs"
proof -
  have "length (compile (ws ! i)) < 2 ^ 15" using assms(1,3) by (simp add: compiled_def)
  then obtain t where t: "goes E (word_code (ws ! i)) (int (length (word_code (ws ! i)))) 0 s (length (compile (ws ! i))) t"
    "holds (words s) (int (length ws)) (ys, rs) t"
    using evals_goes [OF assms(5,1), of "word_code (ws ! i)" "[]" "[op_byte Op_RET]" "int (length (word_code (ws ! i)))" s E] words_holds [OF assms(2,4)]
    by (auto simp: word_code_def)
  obtain N where "vm_exec_raw E N (word_code (ws ! i)) (int (length (word_code (ws ! i)))) s = Ret 0 t"
    using word_ends [OF t(1)] by blast
  then show ?thesis unfolding word_exec [OF assms(1-3)] using t(2) by (auto simp: holds_def)
qed

lemma words_only_run:
  assumes "compiled ws (words s)" and "word_count s = int (length ws)" and "i < length ws" and "wf_stacks s"
    and "list_all wf_forth ws"
    and "vm_exec E fuel (vm_get_word (Some s) (int i)) (Some s) = Ret 0 (Some t)"
  shows "evals ws (ws ! i) (top_first s, rev (return_stack s)) (top_first t, rev (return_stack t))"
proof -
  have p: "wf_forth (ws ! i)" "length (compile (ws ! i)) < 2 ^ 15" using assms(1,3,5) by (simp_all add: compiled_def list_all_length)
  obtain st' where "evals ws (ws ! i) (top_first s, rev (return_stack s)) st'" "holds (words s) (int (length ws)) st' t"
    using word_exact [OF program_exact [OF assms(1,5) p(1)] order_refl p(2) words_holds [OF assms(2,4)]]
      assms(6) [unfolded word_exec [OF assms(1-3)]] .
  then show ?thesis by (cases st') (simp add: holds_def)
qed

text \<open>C2: structured Forth means what it says. Let the dictionary hold the compiled words of a program of
  literals, stack, arithmetic, comparison, bitwise and return-stack instructions, \<open>IF ELSE THEN\<close>, \<open>BEGIN UNTIL\<close>,
  \<open>BEGIN WHILE REPEAT\<close> and calls, recursion included. Then executing a word returns success with certain
  contents of the data and the return stack (top first) for some amount of fuel exactly when the natural
  semantics of the language, which knows no bytecode, no jump and no instruction pointer, derives this outcome;
  so a word whose semantics derives nothing (it loops, underflows, overflows, divides by zero) never returns success.
\<close>
theorem structured_words_exact:
  assumes "compiled ws (words s)" and "word_count s = int (length ws)" and "i < length ws" and "wf_stacks s"
    and "list_all wf_forth ws"
  shows "(\<exists>fuel t. vm_exec E fuel (vm_get_word (Some s) (int i)) (Some s) = Ret 0 (Some t) \<and>
      top_first t = ys \<and> rev (return_stack t) = rs) \<longleftrightarrow>
    evals ws (ws ! i) (top_first s, rev (return_stack s)) (ys, rs)"
  using words_run [OF assms(1-4)] words_only_run [OF assms] by blast

text \<open>Two words: the square, and the search for the number above the top of the stack whose square is 9.\<close>

definition root_words :: "forth list" where
  "root_words = [FSeq (FOp Op_DUP) (FOp Op_MUL),
     FSeq (FUntil (FSeq (FOp Op_INC) (FSeq (FOp Op_DUP) (FSeq (FCall 0) (FSeq (FNum 9) (FOp Op_EQ))))))
       (FIf (FNum 7) FNop)]"

definition root_vm :: "nat machine" where
  "root_vm = sample_vm\<lparr>words := map (\<lambda>p. \<lparr>w_name = NullName, w_code = Some (word_code p), w_code_len = int (length (word_code p))\<rparr>)
     root_words @ replicate 254 null_word, word_count := 2, DS := 1 # replicate 255 0, sp := 1\<rparr>"

lemma root_vm_compiled: "compiled root_words (words root_vm)" "list_all wf_forth root_words"
  by (simp_all add: compiled_def root_words_def root_vm_def V4_MAX_WORDS_def All_less_Suc bytes32_def Let_def stack_op_def alu_op_def)

lemma root_vm_simps: "word_count root_vm = 2" "top_first root_vm = [1]" "return_stack root_vm = []" "wf_stacks root_vm" "length root_words = 2"
  by (simp_all add: root_vm_def root_words_def top_first_def data_stack_def return_stack_def wf_stacks_def sample_vm_def zero_vm_def DS_SIZE_def RS_SIZE_def)

theorem structured_words_exact_witness:
  "\<exists>fuel t. vm_exec sample_env fuel (vm_get_word (Some root_vm) 1) (Some root_vm) = Ret 0 (Some t) \<and>
    top_first t = [7] \<and> rev (return_stack t) = []"
proof -
  note simps = prim_step_def abs_prim_def unary_def binary_def exact32_def flag_def int32_min_def int32_max_def bounded_def DS_SIZE_def RS_SIZE_def
  have dup_mul: "evals root_words (FSeq (FOp Op_DUP) (FOp Op_MUL)) ([2, 2], []) ([4, 2], [])"
    by (rule evals.seq [OF evals.op [of _ _ "([2, 2, 2], [])"] evals.op]) (simp_all add: simps)
  have dup_mul': "evals root_words (FSeq (FOp Op_DUP) (FOp Op_MUL)) ([3, 3], []) ([9, 3], [])"
    by (rule evals.seq [OF evals.op [of _ _ "([3, 3, 3], [])"] evals.op]) (simp_all add: simps)
  have square: "evals root_words (FCall 0) ([2, 2], []) ([4, 2], [])" "evals root_words (FCall 0) ([3, 3], []) ([9, 3], [])"
    using evals.call [of 0 root_words, simplified] dup_mul dup_mul' by (simp_all add: root_words_def)
  let ?body = "FSeq (FOp Op_INC) (FSeq (FOp Op_DUP) (FSeq (FCall 0) (FSeq (FNum 9) (FOp Op_EQ))))"
  have "evals root_words ?body ([1], []) ([0, 2], [])"
    by (rule evals.seq [OF evals.op [of _ _ "([2], [])"] evals.seq [OF evals.op evals.seq [OF square(1) evals.seq [OF evals.num evals.op]]]])
      (simp_all add: simps)
  moreover have "evals root_words ?body ([2], []) ([- 1, 3], [])"
    by (rule evals.seq [OF evals.op [of _ _ "([3], [])"] evals.seq [OF evals.op evals.seq [OF square(2) evals.seq [OF evals.num evals.op]]]])
      (simp_all add: simps)
  ultimately have "evals root_words (FUntil ?body) ([1], []) ([3], [])"
    by (intro evals.until_again [OF _ evals.until_done]) auto
  then have "evals root_words (root_words ! 1) ([1], []) ([7], [])"
    by (auto simp: root_words_def simps intro!: evals.seq evals.if_true evals.num)
  then show ?thesis
    using structured_words_exact [OF root_vm_compiled(1) _ _ _ root_vm_compiled(2), of 1 sample_env "[7]" "[]"]
    by (simp add: root_vm_simps)
qed

end
