(* ===== verification/V4_Call_Props.thy ===== *)
theory V4_Call_Props
  imports V4_Structured V4_Run_Props
begin

text \<open>
  Errors in called words: how a failure deep inside a chain of calls ends every caller on the way.
\<close>

text \<open>A word whose first instruction calls word \<open>j\<close>; what follows in its code is arbitrary.\<close>

definition calls_first :: "Word \<Rightarrow> nat \<Rightarrow> bool" where
  "calls_first w j \<longleftrightarrow> (case w_code w of
      None \<Rightarrow> False
    | Some c \<Rightarrow> take 3 c = op_byte Op_CALL # offset16 (int j)) \<and> 3 \<le> w_code_len w"

text \<open>Registered words along a path, each of which calls the next one first.\<close>

fun call_path :: "Word list \<Rightarrow> int \<Rightarrow> nat list \<Rightarrow> bool" where
  "call_path W n [] = False"
| "call_path W n [i] = (int i < n)"
| "call_path W n (i # j # js) = (int i < n \<and> calls_first (W ! i) j \<and> call_path W n (j # js))"

lemma call_path_registered: "call_path W n (i # js) \<Longrightarrow> int i < n"
  by (cases js) auto

lemma exec_registered:
  assumes "wf_vm s" and "int i < word_count s"
  obtains c where "w_code (words s ! i) = Some c" "0 < w_code_len (words s ! i)"
    "\<And>fuel u. vm_exec E fuel (vm_get_word (Some s) (int i)) (Some u) =
      null_checked (V4_ERR InvalidArg) (vm_exec_raw E fuel c (w_code_len (words s ! i))) (Some u)"
proof -
  have wf: "wf_dict s" using assms(1) by (simp add: wf_vm_def)
  then have "words s ! i \<in> set (take (nat (word_count s)) (words s))"
    using assms(2) by (auto simp: wf_dict_def in_set_conv_nth intro!: exI [of _ i])
  then have "wf_word (words s ! i)" using wf by (auto simp: wf_dict_def list_all_iff)
  then show thesis
    using that assms(2) by (auto simp: wf_word_def vm_exec_def vm_get_word_def split: option.splits)
qed

lemma call_fails:
  assumes s: "wf_vm s" and i: "int i < word_count s" and j: "int j < word_count s" and call: "calls_first (words s ! i) j"
    and run: "vm_exec E f (vm_get_word (Some s) (int j)) (Some (s\<lparr>fp := Some (rp s)\<rparr>)) = Ret e (Some t)" and e: "e \<noteq> 0"
  shows "vm_exec E (Suc f) (vm_get_word (Some s) (int i)) (Some s) = Ret e (Some (t\<lparr>fp := fp s\<rparr>))"
proof -
  obtain c where c: "w_code (words s ! i) = Some c" and exec_i: "\<And>fuel u. vm_exec E fuel (vm_get_word (Some s) (int i)) (Some u) =
      null_checked (V4_ERR InvalidArg) (vm_exec_raw E fuel c (w_code_len (words s ! i))) (Some u)"
    using exec_registered [OF s i, of E] by metis
  obtain d where d: "w_code (words s ! j) = Some d" and exec_j: "\<And>fuel u. vm_exec E fuel (vm_get_word (Some s) (int j)) (Some u) =
      null_checked (V4_ERR InvalidArg) (vm_exec_raw E fuel d (w_code_len (words s ! j))) (Some u)"
    using exec_registered [OF s j, of E] by metis
  let ?len = "w_code_len (words s ! i)" and ?post = "drop 3 c"
  have len: "3 \<le> ?len" and code: "c = op_byte Op_CALL # offset16 (int j) @ ?post"
    using call c append_take_drop_id [of 3 c] by (auto simp: calls_first_def simp del: append_take_drop_id)
  have "j < 256" using s j by (simp add: wf_vm_def wf_dict_def V4_MAX_WORDS_def)
  then have u: "unat (word_of_int (int j) :: u16) = j" by (simp add: unsigned_of_nat take_bit_nat_eq_self)
  have size: "1 + 1 < length c" using arg_cong [OF code, of length] by simp
  have "read_i16_le c 1 s = Ret (word_of_int (int j)) s"
    using read_offset16 [of 1 "[op_byte Op_CALL]" "int j" ?post s] code by simp
  then have w: "word_at c 1 = word_of_int (int j)" using size by (simp add: read_i16_word)
  have run_j: "vm_exec_raw E f d (w_code_len (words s ! j)) (s\<lparr>fp := Some (rp s)\<rparr>) = Ret e t"
    using run unfolding exec_j by (auto simp: null_checked_def vm_exec_raw_def entry_assert_def bnd_def code_of_def split: res.splits if_splits)
  have "exec_CALL E (vm_exec_raw E f) c ?len 1 s = Fail e (t\<lparr>fp := fp s\<rparr>)"
    using call_runs_word [OF s _ size w [symmetric], of ?len E f] len unfolding u using d run_j e j by simp
  then have "exec_step E f (vm_exec_raw E f) c ?len 0 s = Fail e (t\<lparr>fp := fp s\<rparr>)"
    using exec_step_at [of "op_byte Op_CALL # offset16 (int j)" Op_CALL "offset16 (int j)" E f "vm_exec_raw E f" "[]" ?post ?len s] code
    by simp
  then have "vm_exec_raw E (Suc f) c ?len s = Ret e (t\<lparr>fp := fp s\<rparr>)"
    using len by (simp add: vm_exec_raw_def entry_assert_def exec_loop_Suc bnd_def code_of_def)
  then show ?thesis unfolding exec_i by simp
qed

text \<open>C24: an error ends every caller. Let registered words call one another along a path, each as the first
  thing it does, whatever code follows the call. If the last one, run in a frame of its own, returns an
  error, then so does the first one, with the same code, for as much fuel more as there are calls: nothing of
  what follows the calls is executed, the machine is the one the failing word left (the stacks are not
  unwound), and only the frame pointer is the caller's again.
\<close>
theorem errors_end_all_callers:
  assumes "wf_vm s" and "call_path (words s) (word_count s) (i # js)" and "js \<noteq> []"
    and "vm_exec E f (vm_get_word (Some s) (int (last js))) (Some (s\<lparr>fp := Some (rp s)\<rparr>)) = Ret e (Some t)" and "e \<noteq> 0"
  shows "vm_exec E (f + length js) (vm_get_word (Some s) (int i)) (Some s) = Ret e (Some (t\<lparr>fp := fp s\<rparr>))"
  using assms
proof (induction js arbitrary: s i t)
  case Nil
  then show ?case by simp
next
  case (Cons j js)
  let ?s = "s\<lparr>fp := Some (rp s)\<rparr>"
  have path: "int i < word_count s" "calls_first (words s ! i) j" "call_path (words s) (word_count s) (j # js)"
    using Cons.prems(2) by simp_all
  have j: "int j < word_count s" using call_path_registered [OF path(3)] .
  show ?case
  proof (cases "js = []")
    case True
    then show ?thesis
      using call_fails [OF Cons.prems(1) path(1) j path(2)] Cons.prems(4,5) by simp
  next
    case False
    have get: "vm_get_word (Some ?s) k = vm_get_word (Some s) k" for k by (simp add: vm_get_word_def)
    have "vm_exec E (f + length js) (vm_get_word (Some ?s) (int j)) (Some ?s) = Ret e (Some (t\<lparr>fp := fp ?s\<rparr>))"
      by (rule Cons.IH) (use Cons.prems path(3) False in \<open>simp_all add: get wf_vm_fp\<close>)
    then show ?thesis
      using call_fails [OF Cons.prems(1) path(1) j path(2), of E "f + length js" e] Cons.prems(5) by (simp add: get)
  qed
qed

text \<open>Word 0 is \<open>DROP RET\<close>; word 1 starts with \<open>CALL 0\<close> and word 2 with \<open>CALL 1\<close>; the data stack is empty.\<close>

definition failing_vm :: "nat machine" where
  "failing_vm = sample_vm\<lparr>words := [word_of [0x02, 0x51], word_of [0x50, 0, 0, 0x76, 0x51], word_of [0x50, 1, 0, 0x01, 0x51]]
     @ replicate 253 null_word, word_count := 3\<rparr>"

theorem errors_end_all_callers_witness:
  "\<exists>t. vm_exec sample_env 3 (vm_get_word (Some failing_vm) 2) (Some failing_vm) = Ret (V4_ERR StackUnderflow) (Some t) \<and>
    fp t = fp failing_vm"
proof -
  have wf: "wf_vm failing_vm"
    using wf_sample_vm by (simp add: failing_vm_def wf_vm_def wf_stacks_def wf_mem_def wf_dict_def V4_MAX_WORDS_def)
  have path: "call_path (words failing_vm) (word_count failing_vm) [2, 1, 0]"
    by (simp add: failing_vm_def calls_first_def offset16_def)
  let ?s = "failing_vm\<lparr>fp := Some (rp failing_vm)\<rparr>"
  have "ds_pop sample_env ?s = panic sample_env StackUnderflow ?s" by (simp add: ds_pop_def failing_vm_def)
  moreover obtain t where "panic sample_env StackUnderflow ?s = (Fail (V4_ERR StackUnderflow) t :: (_, i32) res)"
    using panic_to [of ?s] wf by (metis wf_vm_fp wf_vm_def)
  ultimately have "exec_step sample_env 0 run [0x02, 0x51] 2 0 ?s = Fail (V4_ERR StackUnderflow) t" for run
    using exec_step_at [of "[0x02]" Op_DROP "[]" sample_env 0 run "[]" "[0x51]" 2 ?s]
    by (simp add: exec_DROP_def continue_at_def del: V4_ERR.simps)
  then have "vm_exec_raw sample_env 1 [0x02, 0x51] 2 ?s = Ret (V4_ERR StackUnderflow) t"
    by (simp add: vm_exec_raw_def entry_assert_def exec_loop_Suc bnd_def code_of_def del: V4_ERR.simps)
  moreover have "vm_get_word (Some failing_vm) 0 = Some (word_of [0x02, 0x51])" by (simp add: vm_get_word_def failing_vm_def)
  ultimately have "vm_exec sample_env 1 (vm_get_word (Some failing_vm) (int (last [1, 0]))) (Some ?s) = Ret (V4_ERR StackUnderflow) (Some t)"
    by (simp add: vm_exec_def del: V4_ERR.simps)
  from errors_end_all_callers [OF wf path _ this] show ?thesis by (simp add: numeral_3_eq_3)
qed

end
