(* ===== verification/V4_Task_Steps.thy ===== *)
theory V4_Task_Steps
  imports V4_Tasks
begin

text \<open>
  The task subsystem as a transition system. A step is one call of the task API, a call of the scheduler
  from an interrupt, or anything else that leaves the scheduler's state alone, such as any other
  instruction. The invariant: the machine is well-formed and no task but the current one is running.
\<close>

section \<open>Steps\<close>

inductive task_step :: "'d env \<Rightarrow> 'd machine \<Rightarrow> 'd machine \<Rightarrow> bool" for E :: "'d env" where
  init: "task_init ms s = Ret r t \<Longrightarrow> task_step E s t"
| cleanup: "task_cleanup s = Ret r t \<Longrightarrow> task_step E s t"
| spawn: "task_spawn E w p d k s = Ret i t \<Longrightarrow> task_step E s t"
| exit: "task_exit E s = Ret r t \<Longrightarrow> task_step E s t"
| sleep: "task_sleep E ms s = Ret r t \<Longrightarrow> task_step E s t"
| yield: "task_yield E s = Ret r t \<Longrightarrow> task_step E s t"
| send: "task_send dst mt x s = Ret r t \<Longrightarrow> task_step E s t"
| receive: "task_receive mt s = Ret m t \<Longrightarrow> task_step E s t"
| enter: "task_critical_enter E s = Ret r t \<Longrightarrow> task_step E s t"
| leave: "task_critical_exit E s = Ret r t \<Longrightarrow> task_step E s t"
| interrupt: "vm_schedule_from_isr E (Some s) = Ret r (Some t) \<Longrightarrow> task_step E s t"
| other: "scheduler t = scheduler s \<Longrightarrow> wf_vm t \<Longrightarrow> task_step E s t"

inductive_cases task_stepE: "task_step E s t"

abbreviation task_steps :: "'d env \<Rightarrow> 'd machine \<Rightarrow> 'd machine \<Rightarrow> bool" where
  "task_steps E \<equiv> (task_step E)\<^sup>*\<^sup>*"

section \<open>The invariant\<close>

lemma one_running_cong:
  assumes "tasks (scheduler t) = tasks (scheduler s)" and "cur_index t = cur_index s"
  shows "one_running t = one_running s"
  using assms by (simp add: one_running_def task_at_def)

lemma one_running_dead:
  assumes "\<And>i. i < 8 \<Longrightarrow> t_state (task_at s i) = DEAD"
  shows "one_running s"
  using assms by (auto simp: one_running_def)

lemma one_running_set:
  assumes "one_running s" and "i < 8" and "t_state x = RUNNING \<Longrightarrow> i = cur_index s" and "length (tasks (scheduler s)) = 8"
  shows "one_running (set_task i x s)"
  using assms by (auto simp: one_running_def task_at_def nth_list_update split: if_splits)

lemma schedule_one_running:
  assumes wf: "wf_vm s" and one: "one_running s" and run: "schedule E s = Ret r t"
  shows "one_running t"
proof -
  obtain tick w where tick: "get_tick_ms E (world s) = (tick, w)" by (cases "get_tick_ms E (world s)")
  show ?thesis
  proof (rule schedule_outcome [OF wf tick])
    fix a n t' assume "schedule E s = Ret 0 t'" "parked (task_at s (cur_index s)) s a" "scheduled tick a n s t'"
    then show ?thesis using scheduled_running [OF wf one] run by (auto simp: one_running_def)
  qed (use run in simp)
qed

lemma wf_tasks_length: "wf_vm s \<Longrightarrow> length (tasks (scheduler s)) = 8"
  by (simp add: wf_vm_def wf_sched_def V4_MAX_TASKS_def)

lemma bnd_schedule_one_running:
  assumes "wf_vm s" and "one_running s" and "bnd (schedule E) (\<lambda>_. Ret c) s = Ret r t"
  shows "one_running t"
  using schedule_one_running [OF assms(1,2)] assms(3) by (auto simp: bnd_eq_Ret_iff)

text \<open>The state in which a task that exits or sleeps calls the scheduler.\<close>

definition left_current :: "v4_task_t \<Rightarrow> u8 \<Rightarrow> 'd \<Rightarrow> 'd machine \<Rightarrow> 'd machine" where
  "left_current x c w s = (set_task (cur_index s) x s)\<lparr>world := w,
     scheduler := (scheduler (set_task (cur_index s) x s))\<lparr>task_count := c\<rparr>\<rparr>"

lemma left_current_running:
  assumes "wf_vm s" and "one_running s" and "wf_task x"
  shows "one_running (left_current x c w s)"
proof -
  let ?s1 = "set_task (cur_index s) x s"
  have one: "one_running ?s1" using assms by (intro one_running_set) (auto simp: wf_tasks_length)
  then show ?thesis by (simp add: left_current_def one_running_def task_at_def cur_index_def)
qed

lemma left_current_wf:
  assumes "wf_vm s" and "wf_task x"
  shows "wf_vm (left_current x c w s)" and "cur_index (left_current x c w s) = cur_index s" and "task_at (left_current x c w s) (cur_index s) = x"
    and "world (left_current x c w s) = w" and "task_count (scheduler (left_current x c w s)) = c"
    and "i \<noteq> cur_index s \<Longrightarrow> task_at (left_current x c w s) i = task_at s i"
proof -
  let ?s1 = "set_task (cur_index s) x s"
  have wf: "wf_vm ?s1" by (rule wf_set_task [OF assms(1,2)])
  show "wf_vm (left_current x c w s)"
    unfolding left_current_def by (rule wf_vm_replace) (simp_all add: wf wf_vm_sched [OF wf])
  have "cur_index s < length (tasks (scheduler s))" using assms(1) by (simp add: wf_tasks_length)
  then show "task_at (left_current x c w s) (cur_index s) = x"
    by (simp add: left_current_def task_at_def)
  show "i \<noteq> cur_index s \<Longrightarrow> task_at (left_current x c w s) i = task_at s i"
    by (simp add: left_current_def task_at_def)
qed (simp_all add: left_current_def cur_index_def)

lemma task_exit_eq:
  "task_exit E s = bnd (schedule E) (\<lambda>_. Ret (V4_ERR OK))
     (left_current ((task_at s (cur_index s))\<lparr>ds_base := None, rs_base := None, t_state := DEAD\<rparr>)
        (task_count (scheduler s) - 1) (world s) s)"
  by (simp add: task_exit_def left_current_def set_task_def Let_def)

lemma task_sleep_eq:
  assumes "get_tick_ms E (world s) = (tick, w)"
  shows "task_sleep E ms s = bnd (schedule E) (\<lambda>_. Ret (V4_ERR OK))
     (left_current ((task_at s (cur_index s))\<lparr>sleep_until_tick := tick + ms, t_state := BLOCKED\<rparr>)
        (task_count (scheduler s)) w s)"
  using assms
  by (simp add: task_sleep_def left_current_def set_task_def Let_def on_world_def task_at_def cur_index_def)

text \<open>Every step keeps the invariant.\<close>

definition task_inv :: "'d machine \<Rightarrow> bool" where
  "task_inv s \<longleftrightarrow> wf_vm s \<and> one_running s"

lemma keeps_task_init: "keeps wf_vm U (task_init ms)"
  by (rule keeps_returns) (auto simp: task_init_def wf_vm_def wf_stacks_def wf_mem_def wf_dict_def wf_sched_def
      zero_scheduler_def V4_MAX_TASKS_def list_all_iff)

lemma keeps_task_cleanup: "keeps wf_vm U task_cleanup"
  by (rule keeps_returns) (auto simp: task_cleanup_def wf_vm_def wf_stacks_def wf_mem_def wf_dict_def wf_sched_def
      wf_task_def wf_block_def list_all_iff)

lemma exit_inv:
  assumes "task_inv s" and "task_exit E s = Ret r t" shows "task_inv t"
proof -
  let ?x = "(task_at s (cur_index s))\<lparr>ds_base := None, rs_base := None, t_state := DEAD\<rparr>"
  have "wf_task ?x" using assms(1) by (intro wf_task_dead wf_vm_task) (simp_all add: task_inv_def)
  then have "wf_vm (left_current ?x (task_count (scheduler s) - 1) (world s) s)"
      "one_running (left_current ?x (task_count (scheduler s) - 1) (world s) s)"
    using assms(1) by (simp_all add: left_current_wf left_current_running task_inv_def)
  from bnd_schedule_one_running [OF this] assms(2) have "one_running t" by (simp add: task_exit_eq)
  moreover have "wf_vm t"
    using keeps_Ret [OF keeps_task_exit [of UNIV E] _ assms(2)] assms(1) by (simp add: task_inv_def)
  ultimately show ?thesis by (simp add: task_inv_def)
qed

lemma sleep_inv:
  assumes "task_inv s" and "task_sleep E ms s = Ret r t" shows "task_inv t"
proof -
  obtain tick w where tick: "get_tick_ms E (world s) = (tick, w)" by (cases "get_tick_ms E (world s)")
  let ?x = "(task_at s (cur_index s))\<lparr>sleep_until_tick := tick + ms, t_state := BLOCKED\<rparr>"
  have "wf_task ?x" using assms(1) by (intro wf_task_dead wf_vm_task) (simp_all add: task_inv_def)
  then have "wf_vm (left_current ?x (task_count (scheduler s)) w s)" "one_running (left_current ?x (task_count (scheduler s)) w s)"
    using assms(1) by (simp_all add: left_current_wf left_current_running task_inv_def)
  from bnd_schedule_one_running [OF this] assms(2) have "one_running t" by (simp add: task_sleep_eq [OF tick])
  moreover have "wf_vm t"
    using keeps_Ret [OF keeps_task_sleep [of UNIV E] _ assms(2)] assms(1) by (simp add: task_inv_def)
  ultimately show ?thesis by (simp add: task_inv_def)
qed

lemma spawn_inv:
  assumes inv: "task_inv s" and run: "task_spawn E w p d k s = Ret i t" shows "task_inv t"
proof -
  have len: "length (tasks (scheduler s)) = 8" using inv by (simp add: task_inv_def wf_tasks_length)
  have one: "one_running s" using inv by (simp add: task_inv_def)
  have upd: "one_running (u\<lparr>scheduler := (scheduler u)\<lparr>task_count := c\<rparr>\<rparr>) = one_running u" for u :: "'a machine" and c
    by (rule one_running_cong) (simp_all add: cur_index_def)
  have w: "one_running (set_task j x (s\<lparr>world := v\<rparr>))" if "j < 8" "t_state x \<noteq> RUNNING" for j x v
    by (rule one_running_set) (use that one len in \<open>simp_all add: one_running_def task_at_def cur_index_def\<close>)
  have "one_running t"
  proof (cases "uint w \<ge> word_count s \<or> free_slot s = None")
    case True
    then show ?thesis using run one by (auto simp: task_spawn_def split: if_splits)
  next
    case False
    then obtain j where j: "uint w < word_count s" "free_slot s = Some j" "j < 8" "t_state (task_at s j) = DEAD"
      by (auto simp: free_slot_def find_upt_Some_iff V4_MAX_TASKS_def)
    define d' k' where "d' = (if d = 0 then 256 else d)" and "k' = (if k = 0 then 64 else k)"
    obtain ok1 w1 ok2 w2 where m: "malloc_ok E (unat d' * 4) (world s) = (ok1, w1)"
        "malloc_ok E (unat k' * 4) w1 = (ok2, w2)"
      by (metis surj_pair)
    from run [unfolded spawn_run [OF j(1,2) d'_def k'_def m]] show ?thesis
      using w [OF j(3), of "spawned w p d' k'" w2] w [OF j(3), of "(task_at s j)\<lparr>ds_base := None, rs_base := None\<rparr>" w2] j(4)
      by (auto simp: Let_def upd spawned_def split: if_splits)
  qed
  moreover have "wf_vm t"
    using keeps_Ret [OF keeps_task_spawn [of UNIV E w p d k] _ run] inv by (simp add: task_inv_def)
  ultimately show ?thesis by (simp add: task_inv_def)
qed

lemma dead_inv:
  assumes "wf_vm t" and "\<And>i. i < 8 \<Longrightarrow> t_state (tasks (scheduler t) ! i) = DEAD"
  shows "task_inv t"
  unfolding task_inv_def using assms by (intro conjI one_running_dead) (simp_all add: task_at_def)

lemma init_inv:
  assumes "wf_vm s" and "task_init ms s = Ret r t" shows "task_inv t"
proof (rule dead_inv)
  show "wf_vm t" by (rule keeps_Ret [OF keeps_task_init [of UNIV] assms])
  show "t_state (tasks (scheduler t) ! i) = DEAD" if "i < 8" for i
    using assms(2) that by (auto simp: task_init_def zero_scheduler_def V4_MAX_TASKS_def zero_task_def)
qed

lemma cleanup_inv:
  assumes "wf_vm s" and "task_cleanup s = Ret r t" shows "task_inv t"
proof (rule dead_inv)
  show "wf_vm t" by (rule keeps_Ret [OF keeps_task_cleanup [of UNIV] assms])
  show "t_state (tasks (scheduler t) ! i) = DEAD" if "i < 8" for i
    using assms that by (auto simp: task_cleanup_def wf_tasks_length)
qed

text \<open>Operations that keep the tasks and the current index keep the invariant when they keep well-formedness.\<close>

lemma same_tasks_inv:
  assumes "task_inv s" and "wf_vm t" and "tasks (scheduler t) = tasks (scheduler s)" and "cur_index t = cur_index s"
  shows "task_inv t"
  using assms one_running_cong [OF assms(3,4)] by (simp add: task_inv_def)

lemma isr_inv:
  assumes inv: "task_inv s" and run: "vm_schedule_from_isr E (Some s) = Ret r (Some t)" shows "task_inv t"
proof (cases "critical_nesting (scheduler s) > 0")
  case True
  then show ?thesis using inv run by (simp add: vm_schedule_from_isr_def)
next
  case False
  let ?s = "s\<lparr>scheduler := (scheduler s)\<lparr>preemptions := preemptions (scheduler s) + 1\<rparr>\<rparr>"
  have s: "task_inv ?s"
    using inv by (intro same_tasks_inv [OF inv] wf_vm_replace) (simp_all add: task_inv_def wf_vm_sched cur_index_def)
  have "schedule E ?s = Ret r t"
    using run False by (auto simp: vm_schedule_from_isr_def null_checked_def split: res.splits)
  then show ?thesis
    using s schedule_one_running [of ?s E r t] keeps_Ret [OF keeps_schedule [of UNIV E]] by (auto simp: task_inv_def)
qed

lemma task_step_inv:
  assumes "task_step E s t" and inv: "task_inv s"
  shows "task_inv t"
proof -
  have wf: "wf_vm s" using inv by (simp add: task_inv_def)
  from assms(1) show ?thesis
  proof cases
    case (yield r)
    then have "one_running t" using inv bnd_schedule_one_running [of s] by (auto simp: task_yield_def task_inv_def)
    moreover have "wf_vm t"
      using keeps_Ret [OF keeps_task_yield [of UNIV E] _ yield] inv by (simp add: task_inv_def)
    ultimately show ?thesis by (simp add: task_inv_def)
  next
    case (send dst mt x r)
    have "wf_vm t" using keeps_Ret [OF keeps_task_send [of UNIV] _ send] inv by (simp add: task_inv_def)
    then show ?thesis
      using send by (intro same_tasks_inv [OF inv])
        (auto simp: task_send_def v4_backend_task_send_def cur_index_def Let_def split: if_splits)
  next
    case (receive mt m)
    have "wf_vm t" using keeps_Ret [OF keeps_task_receive [of UNIV] _ receive] inv by (simp add: task_inv_def)
    then show ?thesis
      using receive by (intro same_tasks_inv [OF inv])
        (auto simp: task_receive_def v4_backend_task_receive_def cur_index_def Let_def split: option.splits)
  next
    case (enter r)
    have "wf_vm t" using keeps_Ret [OF keeps_critical_enter [of UNIV E] _ enter] inv by (simp add: task_inv_def)
    then show ?thesis
      using enter by (intro same_tasks_inv [OF inv]) (auto simp: task_critical_enter_def cur_index_def)
  next
    case (leave r)
    have "wf_vm t" using keeps_Ret [OF keeps_critical_exit [of UNIV E] _ leave] inv by (simp add: task_inv_def)
    then show ?thesis
      using leave by (intro same_tasks_inv [OF inv])
        (auto simp: task_critical_exit_def cur_index_def Let_def split: if_splits)
  next
    case other
    then show ?thesis by (intro same_tasks_inv [OF inv]) (simp_all add: cur_index_def)
  qed (blast intro: init_inv [OF wf] cleanup_inv [OF wf] exit_inv [OF inv] sleep_inv [OF inv] spawn_inv [OF inv] isr_inv [OF inv])+
qed

lemma task_steps_inv: "task_steps E s t \<Longrightarrow> task_inv s \<Longrightarrow> task_inv t"
  by (induction rule: rtranclp_induct) (auto intro: task_step_inv)

section \<open>What the scheduler leaves alone\<close>

definition has_count :: "u8 \<Rightarrow> ('d, 'm) Vm_scheme \<Rightarrow> bool" where
  "has_count c s \<longleftrightarrow> task_count (scheduler s) = c"

lemma count_restore: "v4_task_restore_context x s = Ret a t \<Longrightarrow> scheduler t = scheduler s"
  by (auto simp: v4_task_restore_context_def split: sum.splits)

lemma restore_not_Fail [simp]: "v4_task_restore_context x s \<noteq> Fail e t"
  by (simp add: v4_task_restore_context_def split: sum.split)

lemma schedule_count:
  assumes "schedule E s = Ret r t" shows "task_count (scheduler t) = task_count (scheduler s)"
proof -
  have save: "keeps (has_count c) UNIV save_current" for c
    by (auto simp: keeps_def save_current_def has_count_def set_task_def Let_def split: if_splits sum.splits)
  have select: "keeps (has_count c) UNIV (v4_task_select_next E)" for c
    unfolding v4_task_select_next_def
    by (intro keeps_bnd on_world_keeps) (auto simp: keeps_def Let_def has_count_def split: prod.splits)
  have switch: "keeps (has_count c) UNIV (switch_to n)" for c n
    by (auto simp: keeps_def switch_to_def has_count_def set_task_def Let_def bnd_def
        dest!: count_restore split: if_splits res.splits)
  have "keeps (has_count (task_count (scheduler s))) UNIV (schedule E)"
    unfolding schedule_def by (intro keeps_bnd save select switch)
  from keeps_Ret [OF this _ assms] show ?thesis by (simp add: has_count_def)
qed

end
