(* ===== verification/V4_Mock_Platform.thy ===== *)
theory V4_Mock_Platform
  imports V4_Tasks
begin

text \<open>
  The platform the repository tests its tasks on, \<^verbatim>\<open>tests/mock_task_platform.cpp\<close>: a tick counter the test
  advances and a count of the open critical sections. The locale \<open>counting_platform\<close> is the part of the platform
  API (\<^verbatim>\<open>task_platform.h\<close>) about critical sections; the mock platform provides it.
\<close>

section \<open>The mock platform\<close>

record mock_platform =
  mock_tick_ms :: u32
  mock_nesting :: int

definition mock_platform_init :: "u32 \<Rightarrow> mock_platform \<Rightarrow> int \<times> mock_platform" where
  "mock_platform_init slice_ms p = (0, p\<lparr>mock_tick_ms := 0\<rparr>)"

definition mock_platform_deinit :: "mock_platform \<Rightarrow> int \<times> mock_platform" where
  "mock_platform_deinit p = (0, p)"

definition mock_critical_enter :: "mock_platform \<Rightarrow> mock_platform" where
  "mock_critical_enter p = p\<lparr>mock_nesting := mock_nesting p + 1\<rparr>"

definition mock_critical_exit :: "mock_platform \<Rightarrow> mock_platform" where
  "mock_critical_exit p = (if mock_nesting p > 0 then p\<lparr>mock_nesting := mock_nesting p - 1\<rparr> else p)"

definition mock_get_tick_ms :: "mock_platform \<Rightarrow> u32 \<times> mock_platform" where
  "mock_get_tick_ms p = (mock_tick_ms p, p)"

definition mock_task_advance_tick :: "u32 \<Rightarrow> mock_platform \<Rightarrow> mock_platform" where
  "mock_task_advance_tick ms p = p\<lparr>mock_tick_ms := mock_tick_ms p + ms\<rparr>"

definition mock_task_reset_tick :: "mock_platform \<Rightarrow> mock_platform" where
  "mock_task_reset_tick p = p\<lparr>mock_tick_ms := 0, mock_nesting := 0\<rparr>"

definition mock_task_get_tick :: "mock_platform \<Rightarrow> u32" where
  "mock_task_get_tick p = mock_tick_ms p"

text \<open>An engine on this platform.\<close>

definition mock_env :: "mock_platform env" where
  "mock_env = \<lparr>enable_tasks = True, panic_diagnostics = True, ndebug = False, get_tick_ms = mock_get_tick_ms,
     platform_critical_enter = mock_critical_enter, platform_critical_exit = mock_critical_exit,
     malloc_ok = (\<lambda>n p. (True, p)), g_sys_handler = None\<rparr>"

section \<open>The contract of critical sections\<close>

text \<open>
  What the API asks of a platform: an exit undoes the enter before it, so sections nest, and interrupts are
  masked inside a section. What the engine makes of it: its \<open>n\<close> enters call the platform \<open>n\<close> times, its \<open>n\<close> exits
  once.
\<close>

locale counting_platform =
  fixes enter_section leave_section :: "'w \<Rightarrow> 'w" and masked valid :: "'w \<Rightarrow> bool"
  assumes leave_enter: "valid w \<Longrightarrow> leave_section (enter_section w) = w"
    and enter_valid: "valid w \<Longrightarrow> valid (enter_section w)"
    and enter_masks: "valid w \<Longrightarrow> masked (enter_section w)"
begin

lemma enters_valid: "valid w \<Longrightarrow> valid ((enter_section ^^ n) w)"
  by (induction n) (simp_all add: enter_valid)

lemma leave_enters: "valid w \<Longrightarrow> leave_section ((enter_section ^^ Suc n) w) = (enter_section ^^ n) w"
  using leave_enter enters_valid by simp

lemma masked_enters: "valid w \<Longrightarrow> 0 < n \<Longrightarrow> masked ((enter_section ^^ n) w)"
  using enter_masks enters_valid by (cases n) simp_all

end

definition mock_masked :: "mock_platform \<Rightarrow> bool" where
  "mock_masked p \<longleftrightarrow> mock_nesting p > 0"

definition mock_valid :: "mock_platform \<Rightarrow> bool" where
  "mock_valid p \<longleftrightarrow> mock_nesting p \<ge> 0"

interpretation platform: counting_platform mock_critical_enter mock_critical_exit mock_masked mock_valid
  by unfold_locales (auto simp: mock_critical_enter_def mock_critical_exit_def mock_masked_def mock_valid_def)

end
