(* ===== verification/V4_Task_Props.thy ===== *)
theory V4_Task_Props
  imports V4_Task_Steps V4_Interp V4_Mock_Platform V4_Data_Props
begin

text \<open>
  The properties of messages, the scheduler and the task API: the refinement of the message ring by a
  list, selection by priority in turns, context switches, the invariant of all reachable states, critical
  sections, and the places where the code does not do what its comments say.
\<close>

section \<open>Messages\<close>

text \<open>A machine whose queue holds a message for task 1 and one for the current task 0.\<close>

definition mail_to :: "u8 \<Rightarrow> i32 \<Rightarrow> v4_message_t" where
  "mail_to dst x = \<lparr>src_task = 2, dst_task = dst, msg_type = 1, m_flags = 0, m_data = x\<rparr>"

definition queue_vm :: "nat machine" where
  "queue_vm = sample_vm\<lparr>msg_queue := \<lparr>ring = [mail_to 1 5, mail_to 0 7] @ replicate 14 zero_message, read_idx = 0,
     write_idx = 2, msg_count = 2\<rparr>\<rparr>"

lemma wf_queue_vm: "wf_vm queue_vm"
  using wf_sample_vm
  by (simp add: queue_vm_def wf_vm_def wf_stacks_def wf_mem_def wf_dict_def wf_queue_def V4_MSG_QUEUE_SIZE_def)

lemma queue_vm_simps:
  "contents (msg_queue queue_vm) = [mail_to 1 5, mail_to 0 7]" "scheduler queue_vm = zero_scheduler" "in_sync (msg_queue queue_vm)"
  by (simp_all add: queue_vm_def contents_def slot_def in_sync_def V4_MSG_QUEUE_SIZE_def upt_conv_Cons)

text \<open>C9: a receive delivers the first waiting message for the current task (or for all) of the wanted type
  and removes it alone, keeping the order of the others; without such a message it changes nothing. The
  ring with its shifting loop implements this on the list of waiting messages.
\<close>
theorem receive_refines_list:
  assumes "wf_vm s"
  shows "case receive_spec (current_task (scheduler s)) mt (contents (msg_queue s)) of
      None \<Rightarrow> task_receive mt s = Ret (0, None) s
    | Some (m, ms) \<Rightarrow> \<exists>q. task_receive mt s = Ret (1, Some (m_data m, src_task m)) (s\<lparr>msg_queue := q\<rparr>) \<and>
        contents q = ms \<and> wf_queue q"
  using receive_refines [OF wf_vm_queue_of [OF assms], of mt]
  by (auto simp: task_receive_def split: option.splits)

theorem receive_refines_list_witness:
  "\<exists>q. task_receive 0 queue_vm = Ret (1, Some (7, 2)) (queue_vm\<lparr>msg_queue := q\<rparr>) \<and> contents q = [mail_to 1 5]"
proof -
  have "receive_spec (current_task (scheduler queue_vm)) 0 (contents (msg_queue queue_vm)) = Some (mail_to 0 7, [mail_to 1 5])"
    by (simp add: queue_vm_simps receive_spec_def message_matches_def remove_at_def mail_to_def zero_scheduler_def)
  with receive_refines_list [OF wf_queue_vm, of 0] show ?thesis by (auto simp: mail_to_def)
qed

text \<open>C29: a send checks the target before the room, and refuses without changing anything. Otherwise, as long
  as the ring's indices are in step, the message goes behind all waiting ones and they stay in step. (A
  successful receive ends that, see the theorem on the stale message.) When they are out of step, the message
  that becomes the newest waiting one is not this one but whatever the next slot held before.
\<close>
theorem send_outcome:
  assumes wf: "wf_vm s"
  shows "if unat dst \<ge> V4_MAX_TASKS \<and> dst \<noteq> 0xFF then task_send dst mt x s = Ret (V4_ERR InvalidArg) s
    else if length (contents (msg_queue s)) = V4_MSG_QUEUE_SIZE then task_send dst mt x s = Ret (V4_ERR MsgQueueFull) s
    else \<exists>q. task_send dst mt x s = Ret (V4_ERR OK) (s\<lparr>msg_queue := q\<rparr>) \<and> wf_queue q \<and>
      (in_sync (msg_queue s) \<longrightarrow> in_sync q \<and> contents q = contents (msg_queue s) @
        [\<lparr>src_task = current_task (scheduler s), dst_task = dst, msg_type = mt, m_flags = 0, m_data = x\<rparr>]) \<and>
      (\<not> in_sync (msg_queue s) \<longrightarrow>
        last (contents q) = ring (msg_queue s) ! slot (msg_queue s) (length (contents (msg_queue s))))"
proof -
  let ?q = "msg_queue s" and ?c = "current_task (scheduler s)"
  have q: "wf_queue ?q" by (rule wf_vm_queue_of [OF wf])
  then have le: "unat (msg_count ?q) \<le> V4_MSG_QUEUE_SIZE" by (simp add: wf_queue_def)
  show ?thesis
  proof (cases "unat dst \<ge> V4_MAX_TASKS \<and> dst \<noteq> 0xFF")
    case True
    then show ?thesis by (simp only: task_send_def v4_backend_task_send_def option.case simp_thms if_True prod.case)
  next
    case dst: False
    show ?thesis
    proof (cases "unat (msg_count ?q) \<ge> V4_MSG_QUEUE_SIZE")
      case True
      then have "length (contents ?q) = V4_MSG_QUEUE_SIZE" using le by simp
      with True dst show ?thesis
        by (simp only: task_send_def v4_backend_task_send_def option.case simp_thms if_True if_False prod.case)
    next
      case False
      then have "task_send dst mt x s = Ret (V4_ERR OK) (s\<lparr>msg_queue := send_message ?c ?q dst mt x\<rparr>)"
        using dst by (simp only: task_send_def v4_backend_task_send_def option.case if_False prod.case)
      moreover have room: "unat (msg_count ?q) < V4_MSG_QUEUE_SIZE" using False by simp
      moreover from room have "length (contents ?q) \<noteq> V4_MSG_QUEUE_SIZE" by simp
      ultimately show ?thesis
        unfolding if_not_P [OF dst] using wf_send [OF q room] send_in_sync [OF q _ room] send_out_of_sync [OF q _ room]
        by (simp only: if_False length_contents) blast
    qed
  qed
qed

theorem send_outcome_witness:
  "\<exists>q. task_send 3 1 9 queue_vm = Ret (V4_ERR OK) (queue_vm\<lparr>msg_queue := q\<rparr>) \<and>
    contents q = [mail_to 1 5, mail_to 0 7, \<lparr>src_task = 0, dst_task = 3, msg_type = 1, m_flags = 0, m_data = 9\<rparr>]"
  using send_outcome [OF wf_queue_vm, of 3 1 9]
  by (auto simp: queue_vm_simps V4_MAX_TASKS_def V4_MSG_QUEUE_SIZE_def zero_scheduler_def simp del: V4_ERR.simps)

text \<open>C32: a receive does not take the write index back. On an empty ring, after a send and a receive, the
  next message is stored one slot too far: the receive that follows delivers the first message a second
  time, and the new one is lost.
\<close>
theorem stale_message_delivered:
  assumes q: "msg_queue s = zero_msg_queue" and c: "unat (current_task (scheduler s)) < V4_MAX_TASKS"
  shows "\<exists>t. bnd (task_send (current_task (scheduler s)) 1 a) (\<lambda>_. bnd (task_receive 1) (\<lambda>_.
      bnd (task_send (current_task (scheduler s)) 1 b) (\<lambda>_. task_receive 1))) s =
    Ret (1, Some (a, current_task (scheduler s))) t \<and> contents (msg_queue t) = []"
proof -
  let ?c = "current_task (scheduler s)"
  let ?m = "\<lambda>x. \<lparr>src_task = ?c, dst_task = ?c, msg_type = 1, m_flags = 0, m_data = x\<rparr>"
  have ok: "\<not> (unat ?c \<ge> V4_MAX_TASKS \<and> ?c \<noteq> 0xFF)" using c by simp
  define r1 where "r1 = (replicate 16 zero_message)[0 := ?m a]"
  define r2 where "r2 = r1[1 := ?m b]"
  define s1 where "s1 = s\<lparr>msg_queue := \<lparr>ring = r1, read_idx = 0, write_idx = 1, msg_count = 1\<rparr>\<rparr>"
  define s2 where "s2 = s\<lparr>msg_queue := \<lparr>ring = r1, read_idx = 0, write_idx = 1, msg_count = 0\<rparr>\<rparr>"
  define s3 where "s3 = s\<lparr>msg_queue := \<lparr>ring = r2, read_idx = 0, write_idx = 2, msg_count = 1\<rparr>\<rparr>"
  define s4 where "s4 = s\<lparr>msg_queue := \<lparr>ring = r2, read_idx = 0, write_idx = 2, msg_count = 0\<rparr>\<rparr>"
  have r: "r1 ! 0 = ?m a" "r2 ! 0 = ?m a" by (simp_all add: r1_def r2_def)
  have "task_send ?c 1 a s = Ret (V4_ERR OK) s1"
    using ok q by (simp add: task_send_def v4_backend_task_send_def send_message_def zero_msg_queue_def V4_MSG_QUEUE_SIZE_def s1_def r1_def)
  moreover have "task_receive 1 s1 = Ret (1, Some (a, ?c)) s2"
    using r by (simp add: task_receive_def v4_backend_task_receive_def Let_def message_matches_def slot_def shift_down_def
        V4_MSG_QUEUE_SIZE_def s1_def s2_def)
  moreover have "task_send ?c 1 b s2 = Ret (V4_ERR OK) s3"
    using ok by (simp add: task_send_def v4_backend_task_send_def send_message_def V4_MSG_QUEUE_SIZE_def s2_def s3_def r2_def)
  moreover have "task_receive 1 s3 = Ret (1, Some (a, ?c)) s4"
    using r by (simp add: task_receive_def v4_backend_task_receive_def Let_def message_matches_def slot_def shift_down_def
        V4_MSG_QUEUE_SIZE_def s3_def s4_def)
  moreover have "contents (msg_queue s4) = []" by (simp add: contents_def s4_def)
  ultimately show ?thesis by (simp add: bnd_def)
qed

theorem stale_message_delivered_witness:
  "\<exists>t. bnd (task_send 0 1 10) (\<lambda>_. bnd (task_receive 1) (\<lambda>_. bnd (task_send 0 1 20) (\<lambda>_. task_receive 1))) sample_vm =
    Ret (1, Some (10, 0)) t"
  using stale_message_delivered [of sample_vm 10 20] by (auto simp: zero_scheduler_def V4_MAX_TASKS_def)

section \<open>Scheduling\<close>

text \<open>
  The tasks the scheduler may choose at a tick: those that are ready or running, or whose sleep is over,
  of the highest priority among them, if that is not 0.
\<close>

definition top_task :: "u32 \<Rightarrow> ('d, 'm) Vm_scheme \<Rightarrow> nat \<Rightarrow> bool" where
  "top_task tick s i \<longleftrightarrow> i < 8 \<and> runnable (wake tick (task_at s i)) \<and> 0 < t_priority (task_at s i) \<and>
     (\<forall>j < 8. runnable (wake tick (task_at s j)) \<longrightarrow> t_priority (task_at s j) \<le> t_priority (task_at s i))"

lemma runnable_parked: "parked x s a \<Longrightarrow> runnable (wake tick a) = runnable (wake tick x) \<and> t_priority a = t_priority x"
  by (auto simp: parked_def runnable_wake_iff t_state_wake split: if_splits)

lemma candidate_top:
  assumes wf: "wf_vm s" and p: "parked (task_at s (cur_index s)) s a"
  shows "candidate (woken_tasks tick a s) i \<longleftrightarrow> top_task tick s i"
proof -
  have w: "runnable (woken_tasks tick a s ! j) = runnable (wake tick (task_at s j)) \<and>
      t_priority (woken_tasks tick a s ! j) = t_priority (task_at s j)" if "j < 8" for j
    using runnable_parked [OF p, of tick] by (auto simp: nth_woken [OF wf that])
  show ?thesis using w wf by (auto simp: candidate_def top_task_def)
qed

lemma scheduler_index:
  assumes wf: "wf_vm s" and tick: "get_tick_ms E (world s) = (tick, w)" and run: "schedule E s = Ret r t"
    and i: "top_task tick s i"
  shows "top_task tick s (cur_index t) \<and>
    (cur_index s < i \<longrightarrow> cur_index s < cur_index t \<and> cur_index t \<le> i) \<and>
    ((\<forall>j. top_task tick s j \<longrightarrow> j \<le> cur_index s) \<longrightarrow> cur_index t \<le> i)"
proof -
  obtain a n where p: "parked (task_at s (cur_index s)) s a" and sch: "scheduled tick a n s t"
    by (rule schedule_outcome [OF wf tick]) (use run in auto)
  have cand: "candidate (woken_tasks tick a s) j \<longleftrightarrow> top_task tick s j" for j by (rule candidate_top [OF wf p])
  have n: "cur_index t = round_robin (woken_tasks tick a s) (cur_index s)"
    using sch by (simp add: scheduled_def Let_def)
  have i': "candidate (woken_tasks tick a s) i" using i cand by simp
  show ?thesis
    unfolding n using round_robin_spec [OF i', of "cur_index s"] cand by blast
qed

text \<open>C18: the scheduler runs a task of the highest positive priority among the ready ones, sleepers whose
  time has come included, and takes equal priorities in turns: the next one behind the current task, or
  the first of all when none is behind it. Tasks of priority 0 are never chosen.
\<close>
theorem scheduler_picks_top_task:
  assumes wf: "wf_vm s" and tick: "get_tick_ms E (world s) = (tick, w)" and run: "schedule E s = Ret r t"
    and i: "top_task tick s i"
  shows "top_task tick s (cur_index t) \<and>
    (cur_index s < i \<longrightarrow> cur_index s < cur_index t \<and> cur_index t \<le> i) \<and>
    ((\<forall>j. top_task tick s j \<longrightarrow> j \<le> cur_index s) \<longrightarrow> cur_index t \<le> i)"
  using scheduler_index [OF assms] .

text \<open>A machine with a running task of priority 5, ready tasks of priorities 5 and 3, and values on its stack.\<close>

definition default_task :: "v4_task_state_t \<Rightarrow> u8 \<Rightarrow> v4_task_t" where
  "default_task st p = zero_task\<lparr>ds_base := Some (fresh_block 256), rs_base := Some (fresh_block 64), t_state := st, t_priority := p\<rparr>"

definition tasks_vm :: "nat machine" where
  "tasks_vm = sample_vm\<lparr>DS := 11 # 22 # replicate 254 0, sp := 2, scheduler := zero_scheduler
     \<lparr>tasks := [default_task RUNNING 5, default_task READY 5, default_task READY 3] @ replicate 5 zero_task, task_count := 3\<rparr>\<rparr>"

lemma default_task_simps [simp]:
  "t_state (default_task st p) = st" "t_priority (default_task st p) = p" "wf_task (default_task st p)"
  "roomy (default_task st p)" "has_blocks (default_task st p)" "stored_ds (default_task st p) = []"
  "wake tick (default_task READY p) = default_task READY p" "wake tick (default_task RUNNING p) = default_task RUNNING p"
  by (simp_all add: default_task_def wf_task_def wf_block_def roomy_def has_blocks_def stored_ds_def stored_def
      fresh_block_def zero_task_def DS_SIZE_def RS_SIZE_def wake_def)

lemma tasks_vm_simps [simp]:
  "task_at tasks_vm 0 = default_task RUNNING 5" "task_at tasks_vm (Suc 0) = default_task READY 5"
  "task_at tasks_vm 2 = default_task READY 3" "cur_index tasks_vm = 0" "world tasks_vm = 0" "sp tasks_vm = 2"
  "data_stack tasks_vm = [11, 22]"
  by (simp_all add: tasks_vm_def task_at_def cur_index_def zero_scheduler_def data_stack_def)

lemma wf_tasks_vm [simp]: "wf_vm tasks_vm"
  using wf_sample_vm
  by (simp add: tasks_vm_def wf_vm_def wf_stacks_def wf_mem_def wf_dict_def wf_sched_def zero_scheduler_def
      DS_SIZE_def V4_MAX_TASKS_def list_all_iff)

lemma top_task_two:
  assumes "t_priority (task_at s 0) = 5" and "t_priority (task_at s 1) = 5" and "t_priority (task_at s 2) = 3"
    and "runnable (wake tick (task_at s 0))" and "runnable (wake tick (task_at s 1))"
    and others: "\<And>j. 3 \<le> j \<Longrightarrow> j < 8 \<Longrightarrow> task_at s j = zero_task"
  shows "top_task tick s i \<longleftrightarrow> i = 0 \<or> i = 1"
proof -
  have cases: "j = 0 \<or> j = 1 \<or> j = 2 \<or> (3 \<le> j \<and> j < 8)" if "j < 8" for j :: nat using that by linarith
  have dead: "\<not> runnable (wake tick zero_task)" by (simp add: runnable_def wake_def zero_task_def)
  have low: "t_priority (task_at s j) \<le> 5" if "j < 8" "runnable (wake tick (task_at s j))" for j
    using cases [OF that(1)] that others dead assms(1-3) by auto
  show ?thesis
  proof
    assume i: "top_task tick s i"
    then have "i < 8" "runnable (wake tick (task_at s i))" by (simp_all add: top_task_def)
    moreover have "\<not> t_priority (task_at s i) < 5"
      using i assms(1,4) by (auto simp: top_task_def not_less dest: spec [of _ 0])
    ultimately show "i = 0 \<or> i = 1" using cases [of i] others dead assms(3) by auto
  next
    assume "i = 0 \<or> i = 1"
    then show "top_task tick s i" using low assms(1,2,4,5) by (auto simp: top_task_def)
  qed
qed

lemma others_tasks_vm: "3 \<le> j \<Longrightarrow> j < 8 \<Longrightarrow> task_at tasks_vm j = zero_task"
  by (simp add: tasks_vm_def task_at_def nth_append)

lemma top_tasks_vm: "top_task tick tasks_vm i \<longleftrightarrow> i = 0 \<or> i = 1"
  by (rule top_task_two) (simp_all add: others_tasks_vm runnable_def)

text \<open>The machine after one call of the scheduler, which switches to task 1.\<close>

lemma tasks_vm_switched:
  obtains t where "schedule sample_env tasks_vm = Ret 0 t" "wf_vm t" "cur_index t = 1" "roomy (task_at t 1)"
    "has_blocks (task_at t 1)" "\<And>tick i. top_task tick t i \<longleftrightarrow> i = 0 \<or> i = 1"
proof (rule schedule_outcome [OF wf_tasks_vm, of sample_env 0 1])
  fix a n t assume run: "schedule sample_env tasks_vm = Ret 0 t" and p: "parked (task_at tasks_vm (cur_index tasks_vm)) tasks_vm a"
    and sch: "scheduled 0 a n tasks_vm t"
  have "top_task 0 tasks_vm 1" by (simp add: top_tasks_vm)
  then have "candidate (woken_tasks 0 a tasks_vm) 1" using candidate_top [OF wf_tasks_vm p] by simp
  then have "round_robin (woken_tasks 0 a tasks_vm) 0 = 1"
    using round_robin_spec(2) [of "woken_tasks 0 a tasks_vm" 1 0] by simp
  then have n: "n = 1" using sch by (simp add: scheduled_def Let_def)
  have t: "task_at t j = wake 0 (if j = 0 then a else task_at tasks_vm j)" if "j < 8" "j \<noteq> 1" for j
    using sch n that by (simp add: scheduled_def Let_def task_at_def nth_woken)
  have t1: "task_at t 1 = (default_task READY 5)\<lparr>t_state := RUNNING, exec_count := 1\<rparr>"
    using sch n by (auto simp: scheduled_def Let_def task_at_def [of t] nth_woken)
      (simp add: default_task_def zero_task_def)
  have a: "t_state a = READY" "t_priority a = 5" using p by (simp_all add: parked_def)
  have top: "top_task tick t i \<longleftrightarrow> i = 0 \<or> i = 1" for tick i
    by (rule top_task_two) (use t a t1 others_tasks_vm in \<open>simp_all add: runnable_def t_state_wake wake_def zero_task_def\<close>)
  show thesis
    by (rule that [OF run _ _ _ _ top]) (use sch n t1 in \<open>simp_all add: scheduled_def Let_def\<close>)
qed simp_all

lemma schedule_tasks_vm: "\<exists>t. schedule sample_env tasks_vm = Ret 0 t"
  using schedule_roomy [OF wf_tasks_vm, of sample_env] by auto

theorem scheduler_picks_top_task_witness: "\<exists>t. schedule sample_env tasks_vm = Ret 0 t \<and> cur_index t = 1"
proof -
  obtain t where t: "schedule sample_env tasks_vm = Ret 0 t" using schedule_tasks_vm by blast
  have "top_task 0 tasks_vm 1" by (simp add: top_tasks_vm)
  with scheduler_picks_top_task [OF wf_tasks_vm _ t, of 0 1 1] have "cur_index t = 1" by auto
  with t show ?thesis by blast
qed

text \<open>
  Turns in a row in which a ready task of the highest priority is not chosen. Between two calls of the
  scheduler the tasks may do anything that keeps the machine well-formed and the current task current.
\<close>

inductive passed_over :: "'d env \<Rightarrow> nat \<Rightarrow> nat \<Rightarrow> 'd machine \<Rightarrow> bool" for E i where
  first_turn: "wf_vm s \<Longrightarrow> i < V4_MAX_TASKS \<Longrightarrow> passed_over E i 0 s"
| next_turn: "passed_over E i n s \<Longrightarrow> get_tick_ms E (world s) = (tick, w) \<Longrightarrow> top_task tick s i \<Longrightarrow> schedule E s = Ret r t \<Longrightarrow>
    cur_index t \<noteq> i \<Longrightarrow> wf_vm u \<Longrightarrow> cur_index u = cur_index t \<Longrightarrow> passed_over E i (Suc n) u"

text \<open>How many places the turn is away from task \<open>i\<close>.\<close>

definition turns_left :: "nat \<Rightarrow> nat \<Rightarrow> nat" where
  "turns_left i c = (if c < i then i - c else V4_MAX_TASKS - (c - i))"

lemma turns_left_less:
  assumes wf: "wf_vm s" "cur_index t < 8" and tick: "get_tick_ms E (world s) = (tick, w)" and run: "schedule E s = Ret r t"
    and i: "top_task tick s i" and other: "cur_index t \<noteq> i"
  shows "turns_left i (cur_index t) < turns_left i (cur_index s)"
proof -
  have c: "cur_index s < 8" "i < 8" using wf_vm_cur [OF wf(1)] i by (simp_all add: top_task_def)
  note turn = scheduler_index [OF wf(1) tick run]
  show ?thesis
  proof (cases "cur_index s < i")
    case True
    then show ?thesis using turn [OF i] other by (auto simp: turns_left_def)
  next
    case False
    show ?thesis
    proof (cases "\<exists>j. top_task tick s j \<and> cur_index s < j")
      case True
      then have "cur_index s < cur_index t" using turn by blast
      then show ?thesis using False c wf(2) by (auto simp: turns_left_def V4_MAX_TASKS_def)
    next
      case none: False
      then have "cur_index t < i" using turn [OF i] other by (auto simp: not_less le_less)
      then show ?thesis using False c by (auto simp: turns_left_def V4_MAX_TASKS_def)
    qed
  qed
qed

lemma passed_over_turns: "passed_over E i n s \<Longrightarrow> wf_vm s \<and> n + turns_left i (cur_index s) \<le> V4_MAX_TASKS"
proof (induction rule: passed_over.induct)
  case (first_turn s)
  then show ?case by (auto simp: turns_left_def)
next
  case (next_turn n s tick w r t u)
  then have "turns_left i (cur_index t) < turns_left i (cur_index s)"
    using turns_left_less [of s t E tick w r i] wf_vm_cur [of u] by auto
  then show ?case using next_turn by simp
qed

text \<open>C19: the scheduler is fair among the tasks of the highest priority. A task that is ready and of the highest
  positive priority each time the scheduler is called is passed over fewer times in a row than there are task
  slots (eight): whatever happens between the calls, it is its turn after seven others at the latest.
\<close>
theorem top_task_gets_its_turn:
  assumes "passed_over E i n s"
  shows "n < V4_MAX_TASKS"
proof -
  have "cur_index s < 8" using passed_over_turns [OF assms] wf_vm_cur by blast
  then have "0 < turns_left i (cur_index s)" by (auto simp: turns_left_def V4_MAX_TASKS_def)
  then show ?thesis using passed_over_turns [OF assms] by simp
qed

theorem top_task_gets_its_turn_witness: "\<exists>t. passed_over sample_env 0 1 t \<and> cur_index t = 1 \<and> 1 < V4_MAX_TASKS"
proof -
  obtain t where t: "schedule sample_env tasks_vm = Ret 0 t" "wf_vm t" "cur_index t = 1" using tasks_vm_switched by metis
  have "passed_over sample_env 0 (Suc 0) t"
    by (rule passed_over.next_turn [OF passed_over.first_turn [OF wf_tasks_vm] _ _ t(1)])
      (use t(2,3) top_tasks_vm in \<open>auto simp: V4_MAX_TASKS_def\<close>)
  then show ?thesis using top_task_gets_its_turn [of sample_env 0 1 t] t(3) by auto
qed

text \<open>C20: a switch away from a running task and a later switch straight back bring back both of its stacks,
  if its blocks were allocated and its data stack was not completely full (256 cells count as 0).
\<close>
theorem switch_there_and_back:
  assumes wf: "wf_vm s" and cur: "t_state (task_at s (cur_index s)) = RUNNING" "has_blocks (task_at s (cur_index s))"
    and room: "sp s < DS_SIZE"
    and leave: "schedule E s = Ret r t" "cur_index t \<noteq> cur_index s"
    and return: "schedule E t = Ret r' u" "cur_index u = cur_index s"
    and other: "has_blocks (task_at t (cur_index t))"
  shows "data_stack u = data_stack s \<and> return_stack u = return_stack s"
proof -
  obtain tick w where tick: "get_tick_ms E (world s) = (tick, w)" by (cases "get_tick_ms E (world s)")
  obtain tick' w' where tick': "get_tick_ms E (world t) = (tick', w')" by (cases "get_tick_ms E (world t)")
  have wft: "wf_vm t" by (rule keeps_Ret [OF keeps_schedule [of UNIV E] wf leave(1)]) simp
  obtain a n where "scheduled tick a n s t" by (rule schedule_outcome [OF wf tick]) (use leave(1) in auto)
  then have run: "t_state (task_at t (cur_index t)) = RUNNING"
    using wf by (auto simp: scheduled_def Let_def task_at_def)
  note there = schedule_switch [OF wf tick leave(1) cur leave(2)]
  have "cur_index u \<noteq> cur_index t" using leave(2) return(2) by simp
  from schedule_switch(2) [OF wft tick' return(1) run other this] there(4) return(2)
  have "data_stack u = stored_ds (task_at t (cur_index s))" "return_stack u = stored_rs (task_at t (cur_index s))"
    by simp_all
  with there(1) [OF room] show ?thesis by simp
qed

theorem switch_there_and_back_witness:
  "\<exists>t u. schedule sample_env tasks_vm = Ret 0 t \<and> cur_index t = 1 \<and> schedule sample_env t = Ret 0 u \<and> cur_index u = 0 \<and>
    data_stack u = [11, 22]"
proof -
  obtain t where t: "schedule sample_env tasks_vm = Ret 0 t" "wf_vm t" "cur_index t = 1" "roomy (task_at t 1)"
      "has_blocks (task_at t 1)" and top: "\<And>tick i. top_task tick t i \<longleftrightarrow> i = 0 \<or> i = 1"
    using tasks_vm_switched by metis
  obtain u where u: "schedule sample_env t = Ret 0 u" using schedule_roomy [OF t(2), of sample_env] t(3,4) by auto
  obtain tick w where tick: "get_tick_ms sample_env (world t) = (tick, w)" by (cases "get_tick_ms sample_env (world t)")
  have "cur_index u \<le> 0"
    using scheduler_index [OF t(2) tick u, of 0] top t(3) by auto
  moreover have "has_blocks (task_at t (cur_index t))" using t(5) unfolding t(3) .
  ultimately have "data_stack u = data_stack tasks_vm \<and> return_stack u = return_stack tasks_vm"
    by (intro switch_there_and_back [OF wf_tasks_vm _ _ _ t(1) _ u]) (simp_all add: DS_SIZE_def t(3))
  then show ?thesis using t u \<open>cur_index u \<le> 0\<close> by auto
qed

text \<open>C21: a task switch does not switch code. In a run of a word, \<open>YIELD\<close> to another task goes on with the next
  instruction of the same word: on the other task's stacks, but the word that task was spawned with is not
  looked at. (The C++ comment says that tasks run from their word's entry; nothing starts them there.)
\<close>
theorem yield_keeps_running_same_word:
  assumes wf: "wf_vm s" and cur: "t_state (task_at s (cur_index s)) = RUNNING" "has_blocks (task_at s (cur_index s))"
    and switch: "schedule E s = Ret r t" "cur_index t \<noteq> cur_index s" "has_blocks (task_at s (cur_index t))"
    and code: "enable_tasks E" "int ip < len" "ip < length bc" "bc ! ip = op_byte Op_TASK_YIELD"
  shows "exec_loop (Suc fuel) E bc len ip s = exec_loop fuel E bc len (ip + 1) t \<and>
    data_stack t = stored_ds (task_at s (cur_index t))"
proof
  have "exec_step E fuel run bc len ip s = Ret (Continue (ip + 1)) t" for run
    using code switch(1)
    by (simp add: exec_step_def byte_at_def with_tasks_def continue_at_def exec_TASK_YIELD_def task_yield_def bnd_def del: op_byte.simps)
  then show "exec_loop (Suc fuel) E bc len ip s = exec_loop fuel E bc len (ip + 1) t"
    using code(2) by (simp add: exec_loop_Suc bnd_def)
  obtain tick w where tick: "get_tick_ms E (world s) = (tick, w)" by (cases "get_tick_ms E (world s)")
  show "data_stack t = stored_ds (task_at s (cur_index t))"
    using schedule_switch(2) [OF wf tick switch(1) cur switch(2,3)] by simp
qed

theorem yield_keeps_running_same_word_witness:
  "\<exists>t. exec_loop 9 sample_env [0x93, 0x51] 2 0 tasks_vm = exec_loop 8 sample_env [0x93, 0x51] 2 1 t \<and>
    cur_index t = 1 \<and> data_stack tasks_vm = [11, 22] \<and> data_stack t = []"
proof -
  obtain t where t: "schedule sample_env tasks_vm = Ret 0 t" "cur_index t = 1"
    using tasks_vm_switched by metis
  then show ?thesis
    using yield_keeps_running_same_word [OF wf_tasks_vm _ _ t(1), of 0 2 "[0x93, 0x51]" 8] by auto
qed

section \<open>Reachable states\<close>

text \<open>C8: in every state that any sequence of task operations, interrupts and other instructions reaches from an
  initialised machine, the machine is well-formed (so the message ring's indices, the current index and
  every task's stored depths are in range) and no task but the current one is running.
\<close>
theorem reachable_invariant:
  assumes "wf_vm s" and "task_init ms s = Ret r s0" and "task_steps E s0 t"
  shows "wf_vm t \<and> (\<forall>i < V4_MAX_TASKS. t_state (task_at t i) = RUNNING \<longrightarrow> i = cur_index t)"
  using task_steps_inv [OF assms(3) init_inv [OF assms(1,2)]]
  by (simp add: task_inv_def one_running_def V4_MAX_TASKS_def)

text \<open>A machine with one word.\<close>

definition word_vm :: "nat machine" where
  "word_vm = sample_vm\<lparr>words := \<lparr>w_name = NullName, w_code = Some [0x51], w_code_len = 1\<rparr> # replicate 255 null_word, word_count := 1\<rparr>"

lemma wf_word_vm: "wf_vm word_vm"
  using wf_sample_vm by (simp add: word_vm_def wf_vm_def wf_stacks_def wf_mem_def wf_dict_def wf_word_def V4_MAX_WORDS_def)

lemma word_vm_simps [simp]: "word_count word_vm = 1" "task_at word_vm 0 = zero_task"
  by (simp_all add: word_vm_def task_at_def zero_scheduler_def V4_MAX_TASKS_def)

theorem reachable_invariant_witness:
  "\<exists>s0 t u. task_init 0 word_vm = Ret 0 s0 \<and> task_spawn sample_env 0 5 0 0 s0 = Ret 0 t \<and> task_yield sample_env t = Ret 0 u \<and>
    wf_vm u \<and> (\<forall>i < V4_MAX_TASKS. t_state (task_at u i) = RUNNING \<longrightarrow> i = cur_index u)"
proof -
  obtain s0 where s0: "task_init 0 word_vm = Ret 0 s0" by (simp add: task_init_def)
  then have z: "scheduler s0 = zero_scheduler\<lparr>time_slice_ms := 10\<rparr>" "word_count s0 = 1" by (auto simp: task_init_def)
  then have "free_slot s0 = Some 0"
    by (simp add: free_slot_def find_upt_Some_iff task_at_def zero_scheduler_def V4_MAX_TASKS_def zero_task_def)
  then obtain t where t: "task_spawn sample_env 0 5 0 0 s0 = Ret 0 t"
      "scheduler t = (scheduler s0)\<lparr>tasks := (tasks (scheduler s0))[0 := spawned 0 5 256 64], task_count := 1\<rparr>"
    using spawn_run [of 0 s0 0 256 0 64 0 sample_env True "world s0" True "world s0" 5] z
    by (simp add: Let_def set_task_def zero_scheduler_def)
  have step: "task_steps sample_env s0 t" using task_step.spawn [OF t(1)] by simp
  have wf: "wf_vm t" using reachable_invariant [OF wf_word_vm s0 step] by simp
  have "roomy (task_at t (cur_index t))"
    using t(2) z by (simp add: task_at_def cur_index_def zero_scheduler_def V4_MAX_TASKS_def roomy_def spawned_def fresh_block_def
        DS_SIZE_def RS_SIZE_def)
  from schedule_roomy [OF wf this, of sample_env] obtain u where "schedule sample_env t = Ret 0 u" by blast
  then have u: "task_yield sample_env t = Ret 0 u" by (simp add: task_yield_def)
  have "task_steps sample_env s0 u" using step task_step.yield [OF u] by simp
  with reachable_invariant [OF wf_word_vm s0] s0 t(1) u show ?thesis by blast
qed

section \<open>Leaving the processor\<close>

text \<open>What a task is after another was chosen, when it was not marked as running before.\<close>

lemma schedule_not_running:
  assumes wf: "wf_vm s" and tick: "get_tick_ms E (world s) = (tick, w)" and run: "schedule E s = Ret r t"
    and x: "t_state (task_at s (cur_index s)) \<noteq> RUNNING"
  shows "i < 8 \<Longrightarrow> i \<noteq> cur_index t \<Longrightarrow> task_at t i = wake tick (task_at s i)"
    and "(\<And>i. \<not> top_task tick s i) \<Longrightarrow> cur_index t = cur_index s \<and>
      (\<not> runnable (wake tick (task_at s (cur_index s))) \<longrightarrow>
        t_state (task_at t (cur_index s)) = RUNNING \<and> ds_base (task_at t (cur_index s)) = ds_base (task_at s (cur_index s)) \<and>
        sp t = unat (ds_depth (task_at s (cur_index s))))"
proof -
  obtain a n where p: "parked (task_at s (cur_index s)) s a" and sch: "scheduled tick a n s t"
    by (rule schedule_outcome [OF wf tick]) (use run in auto)
  have a: "a = task_at s (cur_index s)" using p x by (simp add: parked_def)
  have at: "woken_tasks tick a s ! i = wake tick (task_at s i)" if "i < 8" for i
    using that by (simp add: nth_woken [OF wf] a)
  have n: "cur_index t = n" "n < 8" "n = round_robin (woken_tasks tick a s) (cur_index s)"
    using sch by (simp_all add: scheduled_def Let_def)
  show "task_at t i = wake tick (task_at s i)" if "i < 8" "i \<noteq> cur_index t"
    using that sch at by (simp add: scheduled_def Let_def task_at_def [of t])
  show "cur_index t = cur_index s \<and>
      (\<not> runnable (wake tick (task_at s (cur_index s))) \<longrightarrow>
        t_state (task_at t (cur_index s)) = RUNNING \<and> ds_base (task_at t (cur_index s)) = ds_base (task_at s (cur_index s)) \<and>
        sp t = unat (ds_depth (task_at s (cur_index s))))"
    if "\<And>i. \<not> top_task tick s i"
  proof -
    have c: "n = cur_index s" using n(3) that candidate_top [OF wf p] by (simp add: round_robin_none)
    then show ?thesis
      using sch n at wf by (auto simp: scheduled_def Let_def task_at_def [of t] wake_def)
  qed
qed

text \<open>C33: a sleep marks the task blocked before it calls the scheduler, which saves the stacks of running
  tasks only. So when another task takes over, the sleeper's stored stack is what an earlier switch left
  there, whatever its data stack was when it went to sleep: that data stack is lost.
\<close>
theorem sleep_does_not_save_stack:
  assumes wf: "wf_vm s" and run: "task_sleep E ms s = Ret r t" and switch: "cur_index t \<noteq> cur_index s"
  shows "stored_ds (task_at t (cur_index s)) = stored_ds (task_at s (cur_index s)) \<and>
    stored_rs (task_at t (cur_index s)) = stored_rs (task_at s (cur_index s))"
proof -
  obtain tick w where tick: "get_tick_ms E (world s) = (tick, w)" by (cases "get_tick_ms E (world s)")
  let ?x = "(task_at s (cur_index s))\<lparr>sleep_until_tick := tick + ms, t_state := BLOCKED\<rparr>"
  have x: "wf_task ?x" using wf by (intro wf_task_dead wf_vm_task) simp_all
  let ?l = "left_current ?x (task_count (scheduler s)) w s"
  obtain r' where sch: "schedule E ?l = Ret r' t"
    using run unfolding task_sleep_eq [OF tick] bnd_eq_Ret_iff by auto
  have one: "wf_vm ?l" "cur_index ?l = cur_index s" "task_at ?l (cur_index s) = ?x"
    using left_current_wf [OF wf x] by simp_all
  obtain tick' w' where "get_tick_ms E (world ?l) = (tick', w')" by (cases "get_tick_ms E (world ?l)")
  from schedule_not_running(1) [OF one(1) this sch, of "cur_index s"] one switch wf
  have "task_at t (cur_index s) = wake tick' ?x" by simp
  then show ?thesis by (simp add: stored_ds_def stored_rs_def wake_def)
qed

lemma sleep_tasks_vm:
  obtains t where "task_sleep sample_env 100 tasks_vm = Ret 0 t" "cur_index t \<noteq> 0"
proof -
  let ?x = "(task_at tasks_vm (cur_index tasks_vm))\<lparr>sleep_until_tick := 0 + 100, t_state := BLOCKED\<rparr>"
  let ?l = "left_current ?x (task_count (scheduler tasks_vm)) 1 tasks_vm"
  have tick: "get_tick_ms sample_env (world tasks_vm) = (0, 1)" by simp
  have x: "wf_task ?x" by (intro wf_task_dead wf_vm_task) simp_all
  note l = left_current_wf [OF wf_tasks_vm x, where c = "task_count (scheduler tasks_vm)" and w = 1]
  have "roomy (task_at ?l (cur_index ?l))"
    using l(2,3) default_task_simps(4) [of RUNNING 5] by (simp add: roomy_def)
  then obtain t where t: "schedule sample_env ?l = Ret 0 t" using schedule_roomy [OF l(1)] by blast
  have 0: "task_at ?l 0 = ?x" using l(3) by simp
  have 1: "task_at ?l j = task_at tasks_vm j" if "j \<noteq> 0" for j using l(6) [of j] that by simp
  have x0: "\<not> runnable (wake 1 ?x)" by (simp add: wake_def runnable_def word_le_def)
  have "top_task 1 ?l 1"
  proof -
    have "t_priority (task_at ?l j) \<le> 5" if j: "j < 8" "runnable (wake 1 (task_at ?l j))" for j
    proof -
      have "j \<noteq> 0" using j(2) 0 x0 by metis
      then have "runnable (wake 1 (task_at tasks_vm j))" using 1 j(2) by simp
      moreover have "top_task 1 tasks_vm 1" by (simp add: top_tasks_vm)
      ultimately show ?thesis using \<open>j \<noteq> 0\<close> 1 j(1) by (auto simp: top_task_def)
    qed
    then show ?thesis using 1 [of 1] by (simp add: top_task_def runnable_def)
  qed
  from scheduler_index [OF l(1) _ t this, of 2] have "cur_index t \<noteq> 0" using l(2,4) by auto
  moreover have "task_sleep sample_env 100 tasks_vm = Ret 0 t"
    using t by (simp add: task_sleep_eq [OF tick])
  ultimately show ?thesis using that by blast
qed

theorem sleep_does_not_save_stack_witness:
  "\<exists>t. task_sleep sample_env 100 tasks_vm = Ret 0 t \<and> data_stack tasks_vm = [11, 22] \<and> stored_ds (task_at t 0) = []"
proof -
  obtain t where t: "task_sleep sample_env 100 tasks_vm = Ret 0 t" "cur_index t \<noteq> 0" by (rule sleep_tasks_vm)
  then have "cur_index t \<noteq> cur_index tasks_vm" by simp
  from sleep_does_not_save_stack [OF wf_tasks_vm t(1) this] t(1) show ?thesis by simp
qed

text \<open>C34: when the last task exits, the scheduler finds nobody to run, keeps the current index and marks that
  task running again: the task that was just counted out and lost its stacks is alive once more.
\<close>
theorem exit_revives_last_task:
  assumes wf: "wf_vm s" and run: "task_exit E s = Ret r t"
    and last: "\<And>i. i < V4_MAX_TASKS \<Longrightarrow> i \<noteq> cur_index s \<Longrightarrow> t_state (task_at s i) = DEAD"
  shows "cur_index t = cur_index s \<and> t_state (task_at t (cur_index s)) = RUNNING \<and>
    ds_base (task_at t (cur_index s)) = None \<and> task_count (scheduler t) = task_count (scheduler s) - 1"
proof -
  let ?x = "(task_at s (cur_index s))\<lparr>ds_base := None, rs_base := None, t_state := DEAD\<rparr>"
  let ?l = "left_current ?x (task_count (scheduler s) - 1) (world s) s"
  have x: "wf_task ?x" using wf by (intro wf_task_dead wf_vm_task) simp_all
  note l = left_current_wf [OF wf x, where c = "task_count (scheduler s) - 1" and w = "world s"]
  obtain r' where sch: "schedule E ?l = Ret r' t"
    using run unfolding task_exit_eq bnd_eq_Ret_iff by auto
  obtain tick w where tick: "get_tick_ms E (world ?l) = (tick, w)" by (cases "get_tick_ms E (world ?l)")
  have dead: "t_state (task_at ?l i) = DEAD" if "i < 8" for i
    using last [of i] l(3,6) that by (cases "i = cur_index s") (simp_all add: V4_MAX_TASKS_def)
  then have "\<not> top_task tick ?l i" for i by (auto simp: top_task_def runnable_def wake_def)
  from schedule_not_running(2) [OF l(1) tick sch _ this] l(2,3) dead wf
  show ?thesis using schedule_count [OF sch] l(5) by (simp add: runnable_def wake_def)
qed

theorem exit_revives_last_task_witness:
  "\<exists>t. task_exit sample_env (sample_vm\<lparr>scheduler := zero_scheduler\<lparr>tasks := default_task RUNNING 1 # replicate 7 zero_task,
      task_count := 1\<rparr>\<rparr>) = Ret 0 t \<and> t_state (task_at t 0) = RUNNING \<and> task_count (scheduler t) = 0"
proof -
  define s where "s = sample_vm\<lparr>scheduler := zero_scheduler\<lparr>tasks := default_task RUNNING 1 # replicate 7 zero_task, task_count := 1\<rparr>\<rparr>"
  have wf: "wf_vm s"
    unfolding s_def by (rule wf_vm_replace [OF wf_sample_vm]) (simp add: wf_sched_def zero_scheduler_def V4_MAX_TASKS_def list_all_iff)
  have c: "cur_index s = 0" "task_count (scheduler s) = 1" by (simp_all add: s_def cur_index_def zero_scheduler_def)
  have last: "t_state (task_at s i) = DEAD" if "i < V4_MAX_TASKS" "i \<noteq> cur_index s" for i
    using that by (simp add: s_def task_at_def cur_index_def zero_scheduler_def V4_MAX_TASKS_def nth_Cons' zero_task_def)
  let ?x = "(task_at s (cur_index s))\<lparr>ds_base := None, rs_base := None, t_state := DEAD\<rparr>"
  have x: "wf_task ?x" using wf by (intro wf_task_dead wf_vm_task) simp_all
  note l = left_current_wf [OF wf x, where c = "task_count (scheduler s) - 1" and w = "world s"]
  have "roomy ?x" by (simp add: roomy_def)
  then obtain t where "schedule sample_env (left_current ?x (task_count (scheduler s) - 1) (world s) s) = Ret 0 t"
    using schedule_roomy [OF l(1), of sample_env] l(2,3) by auto
  then have t: "task_exit sample_env s = Ret 0 t" unfolding task_exit_eq by simp
  show ?thesis
    unfolding s_def [symmetric] using exit_revives_last_task [OF wf t last] t c by auto
qed

section \<open>Spawning\<close>

text \<open>C22: a spawn with a valid word index takes the first dead slot, or reports \<open>TaskLimit\<close> when there is none.
  If both stacks are granted the task is ready to start at its word with empty stacks of the wanted sizes
  (256 and 64 for 0), the count goes up and no other task changes; otherwise the code is \<open>NoMemory\<close> and
  every task keeps its state.
\<close>
theorem spawn_outcome:
  assumes wf: "wf_vm s" and w: "uint w < word_count s"
    and d: "d = (if dsz = 0 then 256 else dsz)" and k: "k = (if rsz = 0 then 64 else rsz)"
    and m: "malloc_ok E (unat d * 4) (world s) = (ok1, w1)" "malloc_ok E (unat k * 4) w1 = (ok2, w2)"
  shows "if \<forall>i < 8. t_state (task_at s i) \<noteq> DEAD then task_spawn E w p dsz rsz s = Ret (V4_ERR TaskLimit) s
    else \<exists>i t. i < 8 \<and> t_state (task_at s i) = DEAD \<and> (\<forall>j < i. t_state (task_at s j) \<noteq> DEAD) \<and>
      (\<forall>j < 8. j \<noteq> i \<longrightarrow> task_at t j = task_at s j) \<and> wf_vm t \<and>
      (if ok1 \<and> ok2
       then task_spawn E w p dsz rsz s = Ret (int i) t \<and> t_state (task_at t i) = READY \<and> t_word_idx (task_at t i) = w \<and>
         t_priority (task_at t i) = p \<and> stored_ds (task_at t i) = [] \<and> stored_rs (task_at t i) = [] \<and>
         map_option cap (ds_base (task_at t i)) = Some (unat d) \<and> map_option cap (rs_base (task_at t i)) = Some (unat k) \<and>
         task_count (scheduler t) = task_count (scheduler s) + 1
       else task_spawn E w p dsz rsz s = Ret (V4_ERR NoMemory) t \<and> t_state (task_at t i) = DEAD \<and>
         task_count (scheduler t) = task_count (scheduler s))"
proof (cases "free_slot s")
  case None
  then have "\<forall>i < 8. t_state (task_at s i) \<noteq> DEAD" by (auto simp: free_slot_def find_upt_None_iff V4_MAX_TASKS_def)
  moreover have "task_spawn E w p dsz rsz s = Ret (V4_ERR TaskLimit) s"
    using None w by (simp add: task_spawn_def del: V4_ERR.simps)
  ultimately show ?thesis by simp
next
  case (Some i)
  then have i: "i < 8" "t_state (task_at s i) = DEAD" "\<forall>j < i. t_state (task_at s j) \<noteq> DEAD"
    by (auto simp: free_slot_def find_upt_Some_iff V4_MAX_TASKS_def)
  define x where "x = (if ok1 \<and> ok2 then spawned w p d k else (task_at s i)\<lparr>ds_base := None, rs_base := None\<rparr>)"
  define c where "c = (if ok1 \<and> ok2 then task_count (scheduler s) + 1 else task_count (scheduler s))"
  define s' where "s' = set_task i x (s\<lparr>world := w2\<rparr>)"
  define t where "t = (if ok1 \<and> ok2 then s'\<lparr>scheduler := (scheduler s')\<lparr>task_count := c\<rparr>\<rparr> else s')"
  have run: "task_spawn E w p dsz rsz s = Ret (if ok1 \<and> ok2 then int i else V4_ERR NoMemory) t"
  proof (cases "ok1 \<and> ok2")
    case True
    then show ?thesis
      unfolding spawn_run [OF w Some d k m] Let_def t_def s'_def x_def c_def if_P [OF True]
      by (simp add: set_task_def del: V4_ERR.simps)
  next
    case False
    show ?thesis
      unfolding spawn_run [OF w Some d k m] t_def s'_def x_def if_not_P [OF False] by (rule refl)
  qed
  have at_t: "task_at t j = (if j = i then x else task_at s j)" for j
    using i(1) by (simp add: t_def s'_def set_task_def task_at_def wf_tasks_length [OF wf])
  have x: "task_at t i = x" and others: "\<forall>j < 8. j \<noteq> i \<longrightarrow> task_at t j = task_at s j"
    by (simp_all add: at_t)
  have count: "task_count (scheduler t) = c" by (simp add: t_def s'_def c_def set_task_def)
  have wf': "wf_vm t" by (rule keeps_Ret [OF keeps_task_spawn [of UNIV E] wf run])
  have some: "\<not> (\<forall>i < 8. t_state (task_at s i) \<noteq> DEAD)" using i by blast
  have granted: "if ok1 \<and> ok2
       then task_spawn E w p dsz rsz s = Ret (int i) t \<and> t_state (task_at t i) = READY \<and> t_word_idx (task_at t i) = w \<and>
         t_priority (task_at t i) = p \<and> stored_ds (task_at t i) = [] \<and> stored_rs (task_at t i) = [] \<and>
         map_option cap (ds_base (task_at t i)) = Some (unat d) \<and> map_option cap (rs_base (task_at t i)) = Some (unat k) \<and>
         task_count (scheduler t) = task_count (scheduler s) + 1
       else task_spawn E w p dsz rsz s = Ret (V4_ERR NoMemory) t \<and> t_state (task_at t i) = DEAD \<and>
         task_count (scheduler t) = task_count (scheduler s)"
    unfolding x run count
    by (simp add: x_def c_def i(2) spawned_def stored_ds_def stored_rs_def stored_def fresh_block_def del: V4_ERR.simps)
  show ?thesis
    unfolding if_not_P [OF some] by (intro exI [of _ i] exI [of _ t] conjI i others wf' granted)
qed

theorem spawn_outcome_witness:
  "\<exists>t. task_spawn sample_env 0 3 0 0 word_vm = Ret 0 t \<and> t_state (task_at t 0) = READY \<and> t_priority (task_at t 0) = 3"
proof -
  let ?s = word_vm
  have w: "uint (0 :: u16) < word_count ?s" by simp
  have some: "\<not> (\<forall>i < 8. t_state (task_at ?s i) \<noteq> DEAD)" by (auto simp: zero_task_def intro!: exI [of _ 0])
  have m: "malloc_ok sample_env (unat 256 * 4) (world ?s) = (True, world ?s)"
    "malloc_ok sample_env (unat 64 * 4) (world ?s) = (True, world ?s)" by simp_all
  obtain i t where i: "\<forall>j < i. t_state (task_at ?s j) \<noteq> DEAD"
      and t: "task_spawn sample_env 0 3 0 0 ?s = Ret (int i) t" "t_state (task_at t i) = READY" "t_priority (task_at t i) = 3"
    using spawn_outcome [OF wf_word_vm w _ _ m, of 0 0 3] unfolding if_not_P [OF some] by auto
  have "i = 0" using i by (cases i) (auto simp: zero_task_def)
  with t show ?thesis by auto
qed

section \<open>Critical sections\<close>

primrec enters :: "nat \<Rightarrow> 'd env \<Rightarrow> ('d machine, v4_err) act" where
  "enters 0 E = Ret (V4_ERR OK)"
| "enters (Suc n) E = bnd (enters n E) (\<lambda>_. task_critical_enter E)"

lemma enters_nesting:
  "critical_nesting (scheduler s) = 0 \<Longrightarrow> \<exists>t. enters n E s = Ret (V4_ERR OK) t \<and> critical_nesting (scheduler t) = word_of_nat n"
proof (induction n)
  case (Suc n)
  then obtain t where "enters n E s = Ret (V4_ERR OK) t" "critical_nesting (scheduler t) = word_of_nat n" by auto
  then show ?case by (simp add: task_critical_enter_def add.commute)
qed simp

text \<open>C36: inside critical sections an interrupt does not switch tasks: the scheduler called from it returns at
  once and changes nothing. This holds for a nesting depth up to 255 only: the counter is an 8-bit one, and
  at depth 256 it is 0 again.
\<close>
theorem interrupt_in_critical_section:
  assumes "critical_nesting (scheduler s) = 0"
  shows "\<exists>t. enters n E s = Ret (V4_ERR OK) t \<and> critical_nesting (scheduler t) = word_of_nat n \<and>
    (if n mod 256 \<noteq> 0 then vm_schedule_from_isr E (Some t) = Ret (V4_ERR OK) (Some t)
     else vm_schedule_from_isr E (Some t) =
       vm_schedule E (Some (t\<lparr>scheduler := (scheduler t)\<lparr>preemptions := preemptions (scheduler t) + 1\<rparr>\<rparr>)))"
proof -
  obtain t where t: "enters n E s = Ret (V4_ERR OK) t" "critical_nesting (scheduler t) = word_of_nat n"
    using enters_nesting [OF assms] by blast
  have "critical_nesting (scheduler t) > 0 \<longleftrightarrow> n mod 256 \<noteq> 0"
    using t(2) by (simp add: word_gt_0 word_of_nat_eq_0_iff dvd_eq_mod_eq_0)
  then have "if n mod 256 \<noteq> 0 then vm_schedule_from_isr E (Some t) = Ret (V4_ERR OK) (Some t)
     else vm_schedule_from_isr E (Some t) =
       vm_schedule E (Some (t\<lparr>scheduler := (scheduler t)\<lparr>preemptions := preemptions (scheduler t) + 1\<rparr>\<rparr>))"
    by (auto simp: vm_schedule_from_isr_def vm_schedule_def null_checked_def)
  with t show ?thesis by blast
qed

theorem interrupt_in_critical_section_witness:
  "\<exists>t. enters 2 sample_env sample_vm = Ret 0 t \<and> vm_schedule_from_isr sample_env (Some t) = Ret 0 (Some t)"
  using interrupt_in_critical_section [of sample_vm 2 sample_env] by (auto simp: zero_scheduler_def)

primrec leaves :: "nat \<Rightarrow> 'd env \<Rightarrow> ('d machine, v4_err) act" where
  "leaves 0 E = Ret (V4_ERR OK)"
| "leaves (Suc n) E = bnd (task_critical_exit E) (\<lambda>_. leaves n E)"

lemma enters_run:
  "enters n E s = Ret (V4_ERR OK) (s\<lparr>world := (platform_critical_enter E ^^ n) (world s),
    scheduler := (scheduler s)\<lparr>critical_nesting := critical_nesting (scheduler s) + word_of_nat n\<rparr>\<rparr>)"
  by (induction n) (simp_all add: task_critical_enter_def algebra_simps)

lemma leaves_run:
  "n < 256 \<Longrightarrow> critical_nesting (scheduler s) = word_of_nat n \<Longrightarrow>
    leaves n E s = Ret (V4_ERR OK) (s\<lparr>world := (if n = 0 then world s else platform_critical_exit E (world s)),
      scheduler := (scheduler s)\<lparr>critical_nesting := 0\<rparr>\<rparr>)"
proof (induction n arbitrary: s)
  case (Suc n)
  have "unat (word_of_nat (Suc n) :: u8) = Suc n" using Suc.prems(1) by (simp add: unat_of_nat del: of_nat_Suc)
  then have pos: "critical_nesting (scheduler s) > 0" unfolding Suc.prems(2) by (simp add: word_gt_0 unat_eq_zero del: of_nat_Suc) auto
  have zero: "critical_nesting (scheduler s) - 1 = 0 \<longleftrightarrow> n = 0"
    unfolding Suc.prems(2) using Suc.prems(1) by (simp add: word_of_nat_eq_0_iff dvd_eq_mod_eq_0)
  let ?t = "s\<lparr>scheduler := (scheduler s)\<lparr>critical_nesting := critical_nesting (scheduler s) - 1\<rparr>,
    world := (if n = 0 then platform_critical_exit E (world s) else world s)\<rparr>"
  have "task_critical_exit E s = Ret (V4_ERR OK) ?t"
    using pos zero by (simp add: task_critical_exit_def Let_def)
  moreover have "critical_nesting (scheduler ?t) = word_of_nat n" using Suc.prems(2) by simp
  ultimately show ?case using Suc.IH [of ?t] Suc.prems(1) by simp
qed simp

lemma sections_run:
  assumes "critical_nesting (scheduler s) = 0" and "0 < n" and "n < 256"
  shows "bnd (enters n E) (\<lambda>_. leaves n E) s = Ret (V4_ERR OK)
    (s\<lparr>world := platform_critical_exit E ((platform_critical_enter E ^^ n) (world s))\<rparr>)"
proof -
  let ?w = "(platform_critical_enter E ^^ n) (world s)"
  let ?t = "s\<lparr>world := ?w, scheduler := (scheduler s)\<lparr>critical_nesting := word_of_nat n\<rparr>\<rparr>"
  have unset: "(scheduler s)\<lparr>critical_nesting := 0\<rparr> = scheduler s" using assms(1) by (cases "scheduler s") simp
  have same: "s\<lparr>world := w, scheduler := scheduler s\<rparr> = s\<lparr>world := w\<rparr>" for w by (cases s) simp
  have "enters n E s = Ret (V4_ERR OK) ?t" unfolding enters_run assms(1) by simp
  moreover have "leaves n E ?t = Ret (V4_ERR OK) (s\<lparr>world := platform_critical_exit E ?w\<rparr>)"
    using leaves_run [of n ?t E] assms(2,3) by (simp add: unset same del: V4_ERR.simps)
  ultimately show ?thesis by (rule bnd_Ret [THEN trans])
qed

text \<open>C35: critical sections nest: \<open>n\<close> enters and \<open>n\<close> exits, up to 255, return to depth 0. The platform's enter was
  called \<open>n\<close> times by then and its exit once, so a platform that counts its calls, as the platform API asks
  for, is still inside \<open>n - 1\<close> sections.
\<close>
theorem critical_sections_nest:
  assumes "critical_nesting (scheduler s) = 0" and "0 < n" and "n < 256"
  shows "bnd (enters n E) (\<lambda>_. leaves n E) s = Ret (V4_ERR OK)
    (s\<lparr>world := platform_critical_exit E ((platform_critical_enter E ^^ n) (world s))\<rparr>)"
  by (rule sections_run [OF assms])

definition mock_vm :: "mock_platform machine" where
  "mock_vm = zero_vm \<lparr>mock_tick_ms = 0, mock_nesting = 0\<rparr>"

theorem critical_sections_nest_witness:
  "bnd (enters 3 mock_env) (\<lambda>_. leaves 3 mock_env) mock_vm = Ret 0 (mock_vm\<lparr>world := \<lparr>mock_tick_ms = 0, mock_nesting = 2\<rparr>\<rparr>)"
  using critical_sections_nest [of mock_vm 3 mock_env]
  by (simp add: mock_env_def mock_vm_def zero_vm_def zero_scheduler_def eval_nat_numeral mock_critical_enter_def mock_critical_exit_def)

text \<open>
  On the repository's test platform, which is such a platform: two nested sections leave the interrupts
  masked after the last exit.
\<close>
theorem nested_sections_stay_masked:
  assumes "critical_nesting (scheduler s) = 0" and "1 < n" and "n < 256" and "mock_valid (world s)"
  shows "\<exists>t. bnd (enters n mock_env) (\<lambda>_. leaves n mock_env) s = Ret (V4_ERR OK) t \<and> mock_masked (world t)"
proof -
  obtain m where m: "n = Suc m" "0 < m" using assms(2) by (cases n) auto
  then show ?thesis
    using sections_run [OF assms(1) _ assms(3), of mock_env] platform.leave_enters [OF assms(4), of m]
      platform.masked_enters [OF assms(4), of m]
    by (simp add: mock_env_def del: V4_ERR.simps)
qed

end
