(* ===== verification/V4_Hal.thy ===== *)
theory V4_Hal
  imports V4_Prelude
begin

text \<open>
  The bridge of \<^verbatim>\<open>src/hal_wrapper.cpp\<close> from the port-numbered \<open>v4_hal_*\<close> API of \<^verbatim>\<open>include/v4/v4_hal.h\<close> to the
  handle-based \<open>hal_*\<close> API of \<^verbatim>\<open>include/v4/hal.h\<close>. The driver behind \<^verbatim>\<open>hal.h\<close> is a parameter; the wrapper's own
  state is the static table of UART handles. The locale \<open>uart_driver\<close> states what \<^verbatim>\<open>hal.h\<close> documents about
  opening and closing; its lemma is that the table always knows the ports the driver has open, and has no others
  unless a system reset was made with a port open.
\<close>

section \<open>Types of the driver\<close>

datatype Hal_Err = HAL_OK | HAL_PARAM | HAL_BUSY | HAL_TIMEOUT | HAL_NODEV | HAL_NOMEM | HAL_NOTSUP | HAL_IO

primrec HAL_ERR :: "Hal_Err \<Rightarrow> int" where
  "HAL_ERR HAL_OK = 0"
| "HAL_ERR HAL_PARAM = - 1"
| "HAL_ERR HAL_BUSY = - 2"
| "HAL_ERR HAL_TIMEOUT = - 3"
| "HAL_ERR HAL_NODEV = - 4"
| "HAL_ERR HAL_NOMEM = - 5"
| "HAL_ERR HAL_NOTSUP = - 6"
| "HAL_ERR HAL_IO = - 7"

datatype hal_gpio_mode_t =
  HAL_GPIO_INPUT | HAL_GPIO_INPUT_PULLUP | HAL_GPIO_INPUT_PULLDOWN | HAL_GPIO_OUTPUT | HAL_GPIO_OUTPUT_OD

datatype hal_gpio_value_t = HAL_GPIO_LOW | HAL_GPIO_HIGH

datatype v4_hal_gpio_mode =
  V4_HAL_GPIO_MODE_INPUT | V4_HAL_GPIO_MODE_OUTPUT | V4_HAL_GPIO_MODE_INPUT_PULLUP | V4_HAL_GPIO_MODE_INPUT_PULLDOWN

primrec v4_gpio_mode_code :: "v4_hal_gpio_mode \<Rightarrow> int" where
  "v4_gpio_mode_code V4_HAL_GPIO_MODE_INPUT = 0"
| "v4_gpio_mode_code V4_HAL_GPIO_MODE_OUTPUT = 1"
| "v4_gpio_mode_code V4_HAL_GPIO_MODE_INPUT_PULLUP = 2"
| "v4_gpio_mode_code V4_HAL_GPIO_MODE_INPUT_PULLDOWN = 3"

record hal_uart_config_t =
  baudrate :: int
  data_bits :: int
  stop_bits :: int
  parity :: int

text \<open>
  The driver: each function acts on a state of type \<open>'w\<close>, and a handle is of type \<open>'h\<close> (null is
  \<^term>\<open>None\<close>). What a function stores through an output pointer is a further result: \<^term>\<open>None\<close> or
  the empty list when it stores nothing. A write gets the bytes of its buffer.
\<close>

record ('w, 'h) hal =
  hal_init :: "'w \<Rightarrow> int \<times> 'w"
  hal_deinit :: "'w \<Rightarrow> 'w"
  hal_gpio_mode :: "int \<Rightarrow> hal_gpio_mode_t \<Rightarrow> 'w \<Rightarrow> int \<times> 'w"
  hal_gpio_write :: "int \<Rightarrow> hal_gpio_value_t \<Rightarrow> 'w \<Rightarrow> int \<times> 'w"
  hal_gpio_read :: "int \<Rightarrow> 'w \<Rightarrow> (int \<times> hal_gpio_value_t option) \<times> 'w"
  hal_uart_open :: "int \<Rightarrow> hal_uart_config_t \<Rightarrow> 'w \<Rightarrow> 'h option \<times> 'w"
  hal_uart_close :: "'h \<Rightarrow> 'w \<Rightarrow> int \<times> 'w"
  hal_uart_write :: "'h \<Rightarrow> u8 list \<Rightarrow> 'w \<Rightarrow> int \<times> 'w"
  hal_uart_read :: "'h \<Rightarrow> nat \<Rightarrow> 'w \<Rightarrow> (int \<times> u8 list) \<times> 'w"
  hal_millis :: "'w \<Rightarrow> u32 \<times> 'w"
  hal_micros :: "'w \<Rightarrow> 64 word \<times> 'w"
  hal_delay_ms :: "u32 \<Rightarrow> 'w \<Rightarrow> 'w"
  hal_delay_us :: "u32 \<Rightarrow> 'w \<Rightarrow> 'w"
  hal_console_write :: "u8 list \<Rightarrow> 'w \<Rightarrow> int \<times> 'w"
  hal_console_read :: "nat \<Rightarrow> 'w \<Rightarrow> (int \<times> u8 list) \<times> 'w"

section \<open>The wrapper\<close>

text \<open>The static table of the four ports, and the driver's state.\<close>

record ('w, 'h) hal_state =
  uart_handles :: "'h option list"
  hal_world :: 'w

definition on_hal :: "('w \<Rightarrow> 'a \<times> 'w) \<Rightarrow> (('w, 'h) hal_state, 'a) act" where
  "on_hal f s = (case f (hal_world s) of (a, w) \<Rightarrow> Ret a (s\<lparr>hal_world := w\<rparr>))"

definition v4_hal_gpio_init :: "('w, 'h) hal \<Rightarrow> int \<Rightarrow> int \<Rightarrow> (('w, 'h) hal_state, v4_err) act" where
  "v4_hal_gpio_init H pin mode =
    (if mode = v4_gpio_mode_code V4_HAL_GPIO_MODE_INPUT then on_hal (hal_gpio_mode H pin HAL_GPIO_INPUT)
     else if mode = v4_gpio_mode_code V4_HAL_GPIO_MODE_OUTPUT then on_hal (hal_gpio_mode H pin HAL_GPIO_OUTPUT)
     else if mode = v4_gpio_mode_code V4_HAL_GPIO_MODE_INPUT_PULLUP then on_hal (hal_gpio_mode H pin HAL_GPIO_INPUT_PULLUP)
     else if mode = v4_gpio_mode_code V4_HAL_GPIO_MODE_INPUT_PULLDOWN then on_hal (hal_gpio_mode H pin HAL_GPIO_INPUT_PULLDOWN)
     else Ret (HAL_ERR HAL_PARAM))"

definition v4_hal_gpio_write :: "('w, 'h) hal \<Rightarrow> int \<Rightarrow> int \<Rightarrow> (('w, 'h) hal_state, v4_err) act" where
  "v4_hal_gpio_write H pin value =
    on_hal (hal_gpio_write H pin (if value \<noteq> 0 then HAL_GPIO_HIGH else HAL_GPIO_LOW))"

text \<open>
  The functions with an output pointer get whether it is not null, and return their code and what they
  store through it. A driver that reports success without storing leaves a local variable of the
  wrapper unwritten.
\<close>

definition v4_hal_gpio_read ::
    "('w, 'h) hal \<Rightarrow> int \<Rightarrow> bool \<Rightarrow> (('w, 'h) hal_state, v4_err \<times> int option) act" where
  "v4_hal_gpio_read H pin out_value =
    (if \<not> out_value then Ret (HAL_ERR HAL_PARAM, None)
     else bnd (on_hal (hal_gpio_read H pin)) (\<lambda>(ret, hal_value).
       if ret = 0 then (case hal_value of
           None \<Rightarrow> (\<lambda>s. Undef Indeterminate)
         | Some v \<Rightarrow> Ret (ret, Some (if v = HAL_GPIO_HIGH then 1 else 0)))
       else Ret (ret, None)))"

text \<open>\<open>!uart_handles[port]\<close> after the check of the port number.\<close>

definition handle_of :: "('w, 'h) hal_state \<Rightarrow> int \<Rightarrow> 'h option" where
  "handle_of s port = (if port < 0 \<or> port \<ge> 4 then None else uart_handles s ! nat port)"

definition close_port :: "('w, 'h) hal \<Rightarrow> int \<Rightarrow> (('w, 'h) hal_state, unit) act" where
  "close_port H port s = (case handle_of s port of
      None \<Rightarrow> Ret () s
    | Some h \<Rightarrow> bnd (on_hal (hal_uart_close H h))
        (\<lambda>_ s. Ret () (s\<lparr>uart_handles := (uart_handles s)[nat port := None]\<rparr>)) s)"

definition config_8N1 :: "int \<Rightarrow> hal_uart_config_t" where
  "config_8N1 baud = \<lparr>baudrate = baud, data_bits = 8, stop_bits = 1, parity = 0\<rparr>"

definition v4_hal_uart_init :: "('w, 'h) hal \<Rightarrow> int \<Rightarrow> int \<Rightarrow> (('w, 'h) hal_state, v4_err) act" where
  "v4_hal_uart_init H port baud =
    (if port < 0 \<or> port \<ge> 4 then Ret (HAL_ERR HAL_PARAM)
     else bnd (close_port H port) (\<lambda>_.
       bnd (on_hal (hal_uart_open H port (config_8N1 baud))) (\<lambda>h s.
         Ret (if h \<noteq> None then HAL_ERR HAL_OK else HAL_ERR HAL_NODEV)
           (s\<lparr>uart_handles := (uart_handles s)[nat port := h]\<rparr>))))"

definition v4_hal_uart_putc :: "('w, 'h) hal \<Rightarrow> int \<Rightarrow> u8 \<Rightarrow> (('w, 'h) hal_state, v4_err) act" where
  "v4_hal_uart_putc H port c s = (case handle_of s port of
      None \<Rightarrow> Ret (HAL_ERR HAL_PARAM) s
    | Some h \<Rightarrow> bnd (on_hal (hal_uart_write H h [c]))
        (\<lambda>ret. Ret (if ret = 1 then HAL_ERR HAL_OK else HAL_ERR HAL_IO)) s)"

text \<open>What a driver's read of one byte into a local variable gives the caller.\<close>

definition one_byte :: "int \<times> u8 list \<Rightarrow> (('w, 'h) hal_state, v4_err \<times> u8 option) act" where
  "one_byte r s = (case r of (ret, bs) \<Rightarrow>
     if length bs > 1 then Undef OutOfBounds
     else if ret = 1 then (case bs of [] \<Rightarrow> Undef Indeterminate | b # _ \<Rightarrow> Ret (HAL_ERR HAL_OK, Some b) s)
     else Ret (HAL_ERR HAL_IO, None) s)"

definition v4_hal_uart_getc ::
    "('w, 'h) hal \<Rightarrow> int \<Rightarrow> bool \<Rightarrow> (('w, 'h) hal_state, v4_err \<times> u8 option) act" where
  "v4_hal_uart_getc H port out_c s = (case handle_of s port of
      None \<Rightarrow> Ret (HAL_ERR HAL_PARAM, None) s
    | Some h \<Rightarrow> if \<not> out_c then Ret (HAL_ERR HAL_PARAM, None) s
        else bnd (on_hal (hal_uart_read H h 1)) one_byte s)"

definition v4_hal_uart_write ::
    "('w, 'h) hal \<Rightarrow> int \<Rightarrow> u8 list option \<Rightarrow> int \<Rightarrow> (('w, 'h) hal_state, v4_err) act" where
  "v4_hal_uart_write H port buf len s = (case (handle_of s port, buf) of
      (Some h, Some bs) \<Rightarrow>
        if len < 0 then Ret (HAL_ERR HAL_PARAM) s
        else if nat len > length bs then Undef OutOfBounds
        else bnd (on_hal (hal_uart_write H h (take (nat len) bs)))
          (\<lambda>ret. Ret (if ret = len then HAL_ERR HAL_OK else HAL_ERR HAL_IO)) s
    | _ \<Rightarrow> Ret (HAL_ERR HAL_PARAM) s)"

text \<open>
  \<open>buf\<close> is the size of the caller's buffer, \<^term>\<open>None\<close> for a null pointer. The result has the code, the
  bytes stored at the start of the buffer, and what is stored through \<open>out_len\<close>.
\<close>

definition v4_hal_uart_read ::
    "('w, 'h) hal \<Rightarrow> int \<Rightarrow> nat option \<Rightarrow> int \<Rightarrow> bool \<Rightarrow> (('w, 'h) hal_state, v4_err \<times> u8 list \<times> int option) act" where
  "v4_hal_uart_read H port buf max_len out_len s = (case (handle_of s port, buf) of
      (Some h, Some room) \<Rightarrow>
        if max_len < 0 \<or> \<not> out_len then Ret (HAL_ERR HAL_PARAM, [], None) s
        else bnd (on_hal (hal_uart_read H h (nat max_len))) (\<lambda>(ret, bs) s.
          if length bs > room then Undef OutOfBounds
          else if ret \<ge> 0 then Ret (HAL_ERR HAL_OK, bs, Some ret) s
          else Ret (HAL_ERR HAL_IO, bs, None) s) s
    | _ \<Rightarrow> Ret (HAL_ERR HAL_PARAM, [], None) s)"

definition v4_hal_millis :: "('w, 'h) hal \<Rightarrow> (('w, 'h) hal_state, u32) act" where
  "v4_hal_millis H = on_hal (hal_millis H)"

definition v4_hal_micros :: "('w, 'h) hal \<Rightarrow> (('w, 'h) hal_state, 64 word) act" where
  "v4_hal_micros H = on_hal (hal_micros H)"

definition v4_hal_delay_ms :: "('w, 'h) hal \<Rightarrow> u32 \<Rightarrow> (('w, 'h) hal_state, unit) act" where
  "v4_hal_delay_ms H ms = on_hal (\<lambda>w. ((), hal_delay_ms H ms w))"

definition v4_hal_delay_us :: "('w, 'h) hal \<Rightarrow> u32 \<Rightarrow> (('w, 'h) hal_state, unit) act" where
  "v4_hal_delay_us H us = on_hal (\<lambda>w. ((), hal_delay_us H us w))"

definition v4_hal_putc :: "('w, 'h) hal \<Rightarrow> u8 \<Rightarrow> (('w, 'h) hal_state, v4_err) act" where
  "v4_hal_putc H c = bnd (on_hal (hal_console_write H [c]))
     (\<lambda>ret. Ret (if ret = 1 then HAL_ERR HAL_OK else HAL_ERR HAL_IO))"

definition v4_hal_getc :: "('w, 'h) hal \<Rightarrow> bool \<Rightarrow> (('w, 'h) hal_state, v4_err \<times> u8 option) act" where
  "v4_hal_getc H out_c = (if \<not> out_c then Ret (HAL_ERR HAL_PARAM, None)
     else bnd (on_hal (hal_console_read H 1)) one_byte)"

definition v4_hal_system_reset :: "('w, 'h) hal \<Rightarrow> (('w, 'h) hal_state, unit) act" where
  "v4_hal_system_reset H = bnd (on_hal (\<lambda>w. ((), hal_deinit H w))) (\<lambda>_.
     bnd (on_hal (hal_init H)) (\<lambda>_. Ret ()))"

definition v4_hal_system_info :: string where
  "v4_hal_system_info = ''V4-hal C++17 CRTP implementation (POSIX)''"

section \<open>Calls of the wrapper\<close>

text \<open>One call of a function of the API, all but the system reset.\<close>

inductive hal_step :: "('w, 'h) hal \<Rightarrow> ('w, 'h) hal_state \<Rightarrow> ('w, 'h) hal_state \<Rightarrow> bool" for H where
  gpio_init: "v4_hal_gpio_init H pin m s = Ret r t \<Longrightarrow> hal_step H s t"
| gpio_write: "v4_hal_gpio_write H pin x s = Ret r t \<Longrightarrow> hal_step H s t"
| gpio_read: "v4_hal_gpio_read H pin b s = Ret v t \<Longrightarrow> hal_step H s t"
| uart_init: "v4_hal_uart_init H port baud s = Ret r t \<Longrightarrow> hal_step H s t"
| uart_putc: "v4_hal_uart_putc H port c s = Ret r t \<Longrightarrow> hal_step H s t"
| uart_getc: "v4_hal_uart_getc H port b s = Ret c t \<Longrightarrow> hal_step H s t"
| uart_write: "v4_hal_uart_write H port buf len s = Ret r t \<Longrightarrow> hal_step H s t"
| uart_read: "v4_hal_uart_read H port room len b s = Ret v t \<Longrightarrow> hal_step H s t"
| millis: "v4_hal_millis H s = Ret ms t \<Longrightarrow> hal_step H s t"
| micros: "v4_hal_micros H s = Ret us t \<Longrightarrow> hal_step H s t"
| delay_ms: "v4_hal_delay_ms H n s = Ret u t \<Longrightarrow> hal_step H s t"
| delay_us: "v4_hal_delay_us H n s = Ret u t \<Longrightarrow> hal_step H s t"
| putc: "v4_hal_putc H c s = Ret r t \<Longrightarrow> hal_step H s t"
| getc: "v4_hal_getc H b s = Ret v t \<Longrightarrow> hal_step H s t"

inductive_cases hal_stepE: "hal_step H s t"

text \<open>
  A run of calls of all functions, system resets included. The flag says that each reset was made while the
  table was empty.
\<close>

inductive hal_run :: "('w, 'h) hal \<Rightarrow> ('w, 'h) hal_state \<Rightarrow> bool \<Rightarrow> ('w, 'h) hal_state \<Rightarrow> bool" for H s where
  start: "hal_run H s True s"
| call: "hal_run H s c t \<Longrightarrow> hal_step H t u \<Longrightarrow> hal_run H s c u"
| reset: "hal_run H s c t \<Longrightarrow> v4_hal_system_reset H t = Ret x u \<Longrightarrow>
    hal_run H s (c \<and> (\<forall>p \<in> {0..<4}. handle_of t p = None)) u"

text \<open>The table agrees with what the driver has open, or at least knows every port that is open.\<close>

definition in_step :: "('w \<Rightarrow> int \<Rightarrow> 'h option) \<Rightarrow> ('w, 'h) hal_state \<Rightarrow> bool" where
  "in_step opened s \<longleftrightarrow> length (uart_handles s) = 4 \<and> (\<forall>p \<in> {0..<4}. handle_of s p = opened (hal_world s) p)"

definition knows_open :: "('w \<Rightarrow> int \<Rightarrow> 'h option) \<Rightarrow> ('w, 'h) hal_state \<Rightarrow> bool" where
  "knows_open opened s \<longleftrightarrow> length (uart_handles s) = 4 \<and>
     (\<forall>p \<in> {0..<4}. opened (hal_world s) p \<noteq> None \<longrightarrow> handle_of s p = opened (hal_world s) p)"

lemma on_hal_eq [simp]: "on_hal f s = Ret (fst (f (hal_world s))) (s\<lparr>hal_world := snd (f (hal_world s))\<rparr>)"
  by (simp add: on_hal_def split: prod.split)

lemma handle_of_simps [simp]:
  "handle_of (s\<lparr>hal_world := w\<rparr>) p = handle_of s p"
  "length (uart_handles s) = 4 \<Longrightarrow> 0 \<le> q \<Longrightarrow> q < 4 \<Longrightarrow>
    handle_of (s\<lparr>uart_handles := (uart_handles s)[nat q := h]\<rparr>) p = (if p = q then h else handle_of s p)"
  by (auto simp: handle_of_def nth_list_update nat_eq_iff)

text \<open>
  A driver of UART ports: a port whose handle is closed can be opened, with the handle (or null) the
  driver then has for it; closing a port's handle closes that port only, and an invalid handle is refused;
  nothing else opens or closes one.
\<close>

locale uart_driver =
  fixes H :: "('w, 'h) hal" and opened :: "'w \<Rightarrow> int \<Rightarrow> 'h option"
  assumes open_law: "opened w p = None \<Longrightarrow> hal_uart_open H p c w = (x, w') \<Longrightarrow> opened w' = (opened w)(p := x)"
    and close_law: "opened w p = Some h \<Longrightarrow> hal_uart_close H h w = (r, w') \<Longrightarrow> opened w' = (opened w)(p := None)"
    and invalid_law: "(\<And>p. opened w p \<noteq> Some h) \<Longrightarrow> hal_uart_close H h w = (r, w') \<Longrightarrow> opened w' = opened w"
    and gpio_law: "opened (snd (hal_gpio_mode H pin m w)) = opened w" "opened (snd (hal_gpio_write H pin v w)) = opened w"
      "opened (snd (hal_gpio_read H pin w)) = opened w"
    and data_law: "opened (snd (hal_uart_write H h bs w)) = opened w" "opened (snd (hal_uart_read H h n w)) = opened w"
      "opened (snd (hal_console_write H bs w)) = opened w" "opened (snd (hal_console_read H n w)) = opened w"
    and time_law: "opened (snd (hal_millis H w)) = opened w" "opened (snd (hal_micros H w)) = opened w"
      "opened (hal_delay_ms H ms w) = opened w" "opened (hal_delay_us H us w) = opened w"
begin

lemmas quiet = gpio_law data_law time_law

lemma in_step_quiet:
  assumes "in_step opened s" and "opened w = opened (hal_world s)"
  shows "in_step opened (s\<lparr>hal_world := w\<rparr>)"
  using assms by (simp add: in_step_def)

lemma close_port_in_step:
  assumes s: "in_step opened s" and p: "0 \<le> p" "p < 4"
  obtains t where "close_port H p s = Ret () t" "in_step opened t" "handle_of t p = None"
proof (cases "handle_of s p")
  case None
  then show ?thesis using that s by (simp add: close_port_def)
next
  case (Some h)
  obtain r w where close: "hal_uart_close H h (hal_world s) = (r, w)" by fastforce
  let ?t = "s\<lparr>hal_world := w, uart_handles := (uart_handles s)[nat p := None]\<rparr>"
  have len: "length (uart_handles s) = 4" and op: "opened (hal_world s) p = Some h"
    using s Some p by (auto simp: in_step_def)
  have w: "opened w = (opened (hal_world s))(p := None)" by (rule close_law [OF op close])
  have at_t: "handle_of ?t q = (if q = p then None else handle_of s q)" for q
    using handle_of_simps(2) [of "s\<lparr>hal_world := w\<rparr>" p None q] len p by simp
  have "in_step opened ?t" using s w len by (auto simp: in_step_def at_t)
  moreover have "close_port H p s = Ret () ?t" using Some close by (simp add: close_port_def bnd_def)
  ultimately show ?thesis using that at_t by simp
qed

lemma uart_init_in_step:
  assumes s: "in_step opened s" and run: "v4_hal_uart_init H p baud s = Ret r t"
  shows "in_step opened t"
proof (cases "p < 0 \<or> p \<ge> 4")
  case True
  then show ?thesis using run s by (simp add: v4_hal_uart_init_def)
next
  case False
  then have p: "0 \<le> p" "p < 4" by auto
  obtain u where u: "close_port H p s = Ret () u" "in_step opened u" "handle_of u p = None"
    by (rule close_port_in_step [OF s p])
  obtain h w where op: "hal_uart_open H p (config_8N1 baud) (hal_world u) = (h, w)" by fastforce
  have len: "length (uart_handles u) = 4" and none: "opened (hal_world u) p = None"
    using u(2,3) p by (auto simp: in_step_def)
  have t: "t = u\<lparr>hal_world := w, uart_handles := (uart_handles u)[nat p := h]\<rparr>"
    using run False u(1) op by (simp add: v4_hal_uart_init_def bnd_def)
  have "handle_of t q = (if q = p then h else handle_of u q)" for q
    unfolding t using handle_of_simps(2) [of "u\<lparr>hal_world := w\<rparr>" p h q] len p by simp
  moreover have "opened w = (opened (hal_world u))(p := h)" by (rule open_law [OF none op])
  ultimately show ?thesis using u(2) len by (auto simp: in_step_def t)
qed

text \<open>Every call but a UART initialisation leaves the table and the open ports as they are.\<close>

lemma hal_step_cases:
  assumes "hal_step H s t"
  obtains p baud r where "v4_hal_uart_init H p baud s = Ret r t"
  | w where "t = s\<lparr>hal_world := w\<rparr>" and "opened w = opened (hal_world s)"
proof -
  have same: "\<exists>w. s = s\<lparr>hal_world := w\<rparr> \<and> opened w = opened (hal_world s)" by (rule exI [of _ "hal_world s"]) simp
  have "(\<exists>p baud r. v4_hal_uart_init H p baud s = Ret r t) \<or> (\<exists>w. t = s\<lparr>hal_world := w\<rparr> \<and> opened w = opened (hal_world s))"
    using assms same
    by (cases; (blast)?)
    (auto simp: quiet v4_hal_gpio_init_def v4_hal_gpio_write_def v4_hal_gpio_read_def v4_hal_uart_putc_def
      v4_hal_uart_getc_def v4_hal_uart_write_def v4_hal_uart_read_def v4_hal_millis_def v4_hal_micros_def
      v4_hal_delay_ms_def v4_hal_delay_us_def v4_hal_putc_def v4_hal_getc_def one_byte_def bnd_eq_Ret_iff
      split: if_splits option.splits list.splits prod.splits)
  then show thesis using that by blast
qed

lemma hal_step_in_step: "hal_step H s t \<Longrightarrow> in_step opened s \<Longrightarrow> in_step opened t"
  by (erule hal_step_cases) (auto intro: uart_init_in_step in_step_quiet)

text \<open>Closing a handle from the table, valid or not, closes the port and opens none.\<close>

lemma close_port_knows:
  assumes s: "knows_open opened s" and p: "0 \<le> p" "p < 4"
  obtains t where "close_port H p s = Ret () t" "knows_open opened t" "opened (hal_world t) p = None"
proof (cases "handle_of s p")
  case None
  then have "opened (hal_world s) p = None" using s p by (force simp: knows_open_def)
  then show ?thesis using that s None by (simp add: close_port_def)
next
  case (Some h)
  obtain r w where close: "hal_uart_close H h (hal_world s) = (r, w)" by fastforce
  let ?t = "s\<lparr>hal_world := w, uart_handles := (uart_handles s)[nat p := None]\<rparr>"
  have len: "length (uart_handles s) = 4" using s by (simp add: knows_open_def)
  have mine: "opened (hal_world s) p = Some h \<or> opened (hal_world s) p = None"
    using s p Some by (force simp: knows_open_def)
  have less: "opened w q = opened (hal_world s) q \<or> opened w q = None" for q
  proof (cases "\<exists>q. opened (hal_world s) q = Some h")
    case True
    then show ?thesis using close_law [OF _ close] by (metis fun_upd_apply)
  next
    case False
    then show ?thesis using invalid_law [OF _ close] by simp
  qed
  have le: "opened (hal_world s) q = Some y" if "opened w q = Some y" for q y
    using less [of q] that by simp
  have closed: "opened w p = None"
    using mine close_law [OF _ close, of p] less [of p] by auto
  have at_t: "handle_of ?t q = (if q = p then None else handle_of s q)" for q
    using handle_of_simps(2) [of "s\<lparr>hal_world := w\<rparr>" p None q] len p by simp
  have "knows_open opened ?t"
    using s le closed len unfolding knows_open_def at_t by (auto dest: le)
  moreover have "close_port H p s = Ret () ?t" using Some close by (simp add: close_port_def bnd_def)
  ultimately show ?thesis using that closed by simp
qed

lemma uart_init_knows:
  assumes s: "knows_open opened s" and run: "v4_hal_uart_init H p baud s = Ret r t"
  shows "knows_open opened t"
proof (cases "p < 0 \<or> p \<ge> 4")
  case True
  then show ?thesis using run s by (simp add: v4_hal_uart_init_def)
next
  case False
  then have p: "0 \<le> p" "p < 4" by auto
  obtain u where u: "close_port H p s = Ret () u" "knows_open opened u" "opened (hal_world u) p = None"
    by (rule close_port_knows [OF s p])
  obtain h w where op: "hal_uart_open H p (config_8N1 baud) (hal_world u) = (h, w)" by fastforce
  have len: "length (uart_handles u) = 4" using u(2) by (simp add: knows_open_def)
  have t: "t = u\<lparr>hal_world := w, uart_handles := (uart_handles u)[nat p := h]\<rparr>"
    using run False u(1) op by (simp add: v4_hal_uart_init_def bnd_def)
  have "handle_of t q = (if q = p then h else handle_of u q)" for q
    unfolding t using handle_of_simps(2) [of "u\<lparr>hal_world := w\<rparr>" p h q] len p by simp
  moreover have "opened w = (opened (hal_world u))(p := h)" by (rule open_law [OF u(3) op])
  ultimately show ?thesis using u(2) len by (auto simp: knows_open_def t)
qed

lemma hal_step_knows: "hal_step H s t \<Longrightarrow> knows_open opened s \<Longrightarrow> knows_open opened t"
  by (erule hal_step_cases) (rule uart_init_knows, assumption, assumption, simp add: knows_open_def)

text \<open>What a reset does when tearing the driver down closes every port and starting it opens none.\<close>

lemma system_reset_ports:
  assumes "\<And>w p. opened (hal_deinit H w) p = None" and "\<And>w. opened (snd (hal_init H w)) = opened w"
    and "v4_hal_system_reset H s = Ret x t"
  shows "opened (hal_world t) p = None" and "uart_handles t = uart_handles s" and "handle_of t q = handle_of s q"
  using assms by (auto simp: v4_hal_system_reset_def)

lemma hal_run_ports:
  assumes "\<And>w p. opened (hal_deinit H w) p = None" and "\<And>w. opened (snd (hal_init H w)) = opened w"
  shows "hal_run H s c t \<Longrightarrow> in_step opened s \<Longrightarrow> knows_open opened t \<and> (c \<longrightarrow> in_step opened t)"
proof (induction rule: hal_run.induct)
  case start
  then show ?case by (simp add: in_step_def knows_open_def)
next
  case (call c t u)
  then show ?case using hal_step_knows hal_step_in_step by blast
next
  case (reset c t x u)
  have "knows_open opened t" using reset by blast
  then show ?case using system_reset_ports [OF assms reset.hyps(2)] by (simp add: in_step_def knows_open_def)
qed

end

end
