(* ===== verification/V4_Mock_Hal.thy ===== *)
theory V4_Mock_Hal
  imports V4_Hal
begin

text \<open>
  The repository's own implementation of the driver API, the recording driver of
  \<^verbatim>\<open>tests/mock_hal.cpp\<close>. It provides the contract \<open>uart_driver\<close> of the wrapper. It has no \<open>hal_init\<close> and
  \<open>hal_deinit\<close>; these stay parameters.
\<close>

section \<open>The recording driver\<close>

definition MAX_GPIO_PINS :: nat where
  "MAX_GPIO_PINS = 32"

definition MAX_UART_PORTS :: nat where
  "MAX_UART_PORTS = 4"

definition UART_BUFFER_SIZE :: nat where
  "UART_BUFFER_SIZE = 256"

definition CONSOLE_BUFFER_SIZE :: nat where
  "CONSOLE_BUFFER_SIZE = 256"

record MockGpioState =
  g_initialized :: bool
  g_mode :: hal_gpio_mode_t
  g_value :: hal_gpio_value_t

record MockUartState =
  u_initialized :: bool
  u_baudrate :: int
  tx_buffer :: "u8 list"
  tx_count :: nat
  rx_buffer :: "u8 list"
  rx_count :: nat
  rx_pos :: nat

record MockConsoleState =
  output_buffer :: "u8 list"
  output_count :: nat
  input_buffer :: "u8 list"
  input_count :: nat
  input_pos :: nat

record mock =
  mock_gpio :: "nat \<Rightarrow> MockGpioState"
  mock_uart :: "nat \<Rightarrow> MockUartState"
  mock_console :: MockConsoleState
  mock_millis_counter :: u32
  mock_micros_counter :: "64 word"

definition zero_uart :: MockUartState where
  "zero_uart = \<lparr>u_initialized = False, u_baudrate = 0, tx_buffer = replicate UART_BUFFER_SIZE 0, tx_count = 0,
     rx_buffer = replicate UART_BUFFER_SIZE 0, rx_count = 0, rx_pos = 0\<rparr>"

definition mock_hal_reset :: mock where
  "mock_hal_reset = \<lparr>mock_gpio = (\<lambda>_. \<lparr>g_initialized = False, g_mode = HAL_GPIO_INPUT, g_value = HAL_GPIO_LOW\<rparr>),
     mock_uart = (\<lambda>_. zero_uart),
     mock_console = \<lparr>output_buffer = replicate CONSOLE_BUFFER_SIZE 0, output_count = 0,
       input_buffer = replicate CONSOLE_BUFFER_SIZE 0, input_count = 0, input_pos = 0\<rparr>,
     mock_millis_counter = 0, mock_micros_counter = 0\<rparr>"

definition pin_ok :: "int \<Rightarrow> bool" where
  "pin_ok pin \<longleftrightarrow> \<not> (pin < 0 \<or> pin \<ge> int MAX_GPIO_PINS)"

definition mock_gpio_mode :: "int \<Rightarrow> hal_gpio_mode_t \<Rightarrow> mock \<Rightarrow> int \<times> mock" where
  "mock_gpio_mode pin m w =
    (if \<not> pin_ok pin then (HAL_ERR HAL_PARAM, w)
     else (HAL_ERR HAL_OK, w\<lparr>mock_gpio := (mock_gpio w)(nat pin :=
       \<lparr>g_initialized = True, g_mode = m, g_value = HAL_GPIO_LOW\<rparr>)\<rparr>))"

definition mock_gpio_write :: "int \<Rightarrow> hal_gpio_value_t \<Rightarrow> mock \<Rightarrow> int \<times> mock" where
  "mock_gpio_write pin v w =
    (if \<not> pin_ok pin then (HAL_ERR HAL_PARAM, w)
     else (let g = mock_gpio w (nat pin) in
       if \<not> g_initialized g then (HAL_ERR HAL_PARAM, w)
       else if g_mode g \<noteq> HAL_GPIO_OUTPUT \<and> g_mode g \<noteq> HAL_GPIO_OUTPUT_OD then (HAL_ERR HAL_PARAM, w)
       else (HAL_ERR HAL_OK, w\<lparr>mock_gpio := (mock_gpio w)(nat pin := g\<lparr>g_value := v\<rparr>)\<rparr>)))"

definition mock_gpio_read :: "int \<Rightarrow> mock \<Rightarrow> (int \<times> hal_gpio_value_t option) \<times> mock" where
  "mock_gpio_read pin w =
    (if \<not> pin_ok pin then ((HAL_ERR HAL_PARAM, None), w)
     else (let g = mock_gpio w (nat pin) in
       if \<not> g_initialized g then ((HAL_ERR HAL_PARAM, None), w)
       else ((HAL_ERR HAL_OK, Some (g_value g)), w)))"

text \<open>A handle is a pointer into \<open>mock_uart\<close>: its index.\<close>

definition mock_uart_open :: "int \<Rightarrow> hal_uart_config_t \<Rightarrow> mock \<Rightarrow> nat option \<times> mock" where
  "mock_uart_open port c w =
    (if port < 0 \<or> port \<ge> int MAX_UART_PORTS then (None, w)
     else if baudrate c \<le> 0 then (None, w)
     else (Some (nat port), w\<lparr>mock_uart := (mock_uart w)(nat port := (mock_uart w (nat port))
       \<lparr>u_initialized := True, u_baudrate := baudrate c, tx_count := 0, rx_count := 0, rx_pos := 0\<rparr>)\<rparr>))"

definition mock_uart_close :: "nat \<Rightarrow> mock \<Rightarrow> int \<times> mock" where
  "mock_uart_close h w = (HAL_ERR HAL_OK,
     w\<lparr>mock_uart := (mock_uart w)(h := (mock_uart w h)\<lparr>u_initialized := False\<rparr>)\<rparr>)"

primrec tx_bytes :: "u8 list \<Rightarrow> MockUartState \<Rightarrow> nat \<times> MockUartState" where
  "tx_bytes [] u = (0, u)"
| "tx_bytes (b # bs) u =
    (if tx_count u \<ge> UART_BUFFER_SIZE then (0, u)
     else (case tx_bytes bs (u\<lparr>tx_buffer := (tx_buffer u)[tx_count u := b], tx_count := tx_count u + 1\<rparr>) of
       (n, u') \<Rightarrow> (n + 1, u')))"

definition mock_uart_write :: "nat \<Rightarrow> u8 list \<Rightarrow> mock \<Rightarrow> int \<times> mock" where
  "mock_uart_write h bs w =
    (if \<not> u_initialized (mock_uart w h) then (HAL_ERR HAL_PARAM, w)
     else (case tx_bytes bs (mock_uart w h) of
       (written, u) \<Rightarrow> (int written, w\<lparr>mock_uart := (mock_uart w)(h := u)\<rparr>)))"

definition mock_uart_read :: "nat \<Rightarrow> nat \<Rightarrow> mock \<Rightarrow> (int \<times> u8 list) \<times> mock" where
  "mock_uart_read h len w =
    (let u = mock_uart w h in
     if \<not> u_initialized u then ((HAL_ERR HAL_PARAM, []), w)
     else (let available = rx_count u - rx_pos u; to_read = (if available < len then available else len) in
       ((int to_read, take to_read (drop (rx_pos u) (rx_buffer u))),
        w\<lparr>mock_uart := (mock_uart w)(h := u\<lparr>rx_pos := rx_pos u + to_read\<rparr>)\<rparr>)))"

definition mock_delay_ms :: "u32 \<Rightarrow> mock \<Rightarrow> mock" where
  "mock_delay_ms ms w = w\<lparr>mock_millis_counter := mock_millis_counter w + ms,
     mock_micros_counter := mock_micros_counter w + ucast ms * 1000\<rparr>"

definition mock_delay_us :: "u32 \<Rightarrow> mock \<Rightarrow> mock" where
  "mock_delay_us us w = w\<lparr>mock_micros_counter := mock_micros_counter w + ucast us,
     mock_millis_counter := mock_millis_counter w + us div 1000\<rparr>"

primrec console_bytes :: "u8 list \<Rightarrow> MockConsoleState \<Rightarrow> nat \<times> MockConsoleState" where
  "console_bytes [] c = (0, c)"
| "console_bytes (b # bs) c =
    (if output_count c \<ge> CONSOLE_BUFFER_SIZE then (0, c)
     else (case console_bytes bs (c\<lparr>output_buffer := (output_buffer c)[output_count c := b], output_count := output_count c + 1\<rparr>) of
       (n, c') \<Rightarrow> (n + 1, c')))"

definition mock_console_write :: "u8 list \<Rightarrow> mock \<Rightarrow> int \<times> mock" where
  "mock_console_write bs w = (case console_bytes bs (mock_console w) of
     (written, c) \<Rightarrow> (int written, w\<lparr>mock_console := c\<rparr>))"

primrec console_read :: "nat \<Rightarrow> MockConsoleState \<Rightarrow> u8 list \<times> MockConsoleState" where
  "console_read 0 c = ([], c)"
| "console_read (Suc n) c =
    (if input_pos c < input_count c
     then (case console_read n (c\<lparr>input_pos := input_pos c + 1\<rparr>) of (bs, c') \<Rightarrow> (input_buffer c ! input_pos c # bs, c'))
     else ([], c))"

definition mock_console_read :: "nat \<Rightarrow> mock \<Rightarrow> (int \<times> u8 list) \<times> mock" where
  "mock_console_read len w = (case console_read len (mock_console w) of
     (bs, c) \<Rightarrow> ((int (length bs), bs), w\<lparr>mock_console := c\<rparr>))"

definition mock_hal :: "(mock \<Rightarrow> int \<times> mock) \<Rightarrow> (mock \<Rightarrow> mock) \<Rightarrow> (mock, nat) hal" where
  "mock_hal init deinit = \<lparr>hal_init = init, hal_deinit = deinit, hal_gpio_mode = mock_gpio_mode,
     hal_gpio_write = mock_gpio_write, hal_gpio_read = mock_gpio_read, hal_uart_open = mock_uart_open,
     hal_uart_close = mock_uart_close, hal_uart_write = mock_uart_write, hal_uart_read = mock_uart_read,
     hal_millis = (\<lambda>w. (mock_millis_counter w, w)), hal_micros = (\<lambda>w. (mock_micros_counter w, w)),
     hal_delay_ms = mock_delay_ms, hal_delay_us = mock_delay_us,
     hal_console_write = mock_console_write, hal_console_read = mock_console_read\<rparr>"

lemma mock_hal_simps [simp]:
  "hal_init (mock_hal i d) = i" "hal_deinit (mock_hal i d) = d" "hal_gpio_mode (mock_hal i d) = mock_gpio_mode"
  "hal_gpio_write (mock_hal i d) = mock_gpio_write" "hal_gpio_read (mock_hal i d) = mock_gpio_read"
  "hal_uart_open (mock_hal i d) = mock_uart_open" "hal_uart_close (mock_hal i d) = mock_uart_close"
  "hal_uart_write (mock_hal i d) = mock_uart_write" "hal_uart_read (mock_hal i d) = mock_uart_read"
  "hal_millis (mock_hal i d) = (\<lambda>w. (mock_millis_counter w, w))" "hal_micros (mock_hal i d) = (\<lambda>w. (mock_micros_counter w, w))"
  "hal_delay_ms (mock_hal i d) = mock_delay_ms" "hal_delay_us (mock_hal i d) = mock_delay_us"
  "hal_console_write (mock_hal i d) = mock_console_write" "hal_console_read (mock_hal i d) = mock_console_read"
  by (simp_all add: mock_hal_def)

text \<open>The tests inject received bytes and look at the sent ones.\<close>

definition mock_hal_uart_inject_rx :: "int \<Rightarrow> u8 list \<Rightarrow> mock \<Rightarrow> mock" where
  "mock_hal_uart_inject_rx port data w =
    (if port < 0 \<or> port \<ge> int MAX_UART_PORTS then w
     else (let bs = take UART_BUFFER_SIZE data; u = mock_uart w (nat port) in
       w\<lparr>mock_uart := (mock_uart w)(nat port := u
         \<lparr>rx_buffer := bs @ drop (length bs) (rx_buffer u), rx_count := length bs, rx_pos := 0\<rparr>)\<rparr>))"

definition mock_hal_uart_get_tx :: "int \<Rightarrow> mock \<Rightarrow> u8 list option" where
  "mock_hal_uart_get_tx port w =
    (if port < 0 \<or> port \<ge> int MAX_UART_PORTS then None
     else Some (take (tx_count (mock_uart w (nat port))) (tx_buffer (mock_uart w (nat port)))))"

definition mock_uart_available :: "nat option \<Rightarrow> mock \<Rightarrow> int" where
  "mock_uart_available handle w = (case handle of
      None \<Rightarrow> HAL_ERR HAL_PARAM
    | Some h \<Rightarrow> (let u = mock_uart w h in
        if \<not> u_initialized u then HAL_ERR HAL_PARAM else int (rx_count u) - int (rx_pos u)))"

definition mock_hal_set_millis :: "u32 \<Rightarrow> mock \<Rightarrow> mock" where
  "mock_hal_set_millis ms w = w\<lparr>mock_millis_counter := ms\<rparr>"

definition mock_hal_set_micros :: "64 word \<Rightarrow> mock \<Rightarrow> mock" where
  "mock_hal_set_micros us w = w\<lparr>mock_micros_counter := us\<rparr>"

definition mock_hal_gpio_get_value :: "int \<Rightarrow> mock \<Rightarrow> hal_gpio_value_t" where
  "mock_hal_gpio_get_value pin w = (if \<not> pin_ok pin then HAL_GPIO_LOW else g_value (mock_gpio w (nat pin)))"

definition mock_hal_gpio_get_mode :: "int \<Rightarrow> mock \<Rightarrow> hal_gpio_mode_t" where
  "mock_hal_gpio_get_mode pin w = (if \<not> pin_ok pin then HAL_GPIO_INPUT else g_mode (mock_gpio w (nat pin)))"

definition mock_hal_console_inject_input :: "u8 list \<Rightarrow> mock \<Rightarrow> mock" where
  "mock_hal_console_inject_input data w = (let bs = take CONSOLE_BUFFER_SIZE data; c = mock_console w in
     w\<lparr>mock_console := c\<lparr>input_buffer := bs @ drop (length bs) (input_buffer c), input_count := length bs, input_pos := 0\<rparr>\<rparr>)"

definition mock_hal_console_get_output :: "mock \<Rightarrow> u8 list" where
  "mock_hal_console_get_output w = take (output_count (mock_console w)) (output_buffer (mock_console w))"

section \<open>The driver's contract\<close>

definition mock_opened :: "mock \<Rightarrow> int \<Rightarrow> nat option" where
  "mock_opened w p = (if 0 \<le> p \<and> p < int MAX_UART_PORTS \<and> u_initialized (mock_uart w (nat p)) then Some (nat p) else None)"

lemma tx_bytes_initialized [simp]: "u_initialized (snd (tx_bytes bs u)) = u_initialized u"
  by (induction bs arbitrary: u) (simp_all add: case_prod_beta)

lemma mock_opened_update:
  "u_initialized u = u_initialized (mock_uart w h) \<Longrightarrow>
    mock_opened (w\<lparr>mock_uart := (mock_uart w)(h := u)\<rparr>) = mock_opened w"
  by (auto simp: mock_opened_def fun_eq_iff)

lemma mock_opened_other [simp]:
  "mock_opened (w\<lparr>mock_gpio := g\<rparr>) = mock_opened w" "mock_opened (w\<lparr>mock_console := c\<rparr>) = mock_opened w"
  "mock_opened (mock_delay_ms ms w) = mock_opened w" "mock_opened (mock_delay_us us w) = mock_opened w"
  by (simp_all add: mock_opened_def fun_eq_iff mock_delay_ms_def mock_delay_us_def)

lemma mock_opened_io [simp]:
  "mock_opened (snd (mock_gpio_mode pin m w)) = mock_opened w" "mock_opened (snd (mock_gpio_write pin v w)) = mock_opened w"
  "mock_opened (snd (mock_gpio_read pin w)) = mock_opened w" "mock_opened (snd (mock_console_write bs w)) = mock_opened w"
  "mock_opened (snd (mock_console_read n w)) = mock_opened w"
  by (simp_all add: mock_gpio_mode_def mock_gpio_write_def mock_gpio_read_def mock_console_write_def mock_console_read_def
      Let_def case_prod_beta)

lemma mock_opened_uart [simp]:
  "mock_opened (snd (mock_uart_write h bs w)) = mock_opened w" "mock_opened (snd (mock_uart_read h n w)) = mock_opened w"
  by (simp_all add: mock_uart_write_def mock_uart_read_def Let_def case_prod_beta mock_opened_update)

lemma mock_opened_set:
  assumes "0 \<le> p" and "p < int MAX_UART_PORTS"
  shows "mock_opened (w\<lparr>mock_uart := (mock_uart w)(nat p := u)\<rparr>) =
    (mock_opened w)(p := if u_initialized u then Some (nat p) else None)"
proof
  fix q show "mock_opened (w\<lparr>mock_uart := (mock_uart w)(nat p := u)\<rparr>) q =
      ((mock_opened w)(p := if u_initialized u then Some (nat p) else None)) q"
    using assms by (cases "q = p") (auto simp: mock_opened_def eq_nat_nat_iff)
qed

lemma mock_opened_open:
  assumes "mock_opened w p = None" and "mock_uart_open p c w = (x, w')"
  shows "mock_opened w' = (mock_opened w)(p := x)"
proof (cases "0 \<le> p \<and> p < int MAX_UART_PORTS \<and> baudrate c > 0")
  case True
  then show ?thesis using assms(2) by (auto simp: mock_uart_open_def mock_opened_set)
next
  case False
  then have "x = None" "w' = w" using assms(2) by (auto simp: mock_uart_open_def split: if_splits)
  then show ?thesis using assms(1) by (simp only: fun_upd_idem)
qed

lemma mock_opened_close:
  assumes "mock_opened w p = Some h" and "mock_uart_close h w = (r, w')"
  shows "mock_opened w' = (mock_opened w)(p := None)"
proof -
  have p: "0 \<le> p" "p < int MAX_UART_PORTS" "h = nat p"
    using assms(1) by (auto simp: mock_opened_def split: if_splits)
  have w': "w' = w\<lparr>mock_uart := (mock_uart w)(nat p := (mock_uart w (nat p))\<lparr>u_initialized := False\<rparr>)\<rparr>"
    using assms(2) p(3) by (simp add: mock_uart_close_def)
  show ?thesis unfolding w' mock_opened_set [OF p(1,2)] by simp
qed

lemma mock_opened_invalid:
  assumes "\<And>p. mock_opened w p \<noteq> Some h" and "mock_uart_close h w = (r, w')"
  shows "mock_opened w' = mock_opened w"
  using assms(1) [of "int h"] assms(2) by (auto simp: mock_uart_close_def mock_opened_def fun_eq_iff split: if_splits)

interpretation mock: uart_driver "mock_hal init deinit" mock_opened for init deinit
  by unfold_locales (auto intro: mock_opened_open mock_opened_close mock_opened_invalid)

end
