(* ===== verification/V4_Hal_Props.thy ===== *)
theory V4_Hal_Props
  imports V4_Mock_Hal
begin

text \<open>
  Properties of the HAL wrapper: its handle table under any driver that meets the contract, and the data
  paths of the wrapper over the recording driver.
\<close>

section \<open>The handle table\<close>

definition fresh_hal :: "'w \<Rightarrow> ('w, 'h) hal_state" where
  "fresh_hal w = \<lparr>uart_handles = replicate 4 None, hal_world = w\<rparr>"

definition sample_hal :: "(mock, nat) hal" where
  "sample_hal = mock_hal (\<lambda>w. (0, w)) (\<lambda>w. w\<lparr>mock_uart := \<lambda>p. (mock_uart w p)\<lparr>u_initialized := False\<rparr>\<rparr>)"

lemma uart_driver_sample: "uart_driver sample_hal mock_opened"
  unfolding sample_hal_def by (rule mock.uart_driver_axioms)

lemma in_step_fresh: "\<forall>p \<in> {0..<4}. opened w p = None \<Longrightarrow> in_step opened (fresh_hal w)"
  by (simp add: in_step_def fresh_hal_def handle_of_def nat_less_iff)

text \<open>C17: after any sequence of calls of the wrapper from a fresh table, system resets included, over any driver
  that opens, closes, tears down and starts as documented, every port the driver has open is in the table
  with the driver's handle, whatever was initialised twice, failed to open or was reset. If each system reset
  was made while the table was empty, the table has exactly these ports, so that no call hands the driver a
  closed handle; and a further reset keeps it so only if no port is open then: a reset with an open port
  leaves its closed handle behind.
\<close>
theorem open_ports_tracked:
  assumes "uart_driver H opened" and "\<And>w p. opened (hal_deinit H w) p = None" and "\<And>w. opened (snd (hal_init H w)) = opened w"
    and "\<forall>p \<in> {0..<4}. opened w p = None" and "hal_run H (fresh_hal w) c t"
  shows "(\<forall>p \<in> {0..<4}. opened (hal_world t) p \<noteq> None \<longrightarrow> handle_of t p = opened (hal_world t) p) \<and>
    (c \<longrightarrow> (\<forall>p \<in> {0..<4}. handle_of t p = opened (hal_world t) p)) \<and>
    (\<exists>u. v4_hal_system_reset H t = Ret () u \<and>
      ((\<forall>p \<in> {0..<4}. handle_of u p = opened (hal_world u) p) \<longleftrightarrow> (\<forall>p \<in> {0..<4}. handle_of t p = None)))"
proof -
  have "knows_open opened t \<and> (c \<longrightarrow> in_step opened t)"
    using uart_driver.hal_run_ports [OF assms(1-3,5)] in_step_fresh [of opened w, OF assms(4)] by blast
  moreover have "\<exists>u. v4_hal_system_reset H t = Ret () u \<and> handle_of u = handle_of t \<and> (\<forall>p. opened (hal_world u) p = None)"
    using assms(2,3) by (simp add: v4_hal_system_reset_def fun_eq_iff)
  ultimately show ?thesis by (auto simp: knows_open_def in_step_def)
qed

lemma mock_init_run:
  assumes "length (uart_handles s) = 4" and "0 \<le> p" "p < 4" and "0 < baud"
  obtains t where "v4_hal_uart_init (mock_hal i d) p baud s = Ret (HAL_ERR HAL_OK) t" "handle_of t p = Some (nat p)"
    "u_initialized (mock_uart (hal_world t) (nat p))" "tx_count (mock_uart (hal_world t) (nat p)) = 0"
    "\<And>q. q \<noteq> p \<Longrightarrow> handle_of t q = handle_of s q"
    "tx_buffer (mock_uart (hal_world t) (nat p)) = tx_buffer (mock_uart (hal_world s) (nat p))"
    "rx_buffer (mock_uart (hal_world t) (nat p)) = rx_buffer (mock_uart (hal_world s) (nat p))"
    "length (uart_handles t) = 4"
proof -
  let ?H = "mock_hal i d"
  obtain u where u: "close_port ?H p s = Ret () u" "length (uart_handles u) = 4"
      "\<And>q. q \<noteq> p \<Longrightarrow> handle_of u q = handle_of s q"
      "\<And>n. tx_buffer (mock_uart (hal_world u) n) = tx_buffer (mock_uart (hal_world s) n)"
      "\<And>n. rx_buffer (mock_uart (hal_world u) n) = rx_buffer (mock_uart (hal_world s) n)"
  proof (cases "handle_of s p")
    case None
    then show ?thesis using that assms(1) by (simp add: close_port_def)
  next
    case (Some h)
    let ?w = "snd (mock_uart_close h (hal_world s))"
    let ?u = "s\<lparr>hal_world := ?w, uart_handles := (uart_handles s)[nat p := None]\<rparr>"
    have "handle_of ?u q = handle_of s q" if "q \<noteq> p" for q
      using handle_of_simps(2) [of "s\<lparr>hal_world := ?w\<rparr>" p None q] assms that by simp
    moreover have "close_port ?H p s = Ret () ?u" using Some by (simp add: close_port_def)
    ultimately show ?thesis using that [of ?u] assms(1) by (simp add: mock_uart_close_def)
  qed
  let ?w = "snd (mock_uart_open p (config_8N1 baud) (hal_world u))"
  let ?t = "u\<lparr>hal_world := ?w, uart_handles := (uart_handles u)[nat p := Some (nat p)]\<rparr>"
  have op: "fst (mock_uart_open p (config_8N1 baud) (hal_world u)) = Some (nat p)"
    using assms by (simp add: mock_uart_open_def MAX_UART_PORTS_def config_8N1_def)
  have w: "mock_uart ?w (nat p) = (mock_uart (hal_world u) (nat p))
      \<lparr>u_initialized := True, u_baudrate := baud, tx_count := 0, rx_count := 0, rx_pos := 0\<rparr>"
    using assms by (simp add: mock_uart_open_def MAX_UART_PORTS_def config_8N1_def)
  have "handle_of ?t q = (if q = p then Some (nat p) else handle_of u q)" for q
    using handle_of_simps(2) [of "u\<lparr>hal_world := ?w\<rparr>" p "Some (nat p)" q] u(2) assms by simp
  moreover have "v4_hal_uart_init ?H p baud s = Ret (HAL_ERR HAL_OK) ?t"
    using u(1) op assms by (simp add: v4_hal_uart_init_def bnd_def)
  ultimately show ?thesis using that [of ?t] u w by simp
qed

lemma sample_reset: "mock_opened (hal_deinit sample_hal w) p = None" "mock_opened (snd (hal_init sample_hal w)) = mock_opened w"
  by (simp_all add: sample_hal_def mock_opened_def)

theorem open_ports_tracked_witness:
  "\<exists>s t u. v4_hal_system_reset sample_hal (fresh_hal mock_hal_reset) = Ret () s \<and> v4_hal_uart_init sample_hal 1 9600 s = Ret 0 t \<and>
    v4_hal_uart_init sample_hal 1 115200 t = Ret 0 u \<and> handle_of u 1 = Some 1 \<and>
    (\<forall>p \<in> {0..<4}. handle_of u p = mock_opened (hal_world u) p)"
proof -
  have none: "\<forall>p \<in> {0..<4}. mock_opened mock_hal_reset p = None"
    by (simp add: mock_opened_def mock_hal_reset_def zero_uart_def)
  obtain s where s: "v4_hal_system_reset sample_hal (fresh_hal mock_hal_reset) = Ret () s" "length (uart_handles s) = 4"
    by (simp add: v4_hal_system_reset_def fresh_hal_def)
  then obtain t where t: "v4_hal_uart_init sample_hal 1 9600 s = Ret (HAL_ERR HAL_OK) t" "length (uart_handles t) = 4"
    unfolding sample_hal_def by (rule_tac mock_init_run [where p = 1 and baud = 9600 and s = s]) auto
  then obtain u where u: "v4_hal_uart_init sample_hal 1 115200 t = Ret (HAL_ERR HAL_OK) u" "handle_of u 1 = Some 1"
    unfolding sample_hal_def by (rule_tac mock_init_run [where p = 1 and baud = 115200 and s = t]) auto
  have "hal_run sample_hal (fresh_hal mock_hal_reset) (True \<and> (\<forall>p \<in> {0..<4}. handle_of (fresh_hal mock_hal_reset :: (mock, nat) hal_state) p = None)) u"
    by (rule hal_run.call [OF hal_run.call [OF hal_run.reset [OF hal_run.start s(1)] hal_step.uart_init [OF t(1)]] hal_step.uart_init [OF u(1)]])
  from open_ports_tracked [OF uart_driver_sample sample_reset none this] show ?thesis
    using s(1) t(1) u by (auto simp: handle_of_def fresh_hal_def nat_less_iff)
qed

text \<open>C38: a system reset tears the driver down and starts it again but keeps the table. If tearing down
  closes every port, as documented, a port that was open keeps its old handle, and the next byte for it
  is written with a handle the driver no longer knows.
\<close>
theorem system_reset_keeps_handles:
  assumes "\<And>w p. opened (hal_deinit H w) p = None" and "\<And>w. opened (snd (hal_init H w)) = opened w"
    and "handle_of s p = Some h"
  shows "\<exists>t. v4_hal_system_reset H s = Ret () t \<and> opened (hal_world t) p = None \<and> handle_of t p = Some h \<and>
    v4_hal_uart_putc H p c t = bnd (on_hal (hal_uart_write H h [c]))
      (\<lambda>ret. Ret (if ret = 1 then HAL_ERR HAL_OK else HAL_ERR HAL_IO)) t"
  using assms by (simp add: v4_hal_system_reset_def v4_hal_uart_putc_def)

theorem system_reset_keeps_handles_witness:
  "\<exists>t u. v4_hal_uart_init sample_hal 1 9600 (fresh_hal mock_hal_reset) = Ret 0 t \<and>
    v4_hal_system_reset sample_hal t = Ret () u \<and> mock_opened (hal_world u) 1 = None \<and> handle_of u 1 = Some 1"
proof -
  have "length (uart_handles (fresh_hal mock_hal_reset :: (mock, nat) hal_state)) = 4" by (simp add: fresh_hal_def)
  then obtain t where t: "v4_hal_uart_init sample_hal 1 9600 (fresh_hal mock_hal_reset) = Ret (HAL_ERR HAL_OK) t"
      "handle_of t 1 = Some (nat 1)"
    unfolding sample_hal_def by (rule mock_init_run [where p = 1 and baud = 9600]) auto
  from system_reset_keeps_handles [of mock_opened sample_hal, OF sample_reset t(2)] t show ?thesis by auto
qed

section \<open>Pins\<close>

text \<open>
  Over the recording driver, a pin configured as output reads back as 1 or 0 what was last written, any
  non-zero value counting as 1; a pin configured as input refuses a write. The wrapper's mode numbers are
  not the driver's: mode 1 is an output, 2 and 3 are inputs.
\<close>
theorem gpio_write_then_read:
  assumes "0 \<le> pin" and "pin < 32"
  shows "\<exists>t. bnd (v4_hal_gpio_init (mock_hal i d) pin 1) (\<lambda>_. bnd (v4_hal_gpio_write (mock_hal i d) pin x) (\<lambda>_.
      v4_hal_gpio_read (mock_hal i d) pin True)) s = Ret (HAL_ERR HAL_OK, Some (if x = 0 then 0 else 1)) t \<and>
    (\<forall>m \<in> {0, 2, 3}. \<exists>t. bnd (v4_hal_gpio_init (mock_hal i d) pin m) (\<lambda>_. v4_hal_gpio_write (mock_hal i d) pin x) s =
      Ret (HAL_ERR HAL_PARAM) t)"
proof -
  have pin: "pin_ok pin" using assms by (simp add: pin_ok_def MAX_GPIO_PINS_def)
  show ?thesis
    using pin by (simp add: v4_hal_gpio_init_def v4_hal_gpio_write_def v4_hal_gpio_read_def mock_gpio_mode_def
        mock_gpio_write_def mock_gpio_read_def bnd_def Let_def)
qed

theorem gpio_write_then_read_witness:
  "\<exists>t. bnd (v4_hal_gpio_init sample_hal 13 1) (\<lambda>_. bnd (v4_hal_gpio_write sample_hal 13 7) (\<lambda>_.
      v4_hal_gpio_read sample_hal 13 True)) (fresh_hal mock_hal_reset) = Ret (0, Some 1) t"
  using gpio_write_then_read [of 13 "\<lambda>w. (0, w)" _ 7 "fresh_hal mock_hal_reset"] unfolding sample_hal_def by auto

section \<open>Data\<close>

lemma tx_bytes_outcome:
  assumes "length (tx_buffer u) = UART_BUFFER_SIZE" and "tx_count u \<le> UART_BUFFER_SIZE"
  shows "fst (tx_bytes bs u) = min (length bs) (UART_BUFFER_SIZE - tx_count u) \<and>
    (let v = snd (tx_bytes bs u) in
      take (tx_count v) (tx_buffer v) = take (tx_count u) (tx_buffer u) @ take (UART_BUFFER_SIZE - tx_count u) bs)"
  using assms
proof (induction bs arbitrary: u)
  case (Cons b bs)
  show ?case
  proof (cases "tx_count u \<ge> UART_BUFFER_SIZE")
    case False
    let ?u = "u\<lparr>tx_buffer := (tx_buffer u)[tx_count u := b], tx_count := tx_count u + 1\<rparr>"
    have "Suc (UART_BUFFER_SIZE - Suc (tx_count u)) = UART_BUFFER_SIZE - tx_count u" using False by simp
    then show ?thesis
      using Cons.IH [of ?u] False Cons.prems
      by (auto simp: Let_def case_prod_beta take_Suc_conv_app_nth take_Cons' min_def split: if_splits)
  qed (use Cons.prems in simp)
qed simp

text \<open>
  On a port just opened over the recording driver, a write sends its bytes in order. It reports success
  exactly when all fit into the driver's buffer of 256; otherwise it reports an I/O error although the first
  256 bytes were sent.
\<close>
theorem uart_write_sends:
  assumes "length (uart_handles s) = 4" and "0 \<le> p" "p < 4" and "0 < baud"
    and "length (tx_buffer (mock_uart (hal_world s) (nat p))) = UART_BUFFER_SIZE"
  shows "\<exists>t. bnd (v4_hal_uart_init (mock_hal i d) p baud) (\<lambda>_. v4_hal_uart_write (mock_hal i d) p (Some bs) (int (length bs))) s =
      Ret (if length bs \<le> 256 then HAL_ERR HAL_OK else HAL_ERR HAL_IO) t \<and>
    mock_hal_uart_get_tx p (hal_world t) = Some (take 256 bs)"
proof -
  obtain t where t: "v4_hal_uart_init (mock_hal i d) p baud s = Ret (HAL_ERR HAL_OK) t" "handle_of t p = Some (nat p)"
      "u_initialized (mock_uart (hal_world t) (nat p))" "tx_count (mock_uart (hal_world t) (nat p)) = 0"
      "tx_buffer (mock_uart (hal_world t) (nat p)) = tx_buffer (mock_uart (hal_world s) (nat p))"
    by (rule mock_init_run [OF assms(1-4)]) auto
  obtain n u where n: "tx_bytes bs (mock_uart (hal_world t) (nat p)) = (n, u)" by fastforce
  then have "n = min (length bs) 256" and "take (tx_count u) (tx_buffer u) = take 256 bs"
    using tx_bytes_outcome [of "mock_uart (hal_world t) (nat p)" bs] t(4,5) assms(5) by (auto simp: UART_BUFFER_SIZE_def)
  then show ?thesis
    using t(1-3) n assms(2,3)
    by (auto simp: v4_hal_uart_write_def mock_uart_write_def mock_hal_uart_get_tx_def MAX_UART_PORTS_def simp del: HAL_ERR.simps)
qed

theorem uart_write_sends_witness:
  "\<exists>t. bnd (v4_hal_uart_init sample_hal 2 9600) (\<lambda>_. v4_hal_uart_write sample_hal 2 (Some [72, 105]) 2) (fresh_hal mock_hal_reset) =
    Ret 0 t \<and> mock_hal_uart_get_tx 2 (hal_world t) = Some [72, 105]"
  using uart_write_sends [of "fresh_hal mock_hal_reset" 2 9600 _ _ "[72, 105]"] unfolding sample_hal_def
  by (simp add: fresh_hal_def mock_hal_reset_def zero_uart_def)

text \<open>Reading a port in pieces of the given sizes.\<close>

primrec read_pieces :: "('w, 'h) hal \<Rightarrow> int \<Rightarrow> nat list \<Rightarrow> (('w, 'h) hal_state, u8 list list) act" where
  "read_pieces H port [] = Ret []"
| "read_pieces H port (n # ns) = bnd (v4_hal_uart_read H port (Some n) (int n) True)
     (\<lambda>(e, bs, len). if e \<noteq> HAL_ERR HAL_OK then Fail e else bnd (read_pieces H port ns) (\<lambda>bss. Ret (bs # bss)))"

text \<open>The bytes that arrived and were not read yet.\<close>

definition rx_left :: "MockUartState \<Rightarrow> u8 list" where
  "rx_left u = take (rx_count u - rx_pos u) (drop (rx_pos u) (rx_buffer u))"

lemma mock_read:
  assumes "handle_of s p = Some h" and "u_initialized (mock_uart (hal_world s) h)"
  obtains t where "v4_hal_uart_read (mock_hal i d) p (Some n) (int n) True s =
      Ret (HAL_ERR HAL_OK, take n (rx_left (mock_uart (hal_world s) h)), Some (int (min (rx_count (mock_uart (hal_world s) h) -
        rx_pos (mock_uart (hal_world s) h)) n))) t"
    "handle_of t p = Some h" "u_initialized (mock_uart (hal_world t) h)"
    "rx_left (mock_uart (hal_world t) h) = drop n (rx_left (mock_uart (hal_world s) h))"
proof -
  define u where "u = mock_uart (hal_world s) h"
  define k where "k = (if rx_count u - rx_pos u < n then rx_count u - rx_pos u else n)"
  let ?v = "u\<lparr>rx_pos := rx_pos u + k\<rparr>"
  let ?t = "s\<lparr>hal_world := (hal_world s)\<lparr>mock_uart := (mock_uart (hal_world s))(h := ?v)\<rparr>\<rparr>"
  have k': "int k = int (min (rx_count u - rx_pos u) n)" by (simp add: k_def)
  have bytes: "take k (drop (rx_pos u) (rx_buffer u)) = take n (rx_left u)" by (simp add: rx_left_def k_def min_def)
  have "mock_uart_read h n (hal_world s) = ((int k, take k (drop (rx_pos u) (rx_buffer u))), hal_world ?t)"
    using assms(2) by (simp add: mock_uart_read_def Let_def u_def [symmetric] k_def [symmetric])
  then have "v4_hal_uart_read (mock_hal i d) p (Some n) (int n) True s = Ret (HAL_ERR HAL_OK, take n (rx_left u), Some (int k)) ?t"
    using assms(1) unfolding bytes by (simp add: v4_hal_uart_read_def)
  moreover have "rx_left ?v = drop n (rx_left u)"
    by (auto simp: rx_left_def k_def drop_take add.commute)
  ultimately show ?thesis
    using that [of ?t] assms unfolding k' by (simp add: u_def)
qed

lemma read_pieces_left:
  assumes "handle_of s p = Some h" and "u_initialized (mock_uart (hal_world s) h)"
  shows "\<exists>bss t. read_pieces (mock_hal i d) p ns s = Ret bss t \<and>
    concat bss = take (sum_list ns) (rx_left (mock_uart (hal_world s) h))"
  using assms
proof (induction ns arbitrary: s)
  case (Cons n ns)
  obtain t where t: "v4_hal_uart_read (mock_hal i d) p (Some n) (int n) True s =
      Ret (HAL_ERR HAL_OK, take n (rx_left (mock_uart (hal_world s) h)), Some (int (min (rx_count (mock_uart (hal_world s) h) -
        rx_pos (mock_uart (hal_world s) h)) n))) t"
    "handle_of t p = Some h" "u_initialized (mock_uart (hal_world t) h)"
    "rx_left (mock_uart (hal_world t) h) = drop n (rx_left (mock_uart (hal_world s) h))"
    by (rule mock_read [OF Cons.prems])
  from Cons.IH [OF t(2,3)] obtain bss v where v: "read_pieces (mock_hal i d) p ns t = Ret bss v"
    "concat bss = take (sum_list ns) (drop n (rx_left (mock_uart (hal_world s) h)))" unfolding t(4) by blast
  have "read_pieces (mock_hal i d) p (n # ns) s = Ret (take n (rx_left (mock_uart (hal_world s) h)) # bss) v"
    using t(1) v(1) by simp
  then show ?case using v(2) by (simp add: take_add)
qed simp

text \<open>
  Bytes that arrived at an open port are read in order and none twice, in pieces of any sizes: together
  the pieces are the first bytes of what arrived, up to the sum of the sizes.
\<close>
theorem uart_read_stream:
  assumes "handle_of s p = Some (nat p)" and "u_initialized (mock_uart (hal_world s) (nat p))"
    and "0 \<le> p" and "p < 4" and "length (rx_buffer (mock_uart (hal_world s) (nat p))) = 256" and "length data \<le> 256"
  shows "\<exists>bss t. read_pieces (mock_hal i d) p ns (s\<lparr>hal_world := mock_hal_uart_inject_rx p data (hal_world s)\<rparr>) = Ret bss t \<and>
    concat bss = take (sum_list ns) data"
proof -
  let ?t = "s\<lparr>hal_world := mock_hal_uart_inject_rx p data (hal_world s)\<rparr>"
  have "rx_left (mock_uart (hal_world ?t) (nat p)) = data"
    using assms(3-6) by (simp add: mock_hal_uart_inject_rx_def Let_def MAX_UART_PORTS_def UART_BUFFER_SIZE_def rx_left_def)
  moreover have "u_initialized (mock_uart (hal_world ?t) (nat p))"
    using assms(2-4) by (simp add: mock_hal_uart_inject_rx_def Let_def MAX_UART_PORTS_def)
  ultimately show ?thesis using read_pieces_left [of ?t p "nat p" i d ns] assms(1) by simp
qed

theorem uart_read_stream_witness:
  "\<exists>t u v. v4_hal_uart_init sample_hal 1 9600 (fresh_hal mock_hal_reset) = Ret 0 t \<and>
    read_pieces sample_hal 1 [1, 4] (t\<lparr>hal_world := mock_hal_uart_inject_rx 1 [72, 105, 33] (hal_world t)\<rparr>) = Ret u v \<and>
    concat u = [72, 105, 33]"
proof -
  have "length (uart_handles (fresh_hal mock_hal_reset :: (mock, nat) hal_state)) = 4" by (simp add: fresh_hal_def)
  then obtain t where t: "v4_hal_uart_init sample_hal 1 9600 (fresh_hal mock_hal_reset) = Ret (HAL_ERR HAL_OK) t"
      "handle_of t 1 = Some (nat 1)" "u_initialized (mock_uart (hal_world t) (nat 1))"
      "rx_buffer (mock_uart (hal_world t) (nat 1)) = rx_buffer (mock_uart mock_hal_reset (nat 1))"
    unfolding sample_hal_def by (rule mock_init_run [where p = 1 and baud = 9600]) (auto simp: fresh_hal_def)
  have "length (rx_buffer (mock_uart (hal_world t) (nat 1))) = 256"
    unfolding t(4) by (simp add: mock_hal_reset_def zero_uart_def UART_BUFFER_SIZE_def)
  from uart_read_stream [OF t(2,3) _ _ this, of "[72, 105, 33]" _ _ "[1, 4]"] t(1) show ?thesis
    unfolding sample_hal_def by fastforce
qed

end
