(* ===== verification/V4_Freertos.thy ===== *)
theory V4_Freertos
  imports V4_Tasks
begin

text \<open>
  The task backend over FreeRTOS, \<^verbatim>\<open>src/task_backend_freertos.cpp\<close>, the alternative to the custom backend. The
  kernel is not part of the repository: its functions are the fields of a record and act on the whole
  state, because other tasks may run inside a call that blocks, yields or creates a task. The statics
  \<open>task_handles\<close> and \<open>msg_queue\<close> of the file extend the machine.
\<close>

section \<open>State\<close>

text \<open>A null handle is \<^term>\<open>None\<close>; \<open>'h\<close> and \<open>'q\<close> are the handles of tasks and of queues.\<close>

record ('d, 'h, 'q) frt = "'d machine" +
  task_handles :: "'h option list"
  queue_handle :: "'q option"

text \<open>
  The kernel: the configuration constants, and the functions in the file's order. \<open>xTaskCreate\<close> gets the
  stack depth, the parameters for the wrapper (word index and task id), the priority and the index in
  \<open>task_handles\<close> it stores the new handle at; \<open>vTaskDelete\<close> gets \<^term>\<open>None\<close> for the calling task itself. A
  boolean is \<open>pdPASS\<close>, or that memory was granted.
\<close>

record ('d, 'h, 'q) rtos =
  configMAX_PRIORITIES :: int
  portMAX_DELAY :: u32
  sizeof_StackType_t :: nat
  pdMS_TO_TICKS :: "u32 \<Rightarrow> u32"
  xQueueCreate :: "nat \<Rightarrow> ('d, 'h, 'q) frt \<Rightarrow> 'q option \<times> ('d, 'h, 'q) frt"
  vQueueDelete :: "'q \<Rightarrow> ('d, 'h, 'q) frt \<Rightarrow> ('d, 'h, 'q) frt"
  xQueueSend :: "'q \<Rightarrow> v4_message_t \<Rightarrow> ('d, 'h, 'q) frt \<Rightarrow> bool \<times> ('d, 'h, 'q) frt"
  xQueueReceive :: "'q \<Rightarrow> u32 \<Rightarrow> ('d, 'h, 'q) frt \<Rightarrow> v4_message_t option \<times> ('d, 'h, 'q) frt"
  pvPortMalloc :: "('d, 'h, 'q) frt \<Rightarrow> bool \<times> ('d, 'h, 'q) frt"
  vPortFree :: "('d, 'h, 'q) frt \<Rightarrow> ('d, 'h, 'q) frt"
  xTaskCreate :: "nat \<Rightarrow> u16 \<times> u8 \<Rightarrow> int \<Rightarrow> nat \<Rightarrow> ('d, 'h, 'q) frt \<Rightarrow> bool \<times> ('d, 'h, 'q) frt"
  vTaskDelete :: "'h option \<Rightarrow> ('d, 'h, 'q) frt \<Rightarrow> ('d, 'h, 'q) frt"
  vTaskDelay :: "u32 \<Rightarrow> ('d, 'h, 'q) frt \<Rightarrow> ('d, 'h, 'q) frt"
  taskYIELD :: "('d, 'h, 'q) frt \<Rightarrow> ('d, 'h, 'q) frt"
  portYIELD_FROM_ISR :: "bool \<Rightarrow> ('d, 'h, 'q) frt \<Rightarrow> ('d, 'h, 'q) frt"
  xTaskGetCurrentTaskHandle :: "('d, 'h, 'q) frt \<Rightarrow> 'h option"

definition V4_TO_FREERTOS_PRIORITY :: "('d, 'h, 'q) rtos \<Rightarrow> u8 \<Rightarrow> int" where
  "V4_TO_FREERTOS_PRIORITY R v4_prio = (uint v4_prio * (configMAX_PRIORITIES R - 1)) div 255"

text \<open>Every function of the file begins with the check of the VM pointer.\<close>

definition fr_checked :: "(('d, 'h, 'q) frt, int) act \<Rightarrow> (('d, 'h, 'q) frt option, int) act" where
  "fr_checked m = null_checked (V4_ERR InvalidArg) m"

section \<open>Tasks\<close>

definition fr_task_init :: "('d, 'h, 'q) rtos \<Rightarrow> u32 \<Rightarrow> (('d, 'h, 'q) frt, v4_err) act" where
  "fr_task_init R ms s =
    (let s1 = s\<lparr>scheduler := zero_scheduler\<lparr>time_slice_ms := (if ms > 0 then ms else 10),
           tasks := map (\<lambda>t. t\<lparr>t_state := DEAD\<rparr>) (tasks zero_scheduler)\<rparr>,
           task_handles := replicate V4_MAX_TASKS None\<rparr>
     in case xQueueCreate R V4_MSG_QUEUE_SIZE s1 of (q, s2) \<Rightarrow>
       Ret (if q = None then V4_ERR NoMemory else V4_ERR OK) (s2\<lparr>queue_handle := q\<rparr>))"

definition mark_dead :: "nat \<Rightarrow> ('d, 'h, 'q) frt \<Rightarrow> ('d, 'h, 'q) frt" where
  "mark_dead i s = set_task i ((task_at s i)\<lparr>t_state := DEAD\<rparr>) s"

text \<open>
  Deleting the calling task does not return. The loop over the handles gives whether it came to its end,
  and so does every function below whose result is an option.
\<close>

primrec delete_tasks :: "('d, 'h, 'q) rtos \<Rightarrow> nat list \<Rightarrow> ('d, 'h, 'q) frt \<Rightarrow> bool \<times> ('d, 'h, 'q) frt" where
  "delete_tasks R [] s = (True, s)"
| "delete_tasks R (i # is) s = (case task_handles s ! i of
      None \<Rightarrow> delete_tasks R is (mark_dead i s)
    | Some h \<Rightarrow>
        (let s1 = vTaskDelete R (Some h) s in
         if xTaskGetCurrentTaskHandle R s = Some h then (False, s1)
         else delete_tasks R is (mark_dead i (s1\<lparr>task_handles := (task_handles s1)[i := None]\<rparr>))))"

definition fr_task_cleanup :: "('d, 'h, 'q) rtos \<Rightarrow> (('d, 'h, 'q) frt, v4_err option) act" where
  "fr_task_cleanup R s = (case delete_tasks R [0..<V4_MAX_TASKS] s of (returned, s1) \<Rightarrow>
     if \<not> returned then Ret None s1
     else (let s2 = (case queue_handle s1 of None \<Rightarrow> s1 | Some q \<Rightarrow> (vQueueDelete R q s1)\<lparr>queue_handle := None\<rparr>)
       in Ret (Some (V4_ERR OK)) (s2\<lparr>scheduler := (scheduler s2)\<lparr>task_count := 0\<rparr>\<rparr>)))"

text \<open>
  What a created task runs. The call of \<open>vm_exec\<close> is a comment in the source: between the two changes of
  the task's state nothing is executed.
\<close>

definition v4_freertos_task_wrapper :: "('d, 'h, 'q) rtos \<Rightarrow> u16 \<times> u8 \<Rightarrow> ('d, 'h, 'q) frt \<Rightarrow> ('d, 'h, 'q) frt" where
  "v4_freertos_task_wrapper R params s = (case params of (word_idx, task_id) \<Rightarrow>
     let i = unat task_id;
         s1 = s\<lparr>scheduler := (scheduler s)\<lparr>current_task := task_id\<rparr>\<rparr>;
         s2 = set_task i ((task_at s1 i)\<lparr>t_state := RUNNING\<rparr>) s1;
         s3 = mark_dead i s2;
         s4 = s3\<lparr>scheduler := (scheduler s3)\<lparr>task_count := task_count (scheduler s3) - 1\<rparr>\<rparr>
     in vTaskDelete R None s4)"

definition fr_task_spawn ::
    "('d, 'h, 'q) rtos \<Rightarrow> u16 \<Rightarrow> u8 \<Rightarrow> u16 \<Rightarrow> u16 \<Rightarrow> (('d, 'h, 'q) frt, int) act" where
  "fr_task_spawn R word_idx priority dsz rsz s =
    (if uint word_idx \<ge> word_count s then Ret (V4_ERR InvalidWordIdx) s
     else (case free_slot s of
         None \<Rightarrow> Ret (V4_ERR TaskLimit) s
       | Some i \<Rightarrow>
           (let d = (if dsz = 0 then 256 else dsz); r = (if rsz = 0 then 64 else rsz);
                s1 = set_task i ((task_at s i)\<lparr>t_word_idx := word_idx, t_priority := priority, ds_size := ucast d,
                  rs_size := ucast r, t_state := READY\<rparr>) s
            in case pvPortMalloc R s1 of (granted, s2) \<Rightarrow>
              if \<not> granted then Ret (V4_ERR NoMemory) s2
              else (case xTaskCreate R ((unat d + unat r) * 4 div sizeof_StackType_t R) (word_idx, word_of_nat i)
                  (V4_TO_FREERTOS_PRIORITY R priority) i s2 of (pass, s3) \<Rightarrow>
                if \<not> pass then Ret (V4_ERR NoMemory) (mark_dead i (vPortFree R s3))
                else Ret (int i) (s3\<lparr>scheduler := (scheduler s3)\<lparr>task_count := task_count (scheduler s3) + 1\<rparr>\<rparr>)))))"

definition fr_task_exit :: "('d, 'h, 'q) rtos \<Rightarrow> (('d, 'h, 'q) frt, v4_err option) act" where
  "fr_task_exit R s =
    (let i = cur_index s; s1 = mark_dead i s;
         s2 = s1\<lparr>scheduler := (scheduler s1)\<lparr>task_count := task_count (scheduler s1) - 1\<rparr>\<rparr>
     in if task_handles s2 ! i \<noteq> None
        then Ret None (vTaskDelete R None (s2\<lparr>task_handles := (task_handles s2)[i := None]\<rparr>))
        else Ret (Some (V4_ERR OK)) s2)"

definition fr_task_sleep :: "('d, 'h, 'q) rtos \<Rightarrow> u32 \<Rightarrow> (('d, 'h, 'q) frt, v4_err) act" where
  "fr_task_sleep R ms_delay s =
    (let i = cur_index s; s1 = set_task i ((task_at s i)\<lparr>t_state := BLOCKED\<rparr>) s;
         s2 = vTaskDelay R (pdMS_TO_TICKS R ms_delay) s1
     in Ret (V4_ERR OK) (set_task i ((task_at s2 i)\<lparr>t_state := READY\<rparr>) s2))"

definition fr_task_yield :: "('d, 'h, 'q) rtos \<Rightarrow> (('d, 'h, 'q) frt, v4_err) act" where
  "fr_task_yield R s = Ret (V4_ERR OK) (taskYIELD R s)"

definition fr_task_current :: "('d, 'h, 'q) rtos \<Rightarrow> ('d, 'h, 'q) frt \<Rightarrow> u8" where
  "fr_task_current R s = (case find (\<lambda>i. task_handles s ! i = xTaskGetCurrentTaskHandle R s) [0..<V4_MAX_TASKS] of
      Some i \<Rightarrow> word_of_nat i
    | None \<Rightarrow> 0)"

definition fr_task_get_state :: "u8 \<Rightarrow> ('d, 'h, 'q) frt option \<Rightarrow> v4_err \<times> v4_task_state_t option" where
  "fr_task_get_state task_id vm = (case vm of
      None \<Rightarrow> (V4_ERR InvalidArg, None)
    | Some s \<Rightarrow> if unat task_id \<ge> V4_MAX_TASKS then (V4_ERR InvalidArg, None)
        else (V4_ERR OK, Some (t_state (task_at s (unat task_id)))))"

section \<open>Messages\<close>

definition fr_task_send :: "('d, 'h, 'q) rtos \<Rightarrow> u8 \<Rightarrow> u8 \<Rightarrow> i32 \<Rightarrow> (('d, 'h, 'q) frt, v4_err) act" where
  "fr_task_send R dst mt data s =
    (if unat dst \<ge> V4_MAX_TASKS \<and> dst \<noteq> 0xFF then Ret (V4_ERR InvalidArg) s
     else (case queue_handle s of
         None \<Rightarrow> Ret (V4_ERR InvalidArg) s
       | Some q \<Rightarrow> (case xQueueSend R q
             \<lparr>src_task = fr_task_current R s, dst_task = dst, msg_type = mt, m_flags = 0, m_data = data\<rparr> s of
           (pass, s1) \<Rightarrow> Ret (if pass then V4_ERR OK else V4_ERR MsgQueueFull) s1)))"

text \<open>
  Both receives take the first message of the queue, and give up when it does not match, without
  putting it back. The result is the code and what is stored through the output pointers.
\<close>

definition received :: "u8 \<Rightarrow> u8 \<Rightarrow> v4_message_t option \<times> ('d, 'h, 'q) frt \<Rightarrow> (('d, 'h, 'q) frt, int \<times> (i32 \<times> u8) option) res" where
  "received cur mt r = (case r of
      (None, s) \<Rightarrow> Ret (0, None) s
    | (Some m, s) \<Rightarrow> if message_matches cur mt m then Ret (1, Some (m_data m, src_task m)) s else Ret (0, None) s)"

definition fr_task_receive :: "('d, 'h, 'q) rtos \<Rightarrow> u8 \<Rightarrow> (('d, 'h, 'q) frt, int \<times> (i32 \<times> u8) option) act" where
  "fr_task_receive R mt s = (case queue_handle s of
      None \<Rightarrow> Ret (0, None) s
    | Some q \<Rightarrow> received (fr_task_current R s) mt (xQueueReceive R q 0 s))"

definition fr_task_receive_blocking ::
    "('d, 'h, 'q) rtos \<Rightarrow> u8 \<Rightarrow> u32 \<Rightarrow> (('d, 'h, 'q) frt, int \<times> (i32 \<times> u8) option) act" where
  "fr_task_receive_blocking R mt timeout_ms s = (case queue_handle s of
      None \<Rightarrow> Ret (0, None) s
    | Some q \<Rightarrow> received (fr_task_current R s) mt
        (xQueueReceive R q (if timeout_ms > 0 then pdMS_TO_TICKS R timeout_ms else portMAX_DELAY R) s))"

definition fr_schedule :: "('d, 'h, 'q) rtos \<Rightarrow> (('d, 'h, 'q) frt, v4_err) act" where
  "fr_schedule R s = Ret (V4_ERR OK) (taskYIELD R s)"

definition fr_schedule_from_isr :: "('d, 'h, 'q) rtos \<Rightarrow> (('d, 'h, 'q) frt, v4_err) act" where
  "fr_schedule_from_isr R s = Ret (V4_ERR OK) (portYIELD_FROM_ISR R False s)"

end
