(* ===== verification/V4_Freertos_Props.thy ===== *)
theory V4_Freertos_Props
  imports V4_Freertos V4_Data_Props
begin

text \<open>Properties of the FreeRTOS backend, under what the kernel documents about its functions.\<close>

section \<open>A kernel for the witnesses\<close>

text \<open>The world is the list of queued messages; memory is granted or not; no other task runs.\<close>

definition sample_rtos :: "bool \<Rightarrow> (v4_message_t list, nat, unit) rtos" where
  "sample_rtos mem_ok = \<lparr>configMAX_PRIORITIES = 25, portMAX_DELAY = - 1, sizeof_StackType_t = 1, pdMS_TO_TICKS = (\<lambda>ms. ms),
     xQueueCreate = (\<lambda>n s. (Some (), s\<lparr>world := []\<rparr>)), vQueueDelete = (\<lambda>q s. s),
     xQueueSend = (\<lambda>q m s. if length (world s) < V4_MSG_QUEUE_SIZE then (True, s\<lparr>world := world s @ [m]\<rparr>) else (False, s)),
     xQueueReceive = (\<lambda>q ticks s. case world s of [] \<Rightarrow> (None, s) | m # ms \<Rightarrow> (Some m, s\<lparr>world := ms\<rparr>)),
     pvPortMalloc = (\<lambda>s. (mem_ok, s)), vPortFree = (\<lambda>s. s),
     xTaskCreate = (\<lambda>depth params prio i s. (True, s\<lparr>task_handles := (task_handles s)[i := Some i]\<rparr>)),
     vTaskDelete = (\<lambda>h s. s), vTaskDelay = (\<lambda>ticks s. s), taskYIELD = (\<lambda>s. s), portYIELD_FROM_ISR = (\<lambda>b s. s),
     xTaskGetCurrentTaskHandle = (\<lambda>s. Some (cur_index s))\<rparr>"

definition fr_vm :: "v4_message_t list \<Rightarrow> (v4_message_t list, nat, unit) frt" where
  "fr_vm ms = machine.extend ((zero_vm ms)\<lparr>word_count := 1\<rparr>) (frt.fields (replicate 8 None) (Some ()))"

lemma fr_vm_simps [simp]:
  "scheduler (fr_vm ms) = zero_scheduler" "word_count (fr_vm ms) = 1" "world (fr_vm ms) = ms"
  "task_handles (fr_vm ms) = replicate 8 None" "queue_handle (fr_vm ms) = Some ()"
  by (simp_all add: fr_vm_def frt.defs machine.defs zero_vm_def)

section \<open>Priorities\<close>

text \<open>
  The mapping of the 256 priorities of V4 to those of the kernel stays within the kernel's range, keeps the
  order, and takes the lowest to the lowest and the highest to the highest. It is not injective below 256
  kernel priorities: with 25 of them, V4 priorities 0 to 10 all become 0.
\<close>
theorem priority_mapping:
  assumes "1 \<le> configMAX_PRIORITIES R"
  shows "0 \<le> V4_TO_FREERTOS_PRIORITY R p \<and> V4_TO_FREERTOS_PRIORITY R p \<le> configMAX_PRIORITIES R - 1 \<and>
    (p \<le> p' \<longrightarrow> V4_TO_FREERTOS_PRIORITY R p \<le> V4_TO_FREERTOS_PRIORITY R p') \<and>
    V4_TO_FREERTOS_PRIORITY R 0 = 0 \<and> V4_TO_FREERTOS_PRIORITY R 255 = configMAX_PRIORITIES R - 1 \<and>
    (configMAX_PRIORITIES R = 25 \<and> p \<le> 10 \<longrightarrow> V4_TO_FREERTOS_PRIORITY R p = 0)"
proof -
  let ?m = "configMAX_PRIORITIES R - 1"
  have m: "0 \<le> ?m" using assms by simp
  have p: "0 \<le> uint p" "uint p \<le> 255" using uint_bounded [of p] by simp_all
  have "uint p * ?m div 255 \<le> 255 * ?m div 255" by (intro zdiv_mono1 mult_right_mono) (use m p in auto)
  then have "uint p * ?m div 255 \<le> ?m" by simp
  moreover have "0 \<le> uint p * ?m div 255" using m p by (simp add: pos_imp_zdiv_nonneg_iff)
  moreover have "uint p * ?m div 255 \<le> uint p' * ?m div 255" if "p \<le> p'"
    by (intro zdiv_mono1 mult_right_mono) (use that m in \<open>auto simp: word_le_def\<close>)
  moreover have "uint p * ?m div 255 = 0" if "configMAX_PRIORITIES R = 25" "p \<le> 10"
    using that p by (simp add: word_le_def)
  ultimately show ?thesis by (simp add: V4_TO_FREERTOS_PRIORITY_def)
qed

theorem priority_mapping_witness:
  "V4_TO_FREERTOS_PRIORITY (sample_rtos True) 255 = 24 \<and> V4_TO_FREERTOS_PRIORITY (sample_rtos True) 7 = 0"
  using priority_mapping [of "sample_rtos True" 7 7] by (simp add: sample_rtos_def)

section \<open>Messages\<close>

text \<open>
  What the kernel documents about taking from a queue: the oldest message if there is one, at once, whatever
  the time to wait; nothing from an empty queue when not told to wait. \<open>content\<close> reads the queue.
\<close>

definition takes_oldest :: "('d, 'h, 'q) rtos \<Rightarrow> 'q \<Rightarrow> (('d, 'h, 'q) frt \<Rightarrow> v4_message_t list) \<Rightarrow> bool" where
  "takes_oldest R q content \<longleftrightarrow> (\<forall>s ticks. case content s of
      [] \<Rightarrow> ticks = 0 \<longrightarrow> (\<exists>t. xQueueReceive R q ticks s = (None, t) \<and> content t = [])
    | m # ms \<Rightarrow> \<exists>t. xQueueReceive R q ticks s = (Some m, t) \<and> content t = ms)"

lemma takes_oldestD:
  assumes "takes_oldest R q content"
  shows takes_none: "content s = [] \<Longrightarrow> \<exists>t. xQueueReceive R q 0 s = (None, t) \<and> content t = []"
    and takes_first: "content s = m # ms \<Longrightarrow> \<exists>t. xQueueReceive R q ticks s = (Some m, t) \<and> content t = ms"
proof -
  have "case content s of [] \<Rightarrow> ticks = 0 \<longrightarrow> (\<exists>t. xQueueReceive R q ticks s = (None, t) \<and> content t = [])
      | m # ms \<Rightarrow> \<exists>t. xQueueReceive R q ticks s = (Some m, t) \<and> content t = ms" for ticks
    using assms unfolding takes_oldest_def by blast
  note this [of 0] this [of ticks]
  then show "content s = [] \<Longrightarrow> \<exists>t. xQueueReceive R q 0 s = (None, t) \<and> content t = []"
    and "content s = m # ms \<Longrightarrow> \<exists>t. xQueueReceive R q ticks s = (Some m, t) \<and> content t = ms" by simp_all
qed

text \<open>C30: a receive looks at the oldest message only and takes it out of the queue in any case. If it is for another
  task or of another type, the caller is told there was none, and the message is gone although nobody got
  it; a message for the caller further behind is not found.
\<close>
theorem fr_receive_outcome:
  assumes "queue_handle s = Some q" and "takes_oldest R q content"
  shows "case content s of
      [] \<Rightarrow> \<exists>t. fr_task_receive R mt s = Ret (0, None) t \<and> content t = []
    | m # ms \<Rightarrow> \<exists>t t'. let r = (if message_matches (fr_task_current R s) mt m then (1, Some (m_data m, src_task m)) else (0, None)) in
        fr_task_receive R mt s = Ret r t \<and> content t = ms \<and> fr_task_receive_blocking R mt ms_to_wait s = Ret r t' \<and> content t' = ms"
proof (cases "content s")
  case Nil
  then obtain t where "xQueueReceive R q 0 s = (None, t)" "content t = []"
    using takes_none [OF assms(2)] by blast
  then show ?thesis using Nil assms(1) by (simp add: fr_task_receive_def received_def)
next
  case (Cons m ms)
  have take: "\<exists>t. xQueueReceive R q ticks s = (Some m, t) \<and> content t = ms" for ticks
    by (rule takes_first [OF assms(2) Cons])
  obtain t t' where "xQueueReceive R q 0 s = (Some m, t)" "content t = ms"
      "xQueueReceive R q (if ms_to_wait > 0 then pdMS_TO_TICKS R ms_to_wait else portMAX_DELAY R) s = (Some m, t')" "content t' = ms"
    using take [of 0] take [of "if ms_to_wait > 0 then pdMS_TO_TICKS R ms_to_wait else portMAX_DELAY R"] by blast
  then show ?thesis
    using Cons assms(1) by (simp add: fr_task_receive_def fr_task_receive_blocking_def received_def)
qed

theorem fr_receive_outcome_witness:
  "\<exists>t. fr_task_receive (sample_rtos True) 0 (fr_vm [\<lparr>src_task = 1, dst_task = 2, msg_type = 1, m_flags = 0, m_data = 9\<rparr>]) = Ret (0, None) t \<and>
    world t = []"
proof -
  let ?s = "fr_vm [\<lparr>src_task = 1, dst_task = 2, msg_type = 1, m_flags = 0, m_data = 9\<rparr>]"
  have fifo: "takes_oldest (sample_rtos True) () world"
    by (auto simp: takes_oldest_def sample_rtos_def split: list.split)
  have "fr_task_current (sample_rtos True) ?s = 0"
    by (simp add: fr_task_current_def sample_rtos_def V4_MAX_TASKS_def upt_conv_Cons)
  then have "\<not> message_matches (fr_task_current (sample_rtos True) ?s) 0 \<lparr>src_task = 1, dst_task = 2, msg_type = 1, m_flags = 0, m_data = 9\<rparr>"
    by (simp add: message_matches_def)
  with fr_receive_outcome [of ?s "()" "sample_rtos True" world 0, OF _ fifo] show ?thesis by (auto simp: Let_def)
qed

section \<open>Spawning without memory\<close>

primrec fr_spawns :: "('d, 'h, 'q) rtos \<Rightarrow> u16 \<Rightarrow> u8 \<Rightarrow> nat \<Rightarrow> (('d, 'h, 'q) frt, int list) act" where
  "fr_spawns R w p 0 = Ret []"
| "fr_spawns R w p (Suc n) = bnd (fr_task_spawn R w p 0 0) (\<lambda>c. bnd (fr_spawns R w p n) (\<lambda>cs. Ret (c # cs)))"

definition dead_slots :: "('d, 'm) Vm_scheme \<Rightarrow> nat set" where
  "dead_slots s = {i. i < V4_MAX_TASKS \<and> t_state (task_at s i) = DEAD}"

lemma finite_dead_slots [simp]: "finite (dead_slots s)"
  by (simp add: dead_slots_def)

lemma dead_slots_ready:
  assumes "length (tasks (scheduler s)) = V4_MAX_TASKS" and "t_state x = READY"
  shows "dead_slots (set_task i x s) = dead_slots s - {i}"
proof -
  have "t_state (task_at (set_task i x s) j) = DEAD \<longleftrightarrow> j \<noteq> i \<and> t_state (task_at s j) = DEAD" if "j < V4_MAX_TASKS" for j
    using assms that by (cases "j = i") (simp_all add: task_at_def set_task_def)
  then show ?thesis by (auto simp: dead_slots_def)
qed

lemma free_slot_dead: "free_slot s = None \<longleftrightarrow> dead_slots s = {}" "free_slot s = Some i \<Longrightarrow> i \<in> dead_slots s"
  by (auto simp: free_slot_def dead_slots_def find_upt_None_iff find_upt_Some_iff)

text \<open>C37: when the kernel has no memory, every spawn reports it but keeps its slot: the task stays marked ready
  although there is none. With \<open>k\<close> free slots, \<open>k\<close> failures use them all up, and every later spawn reports
  a full table, while the count of tasks and the table of handles never changed.
\<close>
theorem failed_spawns_use_up_slots:
  assumes "\<forall>s. pvPortMalloc R s = (False, s)"
    and "length (tasks (scheduler s)) = V4_MAX_TASKS" and "uint w < word_count s"
  shows "\<exists>t. fr_spawns R w p n s = Ret (replicate (min n (card (dead_slots s))) (V4_ERR NoMemory) @
      replicate (n - card (dead_slots s)) (V4_ERR TaskLimit)) t \<and>
    task_count (scheduler t) = task_count (scheduler s) \<and> task_handles t = task_handles s"
  using assms(2,3)
proof (induction n arbitrary: s)
  case (Suc n)
  show ?case
  proof (cases "free_slot s")
    case None
    then have "fr_task_spawn R w p 0 0 s = Ret (V4_ERR TaskLimit) s" using Suc.prems by (simp add: fr_task_spawn_def)
    moreover have "card (dead_slots s) = 0" using None by (simp add: free_slot_dead(1))
    ultimately show ?thesis using Suc.IH [OF Suc.prems] by (auto simp del: V4_ERR.simps)
  next
    case (Some i)
    define x where "x = (task_at s i)\<lparr>t_word_idx := w, t_priority := p, ds_size := ucast (256 :: u16), rs_size := ucast (64 :: u16),
      t_state := READY\<rparr>"
    have run: "fr_task_spawn R w p 0 0 s = Ret (V4_ERR NoMemory) (set_task i x s)"
      using Suc.prems Some assms(1) by (simp add: fr_task_spawn_def x_def del: V4_ERR.simps)
    have slots: "dead_slots (set_task i x s) = dead_slots s - {i}" by (rule dead_slots_ready [OF Suc.prems(1)]) (simp add: x_def)
    obtain k where k: "card (dead_slots s) = Suc k" "card (dead_slots (set_task i x s)) = k"
      using free_slot_dead(2) [OF Some] unfolding slots by (metis card_Suc_Diff1 finite_dead_slots)
    have "length (tasks (scheduler (set_task i x s))) = V4_MAX_TASKS" "uint w < word_count (set_task i x s)"
      using Suc.prems by (simp_all add: set_task_def)
    from Suc.IH [OF this] obtain t where "fr_spawns R w p n (set_task i x s) = Ret (replicate (min n k) (V4_ERR NoMemory) @
        replicate (n - k) (V4_ERR TaskLimit)) t" "task_count (scheduler t) = task_count (scheduler (set_task i x s))"
        "task_handles t = task_handles (set_task i x s)" unfolding k(2) by blast
    then show ?thesis using run k(1) by (auto simp: set_task_def simp del: V4_ERR.simps)
  qed
qed simp

theorem failed_spawns_use_up_slots_witness:
  "\<exists>t. fr_spawns (sample_rtos False) 0 5 9 (fr_vm []) = Ret (replicate 8 (- 23) @ [- 20]) t \<and> task_count (scheduler t) = 0"
proof -
  have "dead_slots (fr_vm []) = {..<8}"
    by (auto simp: dead_slots_def task_at_def zero_scheduler_def V4_MAX_TASKS_def zero_task_def)
  moreover have "\<forall>s. pvPortMalloc (sample_rtos False) s = (False, s)" by (simp add: sample_rtos_def)
  ultimately show ?thesis
    using failed_spawns_use_up_slots [of "sample_rtos False" "fr_vm []" 0 5 9] by (auto simp: zero_scheduler_def numeral_eq_Suc)
qed

end
