(* ===== verification/V4_Bare_Metal.thy ===== *)
theory V4_Bare_Metal
  imports V4_Refine
begin

text \<open>
  The bare-metal programs for RISC-V in \<^verbatim>\<open>bare-metal/riscv32\<close>: the UART output of \<^verbatim>\<open>uart.h\<close>, and
  \<^verbatim>\<open>main.c\<close> and \<^verbatim>\<open>main_simple.c\<close>. \<^verbatim>\<open>main.c\<close> is a client of the whole engine: it creates a VM, assembles,
  registers and runs two words, checks the results, resets and destroys the VM. The lemmas show what
  \<open>print_int\<close> prints, and what a run of each program prints and returns.
\<close>

section \<open>The host\<close>

text \<open>
  What a program sees: the bytes written to the transmit register of the UART so far, its VM, the world of
  the environment \<open>E\<close>, and the names its VM has freed.
\<close>

record 'd host =
  serial :: string
  host_vm :: "'d machine option"
  outside :: 'd
  freed :: "name_ptr list"

definition uart_putc :: "char \<Rightarrow> ('d host, unit) act" where
  "uart_putc c h = Ret () (h\<lparr>serial := serial h @ [c]\<rparr>)"

fun uart_puts :: "string \<Rightarrow> ('d host, unit) act" where
  "uart_puts [] = Ret ()"
| "uart_puts (c # s) = (if c = CHR 0x00 then Ret () else bnd (uart_putc c) (\<lambda>_. uart_puts s))"

definition crlf :: string where "crlf = [CHR 0x0D, CHR 0x0A]"

section \<open>Printing a number\<close>

text \<open>The loop that fills \<open>buf\<close> from \<open>n\<close>, lowest digit first. \<open>buf\<close> has the digits written so far of its 12 bytes.\<close>

function fill_digits :: "int \<Rightarrow> string \<Rightarrow> ('s, string) act" where
  "fill_digits n buf =
    (if n > 0 then
       if length buf \<ge> 12 then (\<lambda>s. Undef OutOfBounds)
       else fill_digits (n div 10) (buf @ [char_of (48 + nat (n mod 10))])
     else Ret buf)"
  by pat_completeness auto

termination by (relation "measure (\<lambda>(n, buf). nat n)") auto

declare fill_digits.simps [simp del]

primrec put_back :: "string \<Rightarrow> nat \<Rightarrow> ('d host, unit) act" where
  "put_back buf 0 = Ret ()"
| "put_back buf (Suc i) = bnd (uart_putc (buf ! i)) (\<lambda>_. put_back buf i)"

definition print_int :: "i32 \<Rightarrow> ('d host, unit) act" where
  "print_int n =
    (if n = 0 then uart_putc (CHR ''0'')
     else bnd (if sint n < 0 then bnd (uart_putc (CHR ''-'')) (\<lambda>_. exactly (- sint n)) else Ret n)
       (\<lambda>n. bnd (fill_digits (sint n) []) (\<lambda>buf. put_back buf (length buf))))"

section \<open>Assembling\<close>

definition emit8 :: "u8 list \<Rightarrow> nat \<Rightarrow> u8 \<Rightarrow> ('s, u8 list \<times> nat) act" where
  "emit8 code k byte = (if k < length code then Ret (code[k := byte], k + 1) else (\<lambda>s. Undef OutOfBounds))"

definition emit32 :: "u8 list \<Rightarrow> nat \<Rightarrow> u32 \<Rightarrow> ('s, u8 list \<times> nat) act" where
  "emit32 code k val =
    bnd (emit8 code k (ucast (drop_bit 0 val AND 0xFF))) (\<lambda>(code, k).
    bnd (emit8 code k (ucast (drop_bit 8 val AND 0xFF))) (\<lambda>(code, k).
    bnd (emit8 code k (ucast (drop_bit 16 val AND 0xFF))) (\<lambda>(code, k).
      emit8 code k (ucast (drop_bit 24 val AND 0xFF)))))"

text \<open>The sequence both phases of \<open>main\<close> spell out: two literals, an operator and \<open>RET\<close>.\<close>

definition emit_binary :: "u8 list \<Rightarrow> u32 \<Rightarrow> u32 \<Rightarrow> u8 \<Rightarrow> ('s, u8 list \<times> nat) act" where
  "emit_binary code a b operator =
    bnd (emit8 code 0 0x00) (\<lambda>(code, k).
    bnd (emit32 code k a) (\<lambda>(code, k).
    bnd (emit8 code k 0x00) (\<lambda>(code, k).
    bnd (emit32 code k b) (\<lambda>(code, k).
    bnd (emit8 code k operator) (\<lambda>(code, k).
      emit8 code k 0x51)))))"

section \<open>The programs\<close>

text \<open>Calls of the engine.\<close>

definition on_vm :: "('d machine option, 'a) act \<Rightarrow> ('d host, 'a) act" where
  "on_vm m h = (case m (host_vm h) of
      Ret a v \<Rightarrow> Ret a (h\<lparr>host_vm := v\<rparr>)
    | Fail e v \<Rightarrow> Fail e (h\<lparr>host_vm := v\<rparr>)
    | Undef u \<Rightarrow> Undef u
    | Timeout \<Rightarrow> Timeout)"

definition create :: "'d env \<Rightarrow> nat \<Rightarrow> 'd VmConfig \<Rightarrow> ('d host, bool) act" where
  "create E vm_bytes cfg h = (case vm_create E vm_bytes (Some cfg) (outside h) of
      Ret v w \<Rightarrow> Ret (v \<noteq> None) (h\<lparr>host_vm := v, outside := w\<rparr>)
    | Fail e w \<Rightarrow> Fail e (h\<lparr>outside := w\<rparr>)
    | Undef u \<Rightarrow> Undef u
    | Timeout \<Rightarrow> Timeout)"

definition destroy :: "('d host, unit) act" where
  "destroy h = Ret () (h\<lparr>freed := freed h @ vm_destroy (host_vm h), host_vm := None,
     outside := (case host_vm h of None \<Rightarrow> outside h | Some s \<Rightarrow> world s)\<rparr>)"

definition reset_vm :: "('d host, unit) act" where
  "reset_vm = on_vm (\<lambda>v. Ret () (vm_reset v))"

text \<open>A failing step: its message, the cleanup and the exit code 1.\<close>

definition give_up :: "('d host, unit) act \<Rightarrow> ('d host, int) act" where
  "give_up message = bnd message (\<lambda>_. bnd (uart_puts crlf) (\<lambda>_. bnd destroy (\<lambda>_. Ret 1)))"

definition report_result :: "i32 \<Rightarrow> ('d host, unit) act" where
  "report_result result =
    bnd (uart_puts ''Result: '') (\<lambda>_. bnd (print_int result) (\<lambda>_. uart_puts ('' (expected 42)'' @ crlf)))"

definition vm_config :: "V4Arena option \<Rightarrow> 'd VmConfig" where
  "vm_config junk = \<lparr>cfg_mem = Some (replicate 4096 0), cfg_mem_size = 4096, cfg_mmio = None, cfg_mmio_count = 0, cfg_arena = junk\<rparr>"

definition phase3 :: "'d env \<Rightarrow> nat \<Rightarrow> u8 list \<Rightarrow> ('d host, int) act" where
  "phase3 E fuel code =
    bnd (uart_puts (''[Phase 3] Running bytecode: 7 * 6'' @ crlf)) (\<lambda>_.
    bnd reset_vm (\<lambda>_.
    bnd (emit_binary code 7 6 0x12) (\<lambda>(code, k).
    bnd (on_vm (vm_register_word E None (Some code) (int k))) (\<lambda>word_idx.
    if word_idx < 0 then give_up (uart_puts ''ERROR: Failed to register word'')
    else (\<lambda>h.
      bnd (on_vm (vm_exec E fuel (vm_get_word (host_vm h) word_idx))) (\<lambda>err.
      if err \<noteq> 0 then give_up (uart_puts ''ERROR: VM execution failed'')
      else (\<lambda>h. let result = vm_ds_peek_public (host_vm h) 0 in
        bnd (report_result result) (\<lambda>_.
        if result = 42 then
          bnd (uart_puts (''SUCCESS'' @ crlf @ crlf)) (\<lambda>_.
          bnd (uart_puts (''[Cleanup] Destroying VM'' @ crlf)) (\<lambda>_.
          bnd destroy (\<lambda>_.
          bnd (uart_puts crlf) (\<lambda>_.
          bnd (uart_puts (''=================================='' @ crlf)) (\<lambda>_.
          bnd (uart_puts ('' All tests passed!'' @ crlf)) (\<lambda>_.
          bnd (uart_puts (''=================================='' @ crlf @ crlf)) (\<lambda>_. Ret 0)))))))
        else bnd (uart_puts (''FAILED'' @ crlf @ crlf)) (\<lambda>_. bnd destroy (\<lambda>_. Ret 1))) h)) h)))))"

definition phase2 :: "'d env \<Rightarrow> nat \<Rightarrow> u8 list \<Rightarrow> ('d host, int) act" where
  "phase2 E fuel code =
    bnd (uart_puts (''[Phase 2] Running bytecode: 10 + 32'' @ crlf)) (\<lambda>_.
    bnd (emit_binary code 10 32 0x10) (\<lambda>(code, k).
    bnd (on_vm (vm_register_word E None (Some code) (int k))) (\<lambda>word_idx.
    if word_idx < 0 then
      give_up (bnd (uart_puts ''ERROR: Failed to register word, error code '') (\<lambda>_. print_int (word_of_int word_idx)))
    else (\<lambda>h.
      bnd (on_vm (vm_exec E fuel (vm_get_word (host_vm h) word_idx))) (\<lambda>err.
      if err \<noteq> 0 then
        give_up (bnd (uart_puts ''ERROR: VM execution failed with error code '') (\<lambda>_. print_int (word_of_int err)))
      else (\<lambda>h. let depth = vm_ds_depth_public (host_vm h) in
        (if depth \<noteq> 1 then
           give_up (bnd (uart_puts ''ERROR: Expected stack depth 1, got '') (\<lambda>_. print_int (word_of_int depth)))
         else (let result = vm_ds_peek_public (host_vm h) 0 in
           bnd (report_result result) (\<lambda>_.
           if result = 42 then bnd (uart_puts (''SUCCESS'' @ crlf @ crlf)) (\<lambda>_. phase3 E fuel code)
           else bnd (uart_puts (''FAILED'' @ crlf @ crlf)) (\<lambda>_. bnd destroy (\<lambda>_. Ret 1))))) h)) h))))"

text \<open>
  \<open>main\<close> of \<^verbatim>\<open>main.c\<close>. \<open>junk\<close> is what the stack held where \<open>cfg.arena\<close> lies, which \<open>main\<close> does not set, and
  \<open>code\<close> what it held in the 32 bytes of \<open>code\<close>.
\<close>

definition main_c :: "'d env \<Rightarrow> nat \<Rightarrow> nat \<Rightarrow> V4Arena option \<Rightarrow> u8 list \<Rightarrow> ('d host, int) act" where
  "main_c E fuel vm_bytes junk code =
    bnd (uart_puts crlf) (\<lambda>_.
    bnd (uart_puts (''=================================='' @ crlf)) (\<lambda>_.
    bnd (uart_puts ('' V4 Engine Bare-Metal Test - RISC-V'' @ crlf)) (\<lambda>_.
    bnd (uart_puts (''=================================='' @ crlf @ crlf)) (\<lambda>_.
    bnd (uart_puts (''[Phase 1] Creating VM instance'' @ crlf)) (\<lambda>_.
    bnd (create E vm_bytes (vm_config junk)) (\<lambda>created.
    if \<not> created then bnd (uart_puts (''ERROR: Failed to create VM'' @ crlf)) (\<lambda>_. Ret 1)
    else bnd (uart_puts (''SUCCESS: VM created'' @ crlf @ crlf)) (\<lambda>_. phase2 E fuel code)))))))"

text \<open>\<open>main\<close> of \<^verbatim>\<open>main_simple.c\<close>, with the arithmetic of \<open>int32_t\<close>.\<close>

definition main_simple :: "('d host, int) act" where
  "main_simple =
    bnd (uart_puts (''V4 Engine Bare-Metal Test'' @ crlf)) (\<lambda>_.
    bnd (uart_puts (''========================='' @ crlf @ crlf)) (\<lambda>_.
    bnd (uart_puts (''Phase 1: Basic UART output'' @ crlf)) (\<lambda>_.
    bnd (uart_puts (''Hello from RISC-V bare-metal!'' @ crlf @ crlf)) (\<lambda>_.
    bnd (uart_puts (''Phase 2: Simple calculations'' @ crlf)) (\<lambda>_.
    (let a = 10 :: i32; b = 32 :: i32 in
    bnd (exactly (sint a + sint b)) (\<lambda>result.
    bnd (uart_puts ''10 + 32 = '') (\<lambda>_.
    bnd (print_int result) (\<lambda>_.
    bnd (uart_puts crlf) (\<lambda>_.
    bnd (exactly (sint a * sint b)) (\<lambda>result.
    bnd (uart_puts ''10 * 32 = '') (\<lambda>_.
    bnd (print_int result) (\<lambda>_.
    bnd (uart_puts (crlf @ crlf)) (\<lambda>_.
    bnd (uart_puts (''Test completed successfully!'' @ crlf)) (\<lambda>_. Ret 0)))))))))))))))"

section \<open>What is printed\<close>

definition says :: "string \<Rightarrow> 'd host \<Rightarrow> 'd host" where
  "says txt h = h\<lparr>serial := serial h @ txt\<rparr>"

lemma says_says [simp]: "says b (says a h) = says (a @ b) h" "says [] h = h"
  "serial (says a h) = serial h @ a" "host_vm (says a h) = host_vm h" "outside (says a h) = outside h" "freed (says a h) = freed h"
  by (simp_all add: says_def)

lemma uart_putc_says [simp]: "uart_putc c h = Ret () (says [c] h)"
  by (simp add: uart_putc_def says_def)

lemma uart_puts_says: "CHR 0x00 \<notin> set s \<Longrightarrow> uart_puts s h = Ret () (says s h)"
  by (induction s arbitrary: h) (auto simp: bnd_def)

text \<open>The decimal digits of a number, highest first, and how a reader takes them.\<close>

function digits :: "int \<Rightarrow> string" where
  "digits n = (if n > 0 then digits (n div 10) @ [char_of (48 + nat (n mod 10))] else [])"
  by pat_completeness auto

termination by (relation "measure nat") auto

declare digits.simps [simp del]

definition digit_of :: "char \<Rightarrow> int" where
  "digit_of c = int (of_char c) - 48"

definition parse_nat :: "string \<Rightarrow> int option" where
  "parse_nat cs = (if cs \<noteq> [] \<and> list_all (\<lambda>c. 0 \<le> digit_of c \<and> digit_of c \<le> 9) cs
     then Some (foldl (\<lambda>v c. 10 * v + digit_of c) 0 cs) else None)"

definition parse_int :: "string \<Rightarrow> int option" where
  "parse_int cs = (case cs of [] \<Rightarrow> None
     | c # r \<Rightarrow> if c = CHR ''-'' then map_option uminus (parse_nat r) else parse_nat cs)"

lemma digit_of_digit: "0 \<le> d \<Longrightarrow> d \<le> 9 \<Longrightarrow> digit_of (char_of (48 + nat d)) = d"
  by (simp add: digit_of_def of_char_of)

lemma digits_value: "foldl (\<lambda>v c. 10 * v + digit_of c) 0 (digits n) = max n 0"
proof (induction n rule: digits.induct)
  case (1 n)
  moreover have "n mod 10 \<le> 9" using pos_mod_bound [of 10 n] by linarith
  ultimately show ?case by (subst digits.simps) (simp add: digit_of_digit)
qed

lemma digits_are_digits: "list_all (\<lambda>c. 0 \<le> digit_of c \<and> digit_of c \<le> 9) (digits n)"
proof (induction n rule: digits.induct)
  case (1 n)
  moreover have "n mod 10 \<le> 9" using pos_mod_bound [of 10 n] by linarith
  ultimately show ?case by (subst digits.simps) (simp add: digit_of_digit)
qed

lemma digits_Nil_iff [simp]: "digits n = [] \<longleftrightarrow> n \<le> 0"
  by (subst digits.simps) simp

lemma parse_digits: "0 < n \<Longrightarrow> parse_nat (digits n) = Some n"
  by (simp add: parse_nat_def digits_value digits_are_digits)

lemma digits_length: "n < 10 ^ k \<Longrightarrow> length (digits n) \<le> k"
proof (induction k arbitrary: n)
  case 0
  then show ?case by simp
next
  case (Suc k)
  have "length (digits (n div 10)) \<le> k" using Suc by auto
  then show ?case by (subst digits.simps) simp
qed

lemma fill_digits_rev:
  assumes "length buf + length (digits n) \<le> 12"
  shows "fill_digits n buf s = Ret (buf @ rev (digits n)) s"
  using assms
proof (induction n buf rule: fill_digits.induct)
  case (1 n buf)
  show ?case
  proof (cases "n > 0")
    case True
    have d: "digits n = digits (n div 10) @ [char_of (48 + nat (n mod 10))]" using True by (subst digits.simps) simp
    have "length buf < 12" using 1(2) d by simp
    then show ?thesis using 1 True d by (subst fill_digits.simps) simp
  qed (simp add: fill_digits.simps)
qed

lemma put_back_says: "i \<le> length buf \<Longrightarrow> put_back buf i h = Ret () (says (rev (take i buf)) h)"
  by (induction i arbitrary: h) (simp_all add: bnd_def take_Suc_conv_app_nth)

definition decimal :: "i32 \<Rightarrow> string" where
  "decimal n = (if n = 0 then ''0'' else if sint n < 0 then CHR ''-'' # digits (- sint n) else digits (sint n))"

lemma print_int_says:
  assumes "sint n \<noteq> int32_min"
  shows "print_int n h = Ret () (says (decimal n) h)"
proof -
  have range: "int32_min < sint n" "sint n \<le> int32_max"
    using assms sint_ge [of n] sint_lt [of n] by (simp_all add: int32_min_def int32_max_def)
  then have neg: "exact32 (- sint n) = Some (word_of_int (- sint n))"
    by (simp add: exact32_def int32_min_def int32_max_def)
  have len: "length (digits m) \<le> 12" if "m \<le> int32_max" for m
    using digits_length [of m 12] that by (simp add: int32_max_def)
  have pos: "(bnd (fill_digits m []) (\<lambda>buf. put_back buf (length buf))) h' = Ret () (says (digits m) h')"
    if "m \<le> int32_max" for m and h' :: "'a host"
    using fill_digits_rev [of "[]" m h'] len [OF that] by (simp add: bnd_def put_back_says)
  have "- sint n \<le> int32_max" using range by (simp add: int32_min_def int32_max_def)
  then show ?thesis
    using pos range neg sint_exact32 [OF neg]
    by (auto simp: print_int_def decimal_def exactly_def bnd_def)
qed

lemma parse_decimal: "parse_int (decimal n) = Some (sint n)"
proof -
  have minus: "hd (digits m) \<noteq> CHR ''-''" if "0 < m" for m
    using digits_are_digits [of m] that by (cases "digits m") (auto simp: digit_of_def)
  show ?thesis
  proof (cases "sint n" "0 :: int" rule: linorder_cases)
    case less
    then show ?thesis by (auto simp: decimal_def parse_int_def parse_digits)
  next
    case equal
    then have "n = 0" by (intro signed_word_eqI) simp
    then show ?thesis by (simp add: decimal_def parse_int_def parse_nat_def digit_of_def)
  next
    case greater
    then show ?thesis
      using minus [OF greater] parse_digits [OF greater]
      by (cases "digits (sint n)") (auto simp: decimal_def parse_int_def)
  qed
qed

section \<open>What is run\<close>

lemma masked_byte: "(ucast (x AND 0xFF :: u32) :: u8) = ucast x"
proof -
  have "(0xFF :: u32) = mask 8" by (simp add: mask_eq_exp_minus_1)
  then show ?thesis by (intro bit_word_eqI) (simp add: bit_simps)
qed

lemma emit_binary_code:
  assumes "12 \<le> length code"
  shows "emit_binary code a b operator s = Ret ([0x00] @ bytes32 a @ [0x00] @ bytes32 b @ [operator, 0x51] @ drop 12 code, 12) s"
proof -
  obtain ds rest where code: "code = ds @ rest" and "length ds = 12"
    using assms by (metis append_take_drop_id length_take min.absorb2)
  then obtain d0 d1 d2 d3 d4 d5 d6 d7 d8 d9 d10 d11 where "ds = [d0, d1, d2, d3, d4, d5, d6, d7, d8, d9, d10, d11]"
    by (auto simp: length_Suc_conv eval_nat_numeral)
  with code show ?thesis
    by (simp add: emit_binary_def emit32_def emit8_def bnd_def bytes32_def masked_byte)
qed

lemma run_binary:
  assumes s: "wf_stacks s" "sp s = 0" "word_count s = 0" "words s \<noteq> []" and fuel: "3 < fuel" and E: "sys_keeps_words E"
    and result: "abs_run [Push a, Push b, Prim x] [] = Some [r]"
    and code: "code = [0x00] @ bytes32 a @ [0x00] @ bytes32 b @ [op_byte x, 0x51] @ post"
  obtains s1 t where "vm_register_word E None (Some code) 12 (Some s) = Ret 0 (Some s1)"
    and "vm_exec E fuel (vm_get_word (Some s1) 0) (Some s1) = Ret 0 (Some t)"
    and "wf_stacks t" and "sp t = 1" and "DS t ! 0 = r" and "words t \<noteq> []" and "word_count t = 1"
    and "vm_destroy (Some t) = []"
proof -
  let ?is = "[Push a, Push b, Prim x]"
  let ?w = "\<lparr>w_name = NullName, w_code = Some code, w_code_len = 12\<rparr>"
  let ?s = "s\<lparr>words := (words s)[0 := ?w], word_count := 1\<rparr>"
  have reg: "vm_register_word E None (Some code) 12 (Some s) = Ret 0 (Some ?s)"
    using s(3) by (simp add: vm_register_word_def null_checked_def returning_def register_word_def copy_name_def V4_MAX_WORDS_def bnd_def)
  have enc: "code = encode ?is @ post" "int (length (encode ?is)) = 12"
    using code by (simp_all add: encode_def bytes32_def)
  have "top_first ?s = []" "wf_stacks ?s" using s(1,2) by (simp_all add: top_first_def data_stack_def wf_stacks_def)
  then obtain t where t: "vm_exec_raw E fuel code 12 ?s = Ret 0 t" "wf_stacks t" "top_first t = [r]"
    using exec_encode_in_buffer [of ?is ?s "[r]" fuel E post] result fuel enc by auto
  have top: "sp t = 1" using top_first_length [OF t(2,3)] by simp
  moreover have "DS t ! 0 = r"
    using t(3) top by (cases "DS t") (simp_all add: top_first_def data_stack_def)
  ultimately have top: "sp t = 1" "DS t ! 0 = r" by simp_all
  have "has_words (words ?s) 1 t"
    by (rule keeps_Ret [OF words_exec_raw [OF E] _ t(1)]) (simp add: has_words_def)
  then have words: "words t = (words s)[0 := ?w]" "word_count t = 1" by (simp_all add: has_words_def)
  have "vm_exec E fuel (vm_get_word (Some ?s) 0) (Some ?s) = Ret 0 (Some t)"
    using t(1) s(4) by (simp add: vm_exec_def vm_get_word_def null_checked_def)
  moreover have "vm_destroy (Some t) = []"
    using words s(4) by (cases "words s") (simp_all add: vm_destroy_def)
  ultimately show ?thesis using that [OF reg _ t(2) top] words s(4) by simp
qed

lemma says_updates [simp]: "says x (h\<lparr>host_vm := v\<rparr>) = (says x h)\<lparr>host_vm := v\<rparr>"
  "says x (h\<lparr>outside := w\<rparr>) = (says x h)\<lparr>outside := w\<rparr>" "says x (h\<lparr>freed := ns\<rparr>) = (says x h)\<lparr>freed := ns\<rparr>"
  by (simp_all add: says_def)

lemma freed_same [simp]: "freed h = ns \<Longrightarrow> h\<lparr>freed := ns\<rparr> = h"
  by (cases h) simp

lemma bnd_puts: "CHR 0x00 \<notin> set s \<Longrightarrow> bnd (uart_puts s) f h = f () (says s h)"
  by (simp add: bnd_def uart_puts_says)

lemma bnd_print_int: "sint n \<noteq> int32_min \<Longrightarrow> bnd (print_int n) f h = f () (says (decimal n) h)"
  by (simp add: bnd_def print_int_says)

lemma decimals: "decimal 42 = ''42''" "decimal 320 = ''320''"
  by (simp_all add: decimal_def digits.simps char_of_def bit_Suc_0_iff)

lemma crlf_no_nul [simp]: "CHR 0x00 \<notin> set crlf"
  by (simp add: crlf_def)

definition transcript3 :: string where
  "transcript3 = ''[Phase 3] Running bytecode: 7 * 6'' @ crlf @ ''Result: 42 (expected 42)'' @ crlf @ ''SUCCESS'' @ crlf @ crlf @
     ''[Cleanup] Destroying VM'' @ crlf @ crlf @ ''=================================='' @ crlf @ '' All tests passed!'' @ crlf @
     ''=================================='' @ crlf @ crlf"

definition transcript :: string where
  "transcript = crlf @ ''=================================='' @ crlf @ '' V4 Engine Bare-Metal Test - RISC-V'' @ crlf @
     ''=================================='' @ crlf @ crlf @ ''[Phase 1] Creating VM instance'' @ crlf @
     ''SUCCESS: VM created'' @ crlf @ crlf @ ''[Phase 2] Running bytecode: 10 + 32'' @ crlf @
     ''Result: 42 (expected 42)'' @ crlf @ ''SUCCESS'' @ crlf @ crlf @ transcript3"

lemma bnd_on_vm: "bnd (on_vm m) f h = (case m (host_vm h) of
    Ret a v \<Rightarrow> f a (h\<lparr>host_vm := v\<rparr>) | Fail e v \<Rightarrow> Fail e (h\<lparr>host_vm := v\<rparr>) | Undef u \<Rightarrow> Undef u | Timeout \<Rightarrow> Timeout)"
  by (simp add: bnd_def on_vm_def split: res.split)

lemma bnd_destroy: "bnd destroy f h = f () (h\<lparr>freed := freed h @ vm_destroy (host_vm h), host_vm := None,
    outside := (case host_vm h of None \<Rightarrow> outside h | Some s \<Rightarrow> world s)\<rparr>)"
  by (simp add: bnd_def destroy_def)

lemma bnd_emit_binary:
  "12 \<le> length code \<Longrightarrow> bnd (emit_binary code a b operator) f s =
    f ([0x00] @ bytes32 a @ [0x00] @ bytes32 b @ [operator, 0x51] @ drop 12 code, 12) s"
  by (simp only: bnd_def emit_binary_code res.case)

lemma report_result_says: "bnd (report_result 42) f h = f () (says (''Result: 42 (expected 42)'' @ crlf) h)"
  by (simp add: report_result_def bnd_assoc bnd_puts bnd_print_int decimals int32_min_def)

lemma phase3_succeeds:
  assumes h: "host_vm h = Some s" and s: "wf_stacks s" "words s \<noteq> []" and code: "12 \<le> length code"
    and E: "3 < fuel" "sys_keeps_words E"
  shows "\<exists>w. phase3 E fuel code h = Ret 0 (says transcript3 (h\<lparr>host_vm := None, outside := w\<rparr>))"
proof -
  let ?code = "[0x00] @ bytes32 7 @ [0x00] @ bytes32 6 @ [0x12, 0x51] @ drop 12 code"
  have "abs_run [Push 7, Push 6, Prim Op_MUL] [] = Some [42]"
    by (simp add: abs_prim_def binary_def exact32_def int32_min_def int32_max_def DS_SIZE_def)
  moreover obtain s0 where s0: "vm_reset (Some s) = Some s0" "wf_stacks s0" "sp s0 = 0" "word_count s0 = 0" "words s0 \<noteq> []"
    using s by (auto simp: vm_reset_def vm_reset_dictionary_def vm_reset_stacks_def wf_stacks_def Let_def)
  ultimately obtain s1 t where run: "vm_register_word E None (Some ?code) 12 (Some s0) = Ret 0 (Some s1)"
      "vm_exec E fuel (vm_get_word (Some s1) 0) (Some s1) = Ret 0 (Some t)" "sp t = 1" "DS t ! 0 = 42" "vm_destroy (Some t) = []"
    by (rule_tac run_binary [OF s0(2-5) E, of 7 6 Op_MUL 42 ?code "drop 12 code"]) auto
  have peek: "vm_ds_peek_public (Some t) 0 = 42" using run(3,4) by (simp add: vm_ds_peek_public_def)
  show ?thesis
    using s0(1) h run(1,2) peek
    by (simp add: phase3_def bnd_puts reset_vm_def bnd_on_vm bnd_emit_binary [OF code] report_result_says bnd_destroy run(5)
        transcript3_def del: append.simps) (auto simp: says_def)
qed

definition transcript2 :: string where
  "transcript2 = ''[Phase 2] Running bytecode: 10 + 32'' @ crlf @ ''Result: 42 (expected 42)'' @ crlf @
     ''SUCCESS'' @ crlf @ crlf @ transcript3"

lemma phase2_succeeds:
  assumes h: "host_vm h = Some s" and s: "wf_stacks s" "words s \<noteq> []" "sp s = 0" "word_count s = 0" and code: "12 \<le> length code"
    and E: "3 < fuel" "sys_keeps_words E"
  shows "\<exists>w. phase2 E fuel code h = Ret 0 (says transcript2 (h\<lparr>host_vm := None, outside := w\<rparr>))"
proof -
  let ?code = "[0x00] @ bytes32 10 @ [0x00] @ bytes32 32 @ [0x10, 0x51] @ drop 12 code"
  have "abs_run [Push 10, Push 32, Prim Op_ADD] [] = Some [42]"
    by (simp add: abs_prim_def binary_def exact32_def int32_min_def int32_max_def DS_SIZE_def)
  then obtain s1 t where run: "vm_register_word E None (Some ?code) 12 (Some s) = Ret 0 (Some s1)"
      "vm_exec E fuel (vm_get_word (Some s1) 0) (Some s1) = Ret 0 (Some t)" "sp t = 1" "DS t ! 0 = 42" "wf_stacks t" "words t \<noteq> []"
    by (rule_tac run_binary [OF s(1,3,4,2) E, of 10 32 Op_ADD 42 ?code "drop 12 code"]) auto
  have peek: "vm_ds_peek_public (Some t) 0 = 42" "vm_ds_depth_public (Some t) = 1"
    using run(3,4) by (simp_all add: vm_ds_peek_public_def vm_ds_depth_public_def)
  let ?txt = "''[Phase 2] Running bytecode: 10 + 32'' @ crlf @ ''Result: 42 (expected 42)'' @ crlf @ ''SUCCESS'' @ crlf @ crlf"
  have "phase2 E fuel code h = phase3 E fuel ?code (says ?txt (h\<lparr>host_vm := Some t\<rparr>))"
    using h run(1,2) peek
    by (simp add: phase2_def bnd_puts bnd_on_vm bnd_emit_binary [OF code] report_result_says del: append.simps)
  moreover obtain w where "phase3 E fuel ?code (says ?txt (h\<lparr>host_vm := Some t\<rparr>)) =
      Ret 0 (says transcript3 ((says ?txt (h\<lparr>host_vm := Some t\<rparr>))\<lparr>host_vm := None, outside := w\<rparr>))"
    using phase3_succeeds [of "says ?txt (h\<lparr>host_vm := Some t\<rparr>)" t ?code fuel E] run(5,6) E code by (auto simp: bytes32_def)
  ultimately show ?thesis by (auto simp: transcript2_def)
qed

lemma create_succeeds:
  assumes "malloc_ok E vm_bytes (outside h) = (True, w)"
  obtains s where "create E vm_bytes (vm_config junk) h = Ret True (h\<lparr>host_vm := Some s, outside := w\<rparr>)"
    "wf_stacks s" "words s \<noteq> []" "sp s = 0" "word_count s = 0"
proof -
  obtain s where "vm_create E vm_bytes (Some (vm_config junk)) (outside h) = Ret (Some s) w"
    "wf_stacks s" "words s \<noteq> []" "sp s = 0" "word_count s = 0"
    by (simp add: vm_create_def assms vm_config_def copy_mmio_def vm_reset_def vm_reset_dictionary_def
        vm_reset_stacks_def zero_vm_def wf_stacks_def V4_MAX_WORDS_def)
  then show ?thesis by (intro that) (simp_all add: create_def)
qed

lemma main_c_succeeds:
  assumes malloc: "malloc_ok E vm_bytes (outside h) = (True, w)" and "3 < fuel" and "sys_keeps_words E" and "12 \<le> length code"
  shows "\<exists>w. main_c E fuel vm_bytes junk code h = Ret 0 (says transcript (h\<lparr>host_vm := None, outside := w\<rparr>))"
proof -
  let ?txt = "crlf @ ''=================================='' @ crlf @ '' V4 Engine Bare-Metal Test - RISC-V'' @ crlf @
     ''=================================='' @ crlf @ crlf @ ''[Phase 1] Creating VM instance'' @ crlf"
  obtain s where s: "create E vm_bytes (vm_config junk) (says ?txt h) = Ret True ((says ?txt h)\<lparr>host_vm := Some s, outside := w\<rparr>)"
    "wf_stacks s" "words s \<noteq> []" "sp s = 0" "word_count s = 0"
    by (rule create_succeeds [of E vm_bytes "says ?txt h" w junk]) (simp_all add: malloc)
  have "main_c E fuel vm_bytes junk code h =
      phase2 E fuel code (says (?txt @ ''SUCCESS: VM created'' @ crlf @ crlf) (h\<lparr>host_vm := Some s, outside := w\<rparr>))"
    using s(1) by (simp add: main_c_def bnd_puts bnd_def [of "create E vm_bytes (vm_config junk)"] del: append.simps)
  then show ?thesis
    using phase2_succeeds [of "says (?txt @ ''SUCCESS: VM created'' @ crlf @ crlf) (h\<lparr>host_vm := Some s, outside := w\<rparr>)" s code fuel E] s assms
    by (auto simp: transcript_def transcript2_def says_says simp del: append.simps)
qed

end
