(* ===== verification/V4_Bare_Metal_Props.thy ===== *)
theory V4_Bare_Metal_Props
  imports V4_Bare_Metal V4_Run_Props
begin

text \<open>
  The properties of the bare-metal programs: what \<open>print_int\<close> prints, and what \<open>main\<close> of \<^verbatim>\<open>main.c\<close> and of
  \<^verbatim>\<open>main_simple.c\<close> print and return.
\<close>

text \<open>C23: \<open>print_int\<close> prints a number that reads back as its argument, in at most eleven characters, so the
  twelve bytes of its buffer are enough. For the smallest \<open>int32_t\<close> it has no defined behaviour: the minus sign
  is sent and then the number is negated, which overflows.
\<close>
theorem print_int_readable:
  "if sint n = - (2 ^ 31) then print_int n h = Undef SignedOverflow
   else (\<exists>txt. print_int n h = Ret () (says txt h) \<and> parse_int txt = Some (sint n) \<and> length txt \<le> 11)"
proof (cases "sint n = - (2 ^ 31)")
  case True
  then have "n \<noteq> 0" by auto
  with True show ?thesis
    by (simp add: print_int_def bnd_def exactly_def exact32_def int32_min_def int32_max_def)
next
  case False
  have "- (2 ^ 31) < sint n" "sint n < 2 ^ 31" using False sint_ge [of n] sint_lt [of n] by simp_all
  then have "length (digits (sint n)) \<le> 10" "length (digits (- sint n)) \<le> 10"
    by (intro digits_length; simp)+
  then have "length (decimal n) \<le> 11" by (simp add: decimal_def)
  with False show ?thesis
    using print_int_says [of n h] parse_decimal [of n] by (auto simp: int32_min_def)
qed

text \<open>C16: \<open>main\<close> of \<^verbatim>\<open>main.c\<close> succeeds. When the allocation of the VM succeeds, the program assembles, registers and runs
  10 + 32 and, after a reset, 7 * 6, finds 42 both times, destroys the VM without a name to free, returns 0 and
  has sent exactly the transcript of a passed test; whatever the stack held where \<open>main\<close> reads the arena field
  of the configuration it did not set, and in the code buffer.
\<close>
theorem main_reports_success:
  assumes "malloc_ok E vm_bytes (outside h) = (True, w)" and "sys_keeps_words E" and "3 < fuel" and "length code = 32"
  shows "\<exists>h'. main_c E fuel vm_bytes junk code h = Ret 0 h' \<and> serial h' = serial h @ transcript \<and>
    host_vm h' = None \<and> freed h' = freed h"
  using main_c_succeeds [of E vm_bytes h w fuel code junk] assms by auto

theorem main_reports_success_witness:
  "\<exists>h'. main_c sample_env 4 20000 (Some sample_arena) (replicate 32 0xA5)
     \<lparr>serial = [], host_vm = None, outside = 0, freed = []\<rparr> = Ret 0 h' \<and> serial h' = transcript"
  using main_reports_success [of sample_env 20000 "\<lparr>serial = [], host_vm = None, outside = 0, freed = []\<rparr>" 0 4
    "replicate 32 0xA5" "Some sample_arena"] by auto

text \<open>
  When the allocation of the VM fails, the program says so and returns 1.
\<close>
theorem main_without_memory:
  assumes "malloc_ok E vm_bytes (outside h) = (False, w)"
  shows "\<exists>txt. main_c E fuel vm_bytes junk code h =
    Ret 1 (says (txt @ ''[Phase 1] Creating VM instance'' @ crlf @ ''ERROR: Failed to create VM'' @ crlf) (h\<lparr>host_vm := None, outside := w\<rparr>))"
proof -
  have "create E vm_bytes (vm_config junk) h' = Ret False (h'\<lparr>host_vm := None, outside := w\<rparr>)" if "outside h' = outside h" for h'
    using that assms by (simp add: create_def vm_create_def)
  then show ?thesis
    by (intro exI [of _ "crlf @ ''=================================='' @ crlf @ '' V4 Engine Bare-Metal Test - RISC-V'' @ crlf @
        ''=================================='' @ crlf @ crlf"])
      (simp add: main_c_def bnd_puts bnd_def [of "create E vm_bytes (vm_config junk)"] del: append.simps)
qed

text \<open>
  \<open>main\<close> of \<^verbatim>\<open>main_simple.c\<close> sends the transcript its README shows and returns 0.
\<close>
theorem main_simple_output:
  "main_simple h = Ret 0 (says (''V4 Engine Bare-Metal Test'' @ crlf @ ''========================='' @ crlf @ crlf @
     ''Phase 1: Basic UART output'' @ crlf @ ''Hello from RISC-V bare-metal!'' @ crlf @ crlf @
     ''Phase 2: Simple calculations'' @ crlf @ ''10 + 32 = 42'' @ crlf @ ''10 * 32 = 320'' @ crlf @ crlf @
     ''Test completed successfully!'' @ crlf) h)"
  by (simp add: main_simple_def bnd_puts bnd_print_int decimals exactly_def exact32_def int32_min_def int32_max_def
      bnd_def [of "Ret x" for x] del: append.simps)

end
