(* ===== verification/V4_Api.thy ===== *)
theory V4_Api
  imports V4_Data_Props V4_Runs V4_Task_Steps
begin

text \<open>
  Sessions of a client: sequences of calls of the public functions that change a machine, in any order and
  with any arguments, as long as the pointers the client hands over are as long as it says. Every call keeps
  the machine well-formed and shows only the undefined behaviour that running bytecode can show.
\<close>

section \<open>Calls\<close>

datatype 'd api_call =
  RegisterWord "string option" "u8 list option" int
| ResetDictionary | ResetStacks | Reset
| DsPush i32 | DsPop "i32 option" | DsClear | Snapshot | Restore "VmStackSnapshot option"
| RegisterMmio "'d V4_Mmio list option" int | MemRead u32 u32 | MemWrite u32 u32
| SetPanicHandler "'d panic_handler option" nat
| Exec int
| TaskInit u32 | TaskCleanup | TaskSpawn u16 u8 u16 u16 | TaskExit | TaskSleep u32 | TaskYield
| CriticalEnter | CriticalExit | TaskSend u8 u8 i32 | TaskReceive u8 | TaskReceiveBlocking u8 u32
| Schedule | ScheduleFromIsr

definition ignoring :: "('s, 'a) act \<Rightarrow> ('s, unit) act" where
  "ignoring m = bnd m (\<lambda>_. Ret ())"

text \<open>\<open>vm_mem_read32\<close> and \<open>vm_mem_write32\<close> do not check for a null VM.\<close>

definition dereferenced :: "('d machine, 'a) act \<Rightarrow> ('d machine option, unit) act" where
  "dereferenced m vm = (case vm of
      None \<Rightarrow> Undef OutOfBounds
    | Some s \<Rightarrow> (case m s of
          Ret a t \<Rightarrow> Ret () (Some t)
        | Fail e t \<Rightarrow> Fail e (Some t)
        | Undef u \<Rightarrow> Undef u
        | Timeout \<Rightarrow> Timeout))"

primrec do_call :: "'d env \<Rightarrow> nat \<Rightarrow> 'd api_call \<Rightarrow> ('d machine option, unit) act" where
  "do_call E fuel (RegisterWord name code len) = ignoring (vm_register_word E name code len)"
| "do_call E fuel ResetDictionary = (\<lambda>vm. Ret () (vm_reset_dictionary vm))"
| "do_call E fuel ResetStacks = (\<lambda>vm. Ret () (vm_reset_stacks vm))"
| "do_call E fuel Reset = (\<lambda>vm. Ret () (vm_reset vm))"
| "do_call E fuel (DsPush v) = ignoring (vm_ds_push E v)"
| "do_call E fuel (DsPop out) = ignoring (vm_ds_pop E out)"
| "do_call E fuel DsClear = (\<lambda>vm. Ret () (vm_ds_clear vm))"
| "do_call E fuel Snapshot = ignoring (vm_ds_snapshot E)"
| "do_call E fuel (Restore snap) = ignoring (vm_ds_restore E snap)"
| "do_call E fuel (RegisterMmio ms count) = ignoring (vm_register_mmio ms count)"
| "do_call E fuel (MemRead addr out) = dereferenced (vm_mem_read32 addr out)"
| "do_call E fuel (MemWrite addr v) = dereferenced (vm_mem_write32 addr v)"
| "do_call E fuel (SetPanicHandler h u) = (\<lambda>vm. Ret () (vm_set_panic_handler h u vm))"
| "do_call E fuel (Exec idx) = (\<lambda>vm. ignoring (vm_exec E fuel (vm_get_word vm idx)) vm)"
| "do_call E fuel (TaskInit ms) = ignoring (vm_task_init E ms)"
| "do_call E fuel TaskCleanup = ignoring (vm_task_cleanup E)"
| "do_call E fuel (TaskSpawn w p d r) = ignoring (vm_task_spawn E w p d r)"
| "do_call E fuel TaskExit = ignoring (vm_task_exit E)"
| "do_call E fuel (TaskSleep ms) = ignoring (vm_task_sleep E ms)"
| "do_call E fuel TaskYield = ignoring (vm_task_yield E)"
| "do_call E fuel CriticalEnter = ignoring (vm_task_critical_enter E)"
| "do_call E fuel CriticalExit = ignoring (vm_task_critical_exit E)"
| "do_call E fuel (TaskSend t mt x) = ignoring (vm_task_send E t mt x)"
| "do_call E fuel (TaskReceive mt) = ignoring (vm_task_receive E mt)"
| "do_call E fuel (TaskReceiveBlocking mt ms) = ignoring (vm_task_receive_blocking E fuel mt ms)"
| "do_call E fuel Schedule = ignoring (vm_schedule E)"
| "do_call E fuel ScheduleFromIsr = ignoring (vm_schedule_from_isr E)"

primrec session :: "'d env \<Rightarrow> nat \<Rightarrow> 'd api_call list \<Rightarrow> ('d machine option, unit) act" where
  "session E fuel [] = Ret ()"
| "session E fuel (c # cs) = bnd (do_call E fuel c) (\<lambda>_. session E fuel cs)"

text \<open>
  The client's part: buffers and tables have the length it passes, and a name is a string that fits into
  memory. The scheduler's functions exist in builds with tasks only.
\<close>

definition admissible :: "'d env \<Rightarrow> 'd api_call \<Rightarrow> bool" where
  "admissible E c = (case c of
      RegisterWord name code len \<Rightarrow>
        (case name of None \<Rightarrow> True | Some n \<Rightarrow> length (c_str n) + 1 < 2 ^ 63) \<and>
        (case code of None \<Rightarrow> True | Some bs \<Rightarrow> len \<le> int (length bs))
    | Restore snap \<Rightarrow> (case snap of None \<Rightarrow> True | Some sn \<Rightarrow>
        (case snap_data sn of None \<Rightarrow> True | Some xs \<Rightarrow> snap_depth sn \<le> int (length xs)))
    | RegisterMmio ms count \<Rightarrow> (case ms of None \<Rightarrow> True | Some l \<Rightarrow> count \<le> int (length l))
    | Schedule \<Rightarrow> enable_tasks E
    | ScheduleFromIsr \<Rightarrow> enable_tasks E
    | _ \<Rightarrow> True)"

section \<open>Every call keeps the machine well-formed\<close>

definition live :: "'d machine option \<Rightarrow> bool" where
  "live vm \<longleftrightarrow> (case vm of None \<Rightarrow> False | Some s \<Rightarrow> wf_vm s)"

lemma live_Some [simp]: "live (Some s) = wf_vm s"
  by (simp add: live_def)

text \<open>A client's call is judged on the machines that exist.\<close>

lemma keeps_live: "keeps live U m \<longleftrightarrow> (\<forall>s. wf_vm s \<longrightarrow> res_ok live U (m (Some s)))"
  unfolding keeps_res_ok live_def by (metis (no_types, lifting) option.case_eq_if option.collapse option.sel option.simps(3))

lemma keeps_ignoring: "keeps I U m \<Longrightarrow> keeps I U (ignoring m)"
  unfolding ignoring_def by (intro keeps_intros)

lemma live_null_checked:
  assumes "keeps wf_vm U m" shows "keeps live U (null_checked d m)"
  unfolding keeps_live
proof (intro allI impI)
  fix s :: "'a machine" assume "wf_vm s"
  from keeps_D [OF assms this] show "res_ok live U (null_checked d m (Some s))"
    by (cases "m s") (simp_all add: null_checked_def res_ok_def)
qed

lemma live_dereferenced:
  assumes "keeps wf_vm U m" shows "keeps live U (dereferenced m)"
  unfolding keeps_live
proof (intro allI impI)
  fix s :: "'a machine" assume "wf_vm s"
  from keeps_D [OF assms this] show "res_ok live U (dereferenced m (Some s))"
    by (cases "m s") (simp_all add: dereferenced_def res_ok_def)
qed

lemma live_pure: "(\<And>s. wf_vm s \<Longrightarrow> live (f (Some s))) \<Longrightarrow> keeps live U (\<lambda>vm. Ret () (f vm))"
  by (simp add: keeps_live res_ok_def)

lemma wf_vm_plain:
  "wf_vm s \<Longrightarrow> wf_vm (s\<lparr>sp := 0\<rparr>)" "wf_vm s \<Longrightarrow> wf_vm (s\<lparr>sp := 0, rp := 0, fp := None\<rparr>)"
  "wf_vm s \<Longrightarrow> wf_vm (s\<lparr>last_err := e\<rparr>)" "wf_vm s \<Longrightarrow> wf_vm (s\<lparr>panic_handler := h, panic_user_data := u\<rparr>)"
  by (simp_all add: wf_vm_def wf_stacks_def wf_mem_def wf_dict_def)

lemma live_resets:
  assumes "wf_vm s"
  shows "live (vm_reset_dictionary (Some s))" "live (vm_reset_stacks (Some s))" "live (vm_reset (Some s))" "live (vm_ds_clear (Some s))"
    "live (vm_set_panic_handler h u (Some s))"
  using reset_dictionary_wf [OF assms] assms
  by (auto simp only: vm_reset_def vm_reset_stacks_def vm_ds_clear_def vm_set_panic_handler_def wf_vm_plain
      live_Some option.map option.case)

lemma live_stack_push: "keeps live U (vm_ds_push E v)"
  unfolding vm_ds_push_def by (intro live_null_checked keeps_code_of keeps_ds_push)

lemma live_ds_pop: "keeps live U (vm_ds_pop E out)"
  unfolding vm_ds_pop_def
proof (rule live_null_checked, unfold keeps_res_ok, intro allI impI)
  fix s :: "'a machine" assume "wf_vm s"
  from keeps_D [OF keeps_ds_pop [of U E] this]
  show "res_ok wf_vm U (case ds_pop E s of Ret v s' \<Rightarrow> Ret (0, map_option (\<lambda>_. v) out) s'
      | Fail e s' \<Rightarrow> Ret (e, out) s' | Undef u \<Rightarrow> Undef u | Timeout \<Rightarrow> Timeout)"
    by (cases "ds_pop E s") (simp_all add: res_ok_def)
qed

lemma live_ds_snapshot: "keeps live U (vm_ds_snapshot E)"
proof -
  have world: "keeps wf_vm U (on_world (malloc_ok E n))" for n by (intro on_world_keeps) simp
  have read: "keeps wf_vm U (\<lambda>s. f (sp s) (DS s) s)" if "\<And>n xs. keeps wf_vm U (f n xs)"
    for f :: "nat \<Rightarrow> i32 list \<Rightarrow> ('a machine, VmStackSnapshot option) act"
    using that by (simp add: keeps_res_ok)
  let ?empty = "bnd (on_world (malloc_ok E sizeof_snapshot)) (\<lambda>ok. Ret (if ok then Some \<lparr>snap_data = None, snap_depth = 0\<rparr> else None))"
  have "keeps wf_vm U (if n = 0 then ?empty else
      bnd (on_world (malloc_ok E sizeof_snapshot)) (\<lambda>ok.
          if \<not> ok then Ret None
          else bnd (on_world (malloc_ok E (n * 4))) (\<lambda>ok2.
            if \<not> ok2 then Ret None else Ret (Some \<lparr>snap_data = Some (take n xs), snap_depth = int n\<rparr>))))" for n xs
    by (intro keeps_if keeps_bnd world keeps_Ret_act)
  from live_null_checked [OF read [OF this], of None] show ?thesis
    unfolding vm_ds_snapshot_def Let_def by (simp only: if_distribR)
qed

lemma live_restore:
  assumes "admissible E (Restore snap)" shows "keeps live U (vm_ds_restore E snap)"
proof (cases snap)
  case (Some sn)
  let ?m = "\<lambda>s. if snap_depth sn > 256 then panic E StackOverflow s
        else (let s1 = s\<lparr>sp := 0\<rparr> in
          case snap_data sn of
            None \<Rightarrow> Ret () s1
          | Some data \<Rightarrow>
              if snap_depth sn > 0 then
                (if snap_depth sn > int (length data) then Undef OutOfBounds
                 else Ret () (s1\<lparr>DS := blit data (nat (snap_depth sn)) (DS s), sp := nat (snap_depth sn)\<rparr>))
              else Ret () s1)"
  have "keeps wf_vm U ?m"
    unfolding keeps_res_ok
  proof (intro allI impI)
    fix s :: "'a machine" assume wf: "wf_vm s"
    have filled: "wf_vm (s\<lparr>DS := blit data n (DS s), sp := n\<rparr>)" if "n \<le> length data" "n \<le> 256" for data n
      using wf that by (simp add: wf_vm_def wf_stacks_def wf_mem_def wf_dict_def DS_SIZE_def)
    show "res_ok wf_vm U (?m s)"
    proof (cases "snap_depth sn > 256")
      case True
      then show ?thesis using keeps_D [OF keeps_panic_wf wf] by simp
    next
      case False
      then show ?thesis
        using assms Some wf filled [of "nat (snap_depth sn)"]
        by (cases "snap_data sn") (auto simp: res_ok_def admissible_def wf_vm_plain nat_le_iff Let_def)
    qed
  qed
  then show ?thesis unfolding vm_ds_restore_def Some by (simp add: live_null_checked keeps_code_of)
qed (simp add: vm_ds_restore_def keeps_Ret_act)

lemma append_mmio_wf: "wf_vm s \<Longrightarrow> wf_vm (snd (append_mmio ms s))"
proof (induction ms arbitrary: s)
  case (Cons m ms)
  have "wf_vm (s\<lparr>mmio := (mmio s)[nat (mmio_count s) := m], mmio_count := mmio_count s + 1\<rparr>)"
    if "mmio_count s < int V4_MAX_MMIO"
    using Cons.prems that by (simp add: wf_vm_def wf_stacks_def wf_mem_def wf_dict_def)
  then show ?case using Cons by (simp add: case_prod_beta)
qed simp

lemma live_register_mmio:
  assumes "admissible E (RegisterMmio ms count)" shows "keeps live U (vm_register_mmio ms count)"
  unfolding keeps_live
proof (intro allI impI)
  fix s :: "'a machine" assume "wf_vm s"
  then show "res_ok live U (vm_register_mmio ms count (Some s))"
    using assms append_mmio_wf [OF \<open>wf_vm s\<close>, of "take (nat count) (the ms)"]
    by (cases ms) (auto simp: res_ok_def vm_register_mmio_def admissible_def case_prod_beta)
qed

lemma live_mem_calls:
  "keeps live U (dereferenced (vm_mem_read32 addr out))" "keeps live U (dereferenced (vm_mem_write32 addr v))"
proof -
  have stored: "keeps wf_vm U (\<lambda>s. Ret a (s\<lparr>last_err := e\<rparr>))" for a :: v4_err and e
    by (simp add: keeps_res_ok res_ok_def wf_vm_plain)
  have pair: "keeps wf_vm U ((\<lambda>(e, v) s. Ret (e, v) (s\<lparr>last_err := e\<rparr>)) p)" for p :: "v4_err \<times> u32"
    by (cases p) (simp add: keeps_res_ok res_ok_def wf_vm_plain)
  show "keeps live U (dereferenced (vm_mem_read32 addr out))" "keeps live U (dereferenced (vm_mem_write32 addr v))"
    unfolding vm_mem_read32_def vm_mem_write32_def
    by (intro live_dereferenced keeps_bnd keeps_read32 keeps_write32 pair stored)+
qed

lemma live_exec:
  assumes "sys_safe E" shows "keeps live (possible_ub E) (\<lambda>vm. ignoring (vm_exec E fuel (vm_get_word vm idx)) vm)"
  unfolding keeps_live
proof (intro allI impI)
  fix s :: "'a machine" assume wf: "wf_vm s"
  show "res_ok live (possible_ub E) (ignoring (vm_exec E fuel (vm_get_word (Some s) idx)) (Some s))"
  proof (rule keeps_D [OF keeps_ignoring])
    have "wf_word (words s ! nat idx)" if "\<not> (idx < 0 \<or> idx \<ge> word_count s)"
      using wf that by (simp add: wf_vm_def wf_dict_def list_all_length nat_less_iff)
    then show "keeps live (possible_ub E) (vm_exec E fuel (vm_get_word (Some s) idx))"
      using keeps_vm_exec_raw [OF assms]
      by (auto simp: vm_exec_def vm_get_word_def wf_word_def intro!: keeps_Ret_act live_null_checked split: option.splits)
  qed (simp add: wf)
qed

text \<open>Registration, also when there is no room for the word or for its name.\<close>

lemma alloc_wf:
  assumes wf: "wf_arena (Some a)" and n: "n < 2 ^ 63" and alloc: "v4_arena_alloc (Some a) (word_of_nat n) 1 = (r, a')"
  obtains u where "a' = Some (a\<lparr>arena_used := u\<rparr>)" and "wf_arena (Some (a\<lparr>arena_used := u\<rparr>))"
    and "\<And>off. r = Some off \<Longrightarrow> buffer a \<noteq> None \<and> unat off + n = unat u \<and> unat u \<le> unat (arena_size a)"
proof -
  obtain u where u: "a' = Some (a\<lparr>arena_used := u\<rparr>)" "r = None \<Longrightarrow> u = arena_used a"
    using alloc_frame [OF alloc] by blast
  have sizes: "unat (arena_used a) \<le> unat (arena_size a)" "unat (arena_size a) < 2 ^ 63"
    using wf by (simp_all add: wf_arena_def)
  have len: "unat (word_of_nat n :: size_t) = n" using n by (simp add: unsigned_of_nat take_bit_nat_eq_self)
  then have nw: "no_wrap a (word_of_nat n) 1" using sizes n by (simp add: no_wrap_def)
  have granted: "buffer a \<noteq> None" "unat off + n = unat u" "unat u \<le> unat (arena_size a)" if "r = Some off" for off
  proof -
    have run: "v4_arena_alloc (Some a) (word_of_nat n) 1 = (Some off, Some (a\<lparr>arena_used := u\<rparr>))"
      using alloc u that by simp
    show "unat off + n = unat u" "unat u \<le> unat (arena_size a)"
      using alloc_sound(3,4) [OF run nw] len by simp_all
    show "buffer a \<noteq> None" using run by (simp add: v4_arena_alloc_def split: if_splits)
  qed
  have "wf_arena (Some (a\<lparr>arena_used := u\<rparr>))"
    using wf u(2) granted(3) by (cases r) (simp_all add: wf_arena_def)
  with u(1) granted show ?thesis by (intro that) blast+
qed

lemma wf_vm_arena: "wf_vm s \<Longrightarrow> wf_arena ar \<Longrightarrow> wf_vm (s\<lparr>arena := ar\<rparr>)"
  by (simp add: wf_vm_def wf_stacks_def wf_mem_def wf_dict_def)

lemma wf_buffer_write:
  "wf_buffer (Some b) n \<Longrightarrow> off + length bs \<le> length b \<Longrightarrow> wf_buffer (Some (write_bytes b off bs)) n"
  by (simp add: wf_buffer_def write_bytes_def)

lemma wf_vm_no_name:
  assumes "wf_vm s" and "word_count s < int V4_MAX_WORDS"
  shows "wf_vm (s\<lparr>words := (words s)[nat (word_count s) := x]\<rparr>)"
  using assms by (simp add: wf_vm_def wf_stacks_def wf_mem_def wf_dict_def)

lemma keeps_copy_name:
  assumes "admissible E (RegisterWord name code len)"
  shows "keeps (\<lambda>s. wf_vm s \<and> word_count s < int V4_MAX_WORDS) U (copy_name E name)"
  unfolding keeps_res_ok
proof (intro allI impI)
  fix s :: "'a machine" assume s: "wf_vm s \<and> word_count s < int V4_MAX_WORDS"
  let ?I = "\<lambda>s. wf_vm s \<and> word_count s < int V4_MAX_WORDS"
  have p: "res_ok ?I U (panic E x t :: ('a machine, name_ptr) res)" if "?I t" for x t
  proof -
    have "keeps ?I U (panic E x :: ('a machine, name_ptr) act)" by (rule keeps_panic) simp
    then show ?thesis using that by (rule keeps_D)
  qed
  show "res_ok ?I U (copy_name E name s)"
  proof (cases name)
    case None
    then show ?thesis using s by (simp add: copy_name_def res_ok_def)
  next
    case (Some n)
    show ?thesis
    proof (cases "arena s")
      case None
      obtain ok w where m: "malloc_ok E (length (c_str n) + 1) (world s) = (ok, w)" by fastforce
      show ?thesis
        using Some None s p [of "s\<lparr>world := w, words := (words s)
            [nat (word_count s) := (words s ! nat (word_count s))\<lparr>w_name := NullName\<rparr>]\<rparr>"] m
          wf_vm_no_name [of "s\<lparr>world := w\<rparr>"]
        by (simp add: copy_name_def on_world_def Let_def bnd_def) (simp add: res_ok_def)
    next
      case ar: (Some a)
      have wa: "wf_arena (Some a)" using s ar by (simp add: wf_vm_def wf_dict_def)
      have n: "length (c_str n) + 1 < 2 ^ 63" using assms Some by (simp add: admissible_def)
      obtain r a' where alloc: "v4_arena_alloc (Some a) (word_of_nat (length (c_str n) + 1)) 1 = (r, a')" by fastforce
      obtain u where u: "a' = Some (a\<lparr>arena_used := u\<rparr>)" "wf_arena (Some (a\<lparr>arena_used := u\<rparr>))"
        and off: "\<And>off. r = Some off \<Longrightarrow> buffer a \<noteq> None \<and> unat off + (length (c_str n) + 1) = unat u \<and> unat u \<le> unat (arena_size a)"
        using alloc_wf [OF wa n alloc] by metis
      show ?thesis
      proof (cases r)
        case None
        then show ?thesis
          using Some ar alloc u p [of "s\<lparr>arena := a'\<rparr>"] s wf_vm_arena [of s a']
          by (simp add: copy_name_def Let_def)
      next
        case r: (Some off)
        obtain b where b: "buffer a = Some b" using off [OF r] by blast
        have fits: "unat off + length (c_bytes n) \<le> length b" "wf_buffer (Some b) (unat (arena_size a))"
          using off [OF r] wa b by (simp_all add: wf_arena_def wf_buffer_def)
        have "wf_arena (Some (a\<lparr>arena_used := u, buffer := Some (write_bytes b (unat off) (c_bytes n))\<rparr>))"
          using u(2) wf_buffer_write [OF fits(2,1)] by (simp add: wf_arena_def)
        from wf_vm_arena [OF _ this, of s] show ?thesis
          using Some ar alloc u r b fits(1) s
          by (simp add: copy_name_def Let_def res_ok_def not_less [symmetric])
      qed
    qed
  qed
qed

lemma live_register:
  assumes adm: "admissible E (RegisterWord name code len)"
  shows "keeps live U (vm_register_word E name code len)"
proof (cases "code = None \<or> len \<le> 0")
  case True
  then show ?thesis by (auto simp: vm_register_word_def keeps_Ret_act split: option.split)
next
  case False
  then obtain c where c: "code = Some c" "0 < len" "len \<le> int (length c)"
    using adm by (cases code) (simp_all add: admissible_def)
  have "keeps wf_vm U (returning (register_word E name c len))"
    unfolding keeps_res_ok
  proof (intro allI impI)
    fix s :: "'a machine" assume wf: "wf_vm s"
    show "res_ok wf_vm U (returning (register_word E name c len) s)"
    proof (cases "word_count s \<ge> int V4_MAX_WORDS")
      case True
      then show ?thesis
        using keeps_D [OF keeps_panic_wf wf, of U E DictionaryFull, where 'b = int]
        by (cases "panic E DictionaryFull s :: ('a machine, int) res") (simp_all add: returning_def register_word_def res_ok_def)
    next
      case room: False
      have new: "wf_vm (t\<lparr>words := (words t)[nat (word_count t) := \<lparr>w_name = np, w_code = Some c, w_code_len = len\<rparr>],
          word_count := word_count t + 1\<rparr>)" if "wf_vm t" "word_count t < int V4_MAX_WORDS" for t :: "'a machine" and np
        using that c by (simp add: wf_vm_def wf_stacks_def wf_mem_def wf_dict_def nat_add_distrib take_Suc_update nat_less_iff wf_word_def)
      show ?thesis
        using keeps_D [OF keeps_copy_name [OF adm, of U], of s] wf room new
        by (cases "copy_name E name s") (simp_all add: returning_def register_word_def res_ok_def)
    qed
  qed
  then show ?thesis using c by (simp add: vm_register_word_def live_null_checked)
qed

section \<open>Sessions\<close>

lemma live_public: "(enable_tasks E \<Longrightarrow> keeps wf_vm U m) \<Longrightarrow> keeps live U (public_task E m)"
  by (cases "enable_tasks E") (simp_all add: public_task_def live_null_checked, simp add: keeps_live res_ok_def unavailable_def)

lemmas live_task_calls =
  keeps_task_init keeps_task_cleanup keeps_task_spawn keeps_task_exit keeps_task_sleep keeps_task_yield
  keeps_critical_enter keeps_critical_exit keeps_task_send keeps_task_receive keeps_receive_blocking

lemma live_receive:
  "keeps live (possible_ub E) (vm_task_receive E mt)" "keeps live (possible_ub E) (vm_task_receive_blocking E fuel mt ms)"
proof -
  have refused: "keeps live (possible_ub E) (\<lambda>vm. Ret (case vm of None \<Rightarrow> V4_ERR InvalidArg | Some s \<Rightarrow> V4_ERR UnknownOp, None) vm)"
    by (simp add: keeps_live res_ok_def)
  show "keeps live (possible_ub E) (vm_task_receive E mt)"
    unfolding vm_task_receive_def by (intro keeps_if live_null_checked keeps_task_receive refused)
  show "keeps live (possible_ub E) (vm_task_receive_blocking E fuel mt ms)"
    by (cases "enable_tasks E")
      (simp_all add: vm_task_receive_blocking_def live_null_checked keeps_receive_blocking refused)
qed

lemma wf_vm_preempted: "wf_vm s \<Longrightarrow> wf_vm (s\<lparr>scheduler := (scheduler s)\<lparr>preemptions := n\<rparr>\<rparr>)"
  by (simp add: wf_vm_def wf_stacks_def wf_mem_def wf_dict_def wf_sched_def)

lemma live_schedule:
  assumes "enable_tasks E"
  shows "keeps live (possible_ub E) (vm_schedule E)" "keeps live (possible_ub E) (vm_schedule_from_isr E)"
proof -
  have sch: "keeps wf_vm (possible_ub E) (schedule E)" using assms by (intro keeps_schedule) simp
  show "keeps live (possible_ub E) (vm_schedule E)" unfolding vm_schedule_def by (rule live_null_checked [OF sch])
  have "keeps wf_vm (possible_ub E) (\<lambda>s. if critical_nesting (scheduler s) > 0 then Ret (V4_ERR OK) s
         else schedule E (s\<lparr>scheduler := (scheduler s)\<lparr>preemptions := preemptions (scheduler s) + 1\<rparr>\<rparr>))"
    unfolding keeps_res_ok using keeps_D [OF sch wf_vm_preempted] by (auto simp: res_ok_def)
  then show "keeps live (possible_ub E) (vm_schedule_from_isr E)"
    unfolding vm_schedule_from_isr_def by (rule live_null_checked)
qed

lemma live_do_call:
  assumes sys: "sys_safe E" and adm: "admissible E c"
  shows "keeps live (possible_ub E) (do_call E fuel c)"
proof (cases c)
  case (RegisterWord name code len)
  then show ?thesis using adm by (simp add: keeps_ignoring live_register)
next
  case (Restore snap)
  then show ?thesis using adm by (simp add: keeps_ignoring live_restore)
next
  case (RegisterMmio ms count)
  then show ?thesis using adm by (simp add: keeps_ignoring live_register_mmio)
next
  case Schedule
  then show ?thesis using adm by (simp add: keeps_ignoring live_schedule admissible_def)
next
  case ScheduleFromIsr
  then show ?thesis using adm by (simp add: keeps_ignoring live_schedule admissible_def)
qed (simp_all add: keeps_ignoring live_pure live_resets live_stack_push live_ds_pop live_ds_snapshot live_mem_calls
    live_exec [OF sys] live_receive live_public live_task_calls vm_task_init_def vm_task_cleanup_def vm_task_spawn_def
    vm_task_exit_def vm_task_sleep_def vm_task_yield_def vm_task_critical_enter_def vm_task_critical_exit_def vm_task_send_def)

lemma live_session:
  assumes "sys_safe E" and "list_all (admissible E) cs"
  shows "keeps live (possible_ub E) (session E fuel cs)"
  using assms(2)
proof (induction cs)
  case (Cons c cs)
  then show ?case by (simp add: keeps_bnd live_do_call [OF assms(1)])
qed (simp add: keeps_Ret_act)

section \<open>How a call ends\<close>

text \<open>
  An error of a public function is its result: no call unwinds. Only a run of bytecode and a blocking receive
  can go on for ever; with \<open>b = False\<close> an action ends.
\<close>

definition coded :: "bool \<Rightarrow> ('s, 'a) act \<Rightarrow> bool" where
  "coded b m \<longleftrightarrow> (\<forall>s. (\<forall>e t. m s \<noteq> Fail e t) \<and> (m s = Timeout \<longrightarrow> b))"

definition settled :: "('s, 'a) act \<Rightarrow> bool" where
  "settled m \<longleftrightarrow> (\<forall>s. m s \<noteq> Timeout)"

lemma coded_basic:
  "coded b (Ret a)" "coded b (on_world f)" "b \<or> settled m \<Longrightarrow> coded b (code_of m)"
  "settled n \<Longrightarrow> coded b (returning n)"
  by (auto simp: coded_def settled_def on_world_def code_of_def returning_def split: prod.split res.split)

lemma coded_bnd: "coded b m \<Longrightarrow> (\<And>a. coded b (f a)) \<Longrightarrow> coded b (bnd m f)"
  by (auto simp: coded_def bnd_def split: res.split)

lemma coded_if: "(c \<Longrightarrow> coded b m) \<Longrightarrow> (\<not> c \<Longrightarrow> coded b n) \<Longrightarrow> coded b (if c then m else n)"
  by simp

lemma coded_ignoring: "coded b m \<Longrightarrow> coded b (ignoring m)"
  unfolding ignoring_def by (intro coded_bnd coded_basic)

lemma coded_null_checked: "coded b m \<Longrightarrow> coded b (null_checked d m)" "coded b m \<Longrightarrow> coded b (dereferenced m)"
  by (auto simp: coded_def null_checked_def dereferenced_def split: option.split res.split)

lemmas coded_intros = coded_basic coded_bnd coded_if coded_ignoring coded_null_checked

lemma settled_stack: "settled (ds_push E v)" "settled (ds_pop E)" "settled (panic E x)"
  by (simp_all add: settled_def ds_push_def ds_pop_def panic_def split: prod.split)

lemma settled_restore:
  "settled (\<lambda>s. if snap_depth sn > 256 then panic E StackOverflow s
        else (let s1 = s\<lparr>sp := 0\<rparr> in
          case snap_data sn of
            None \<Rightarrow> Ret () s1
          | Some data \<Rightarrow>
              if snap_depth sn > 0 then
                (if snap_depth sn > int (length data) then Undef OutOfBounds
                 else Ret () (s1\<lparr>DS := blit data (nat (snap_depth sn)) (DS s), sp := nat (snap_depth sn)\<rparr>))
              else Ret () s1))"
  using settled_stack(3) [of E StackOverflow, where 'b = unit]
  by (simp add: settled_def Let_def split: option.split)

lemma settled_register: "settled (register_word E name c len)"
proof -
  have p: "panic E x s \<noteq> (Timeout :: ('a machine, 'b) res)" for x and s :: "'a machine"
    by (simp add: panic_def split: prod.split)
  have "settled (copy_name E name)"
    by (auto simp: settled_def copy_name_def Let_def bnd_def on_world_def p split: option.split prod.split)
  then show ?thesis
    using settled_stack(3) [of E DictionaryFull, where 'b = int]
    by (simp add: settled_def register_word_def bnd_def split: res.split)
qed

lemma coded_schedule: "coded b (schedule E)"
proof -
  have "coded b save_current" by (simp add: coded_def save_current_def Let_def split: sum.split)
  moreover have "coded b (v4_task_restore_context t)" for t
    by (simp add: coded_def v4_task_restore_context_def split: sum.split)
  then have "coded b (switch_to i)" for i
    by (auto simp: coded_def switch_to_def Let_def bnd_def split: res.split)
  moreover have "coded b (v4_task_select_next E)"
    unfolding v4_task_select_next_def by (intro coded_bnd coded_basic) (simp add: coded_def Let_def split: prod.split)
  ultimately show ?thesis unfolding schedule_def by (intro coded_bnd)
qed

lemma coded_tasks:
  "coded b (task_yield E)" "coded b (task_exit E)" "coded b (task_sleep E ms)" "coded b (task_send d mt x)"
  "coded b (task_receive mt)" "coded b (task_critical_enter E)" "coded b (task_critical_exit E)" "coded b (task_init ms)"
  "coded b task_cleanup"
proof -
  have sch: "coded b (bnd (schedule E) (\<lambda>_. Ret c))" for c :: v4_err by (intro coded_bnd coded_schedule coded_basic)
  show "coded b (task_yield E)" unfolding task_yield_def by (rule sch)
  show "coded b (task_exit E)" using sch by (simp add: coded_def task_exit_def Let_def)
  show "coded b (task_sleep E ms)" unfolding task_sleep_def Let_def
    by (intro coded_bnd coded_basic) (use sch in \<open>simp add: coded_def\<close>)
qed (simp_all add: coded_def task_send_def task_receive_def task_critical_enter_def task_critical_exit_def task_init_def
    task_cleanup_def Let_def split: prod.split option.split)

lemma coded_spawn: "coded b (task_spawn E w p d r)"
  by (simp add: coded_def task_spawn_def Let_def bnd_def on_world_def split: option.split prod.split)

lemma coded_receive: "coded True (task_receive_blocking E fuel mt ms)"
proof -
  have "coded True (receive_loop E mt ms start fuel)" for start
  proof (induction fuel)
    case (Suc fuel)
    then show ?case unfolding receive_loop.simps by (intro coded_bnd coded_if coded_basic coded_tasks)
  qed (simp add: coded_def)
  then show ?thesis unfolding task_receive_blocking_def by (intro coded_bnd coded_basic)
qed

lemma coded_memory: "coded b (vm_mem_read32 addr out)" "coded b (vm_mem_write32 addr v)"
proof -
  have "coded b (v4_mem_read32_core addr out)" "coded b (v4_mem_write32_core addr v)"
    by (auto simp: coded_def v4_mem_read32_core_def v4_mem_write32_core_def Let_def split: option.split prod.split)
  then show "coded b (vm_mem_read32 addr out)" "coded b (vm_mem_write32 addr v)"
    by (auto simp: coded_def vm_mem_read32_def vm_mem_write32_def bnd_def split: res.split prod.split)
qed

lemma coded_stack: "coded b (vm_ds_pop E out)" "coded b (vm_ds_snapshot E)" "coded b (vm_register_mmio ms n)"
proof -
  show "coded b (vm_ds_pop E out)" unfolding vm_ds_pop_def
    by (intro coded_null_checked) (use settled_stack(2) in \<open>auto simp: coded_def settled_def split: res.split\<close>)
  show "coded b (vm_register_mmio ms n)"
    by (simp add: coded_def vm_register_mmio_def split: option.split prod.split)
  show "coded b (vm_ds_snapshot E)" unfolding vm_ds_snapshot_def
    by (intro coded_null_checked) (simp add: coded_def Let_def bnd_def on_world_def split: prod.split)
qed

lemma coded_public: "coded b m \<Longrightarrow> coded b (public_task E m)"
  unfolding public_task_def by (intro coded_if coded_null_checked) (simp_all add: coded_def unavailable_def)

lemma coded_restore: "coded b (vm_ds_restore E snap)"
proof (cases snap)
  case (Some sn)
  then show ?thesis
    unfolding vm_ds_restore_def by (simp only: option.case) (intro coded_null_checked coded_basic disjI2 settled_restore)
qed (simp add: vm_ds_restore_def coded_basic)

lemma coded_register: "coded b (vm_register_word E name code len)"
  by (cases code) (simp_all add: vm_register_word_def coded_intros settled_register)

lemma coded_exec: "coded True (vm_exec E fuel w)"
proof -
  have "coded True (vm_exec_raw E fuel bc len)" for bc len
    unfolding vm_exec_raw_def by (intro coded_bnd coded_basic) (simp_all add: coded_def entry_assert_def)
  then show ?thesis
    by (cases w; cases "w_code (the w)") (simp_all add: vm_exec_def coded_intros)
qed

definition looping :: "'d api_call \<Rightarrow> bool" where
  "looping c = (case c of Exec _ \<Rightarrow> True | TaskReceiveBlocking _ _ \<Rightarrow> True | _ \<Rightarrow> False)"

lemma coded_do_call: "coded (looping c) (do_call E fuel c)"
proof (cases c)
  case (Exec idx)
  then show ?thesis
    using coded_ignoring [OF coded_exec [of E fuel]] by (simp add: coded_def looping_def)
next
  case (TaskReceive mt)
  have "coded b (vm_task_receive E mt)" for b
    unfolding vm_task_receive_def by (intro coded_if coded_null_checked coded_tasks) (simp add: coded_def)
  then show ?thesis using TaskReceive by (simp add: coded_intros)
next
  case (TaskReceiveBlocking mt ms)
  have "coded True (vm_task_receive_blocking E fuel mt ms)"
    unfolding vm_task_receive_blocking_def by (intro coded_if coded_null_checked coded_receive) (simp add: coded_def)
  then show ?thesis using TaskReceiveBlocking by (simp add: coded_intros looping_def)
next
  case ScheduleFromIsr
  have "coded b (vm_schedule_from_isr E)" for b
    unfolding vm_schedule_from_isr_def by (intro coded_null_checked) (use coded_schedule [of b E] in \<open>simp add: coded_def\<close>)
  then show ?thesis using ScheduleFromIsr by (simp add: coded_intros)
qed (simp_all add: coded_intros coded_tasks coded_spawn coded_memory coded_stack coded_public coded_schedule
    coded_restore coded_register settled_stack
    vm_ds_push_def vm_schedule_def vm_task_init_def vm_task_cleanup_def vm_task_spawn_def vm_task_exit_def vm_task_sleep_def
    vm_task_yield_def vm_task_critical_enter_def vm_task_critical_exit_def vm_task_send_def,
    simp_all add: coded_def)

lemma coded_session: "coded (list_ex looping cs) (session E fuel cs)"
proof (induction cs)
  case (Cons c cs)
  have weaker: "coded (b \<or> d) m" if "coded b m \<or> coded d m" for b d and m :: "('a machine option, unit) act"
    using that by (auto simp: coded_def)
  show ?case using Cons coded_do_call [of c E fuel] by (simp add: coded_bnd weaker)
qed (simp add: coded_basic)

section \<open>The property\<close>

text \<open>C7: from a machine created with a valid configuration, any sequence of calls of the public functions
  by a client whose buffers are as long as it says leaves a well-formed machine: no call unwinds, only
  a run of bytecode or a blocking receive can fail to return, and the only undefined behaviour is the one
  bytecode can cause.
\<close>
theorem api_session_safe:
  assumes "wf_config c" and "vm_create E n (Some c) w = Ret (Some s) w1"
    and "sys_safe E" and "list_all (admissible E) cs"
  shows "case session E fuel cs (Some s) of
      Ret _ vm \<Rightarrow> (case vm of None \<Rightarrow> False | Some t \<Rightarrow> wf_vm t)
    | Fail e vm \<Rightarrow> False
    | Undef u \<Rightarrow> u \<in> possible_ub E
    | Timeout \<Rightarrow> list_ex looping cs"
proof -
  have "wf_vm s" by (rule create_outcome [OF assms(1), of E n w]) (use assms(2) in auto)
  then have "res_ok live (possible_ub E) (session E fuel cs (Some s))"
    by (intro keeps_D [OF live_session [OF assms(3,4)]]) simp
  then show ?thesis
    using coded_session [of cs E fuel]
    by (cases "session E fuel cs (Some s)") (auto simp: coded_def res_ok_def live_def)
qed

text \<open>Two words with one name, a snapshot, a task that is started, scheduled and gone, and calls that are refused.\<close>

definition sample_calls :: "nat api_call list" where
  "sample_calls = [RegisterWord (Some ''A'') (Some [0x51]) 1, RegisterWord (Some ''A'') (Some [0x01, 0x51]) 2, DsPush 7, Snapshot,
     Restore (Some \<lparr>snap_data = Some [1, 2], snap_depth = 2\<rparr>), Restore None, TaskInit 0, TaskSpawn 1 5 0 0, Schedule, TaskYield,
     TaskExit, MemWrite 0 5, MemRead 0xFFFFFFFF 0, RegisterMmio None 1, ResetDictionary, Reset]"

definition sample_config :: "nat VmConfig" where
  "sample_config = \<lparr>cfg_mem = Some [1, 2, 3, 4], cfg_mem_size = 4, cfg_mmio = None, cfg_mmio_count = 0,
     cfg_arena = Some sample_arena\<rparr>"

theorem api_session_safe_witness:
  "\<exists>s. vm_create sample_env 8000 (Some sample_config) 0 = Ret (Some s) 0 \<and>
    (case session sample_env 3 sample_calls (Some s) of
      Ret _ vm \<Rightarrow> (case vm of None \<Rightarrow> False | Some t \<Rightarrow> wf_vm t)
    | Fail e vm \<Rightarrow> False
    | Undef u \<Rightarrow> u \<in> possible_ub sample_env
    | Timeout \<Rightarrow> False)"
proof -
  have wf: "wf_config sample_config"
    by (simp add: sample_config_def wf_config_def wf_buffer_def wf_arena_def sample_arena_def)
  obtain s where s: "vm_create sample_env 8000 (Some sample_config) 0 = Ret (Some s) 0"
    by (rule create_outcome [OF wf, of sample_env 8000 0]) auto
  have adm: "list_all (admissible sample_env) sample_calls" by (simp add: sample_calls_def admissible_def c_str_def)
  have none: "list_ex looping sample_calls = False" by (simp add: sample_calls_def looping_def)
  have "sys_safe sample_env" by (simp add: sys_safe_def)
  from api_session_safe [OF wf s this adm, of 3] s show ?thesis by (auto simp only: none)
qed


end
