(* ===== verification/Spec2Isabelle.thy ===== *)
theory Spec2Isabelle
  imports V4_Exec_Props V4_Run_Props V4_Typing_Props V4_Short_Forms V4_Structured_Props V4_Call_Props
    V4_Task_Props V4_Hal_Props V4_Freertos_Props V4_Bare_Metal_Props V4_Api
begin

text \<open>
  A verification library for the V4 engine, a virtual machine in C++17 that runs the bytecode of a Forth
  dialect on small boards. This header says how the theories correspond to the code, what their lemmas
  show, and what is left out.

  \<^bold>\<open>The program.\<close> A \<open>Vm\<close> has a data stack of 256 and a return stack of 64 cells of 32 bits, a byte-addressed RAM of
  the embedder with memory-mapped windows over it, a dictionary of at most 256 words, a table of 8 tasks with
  a scheduler, and a queue of 16 messages. \<^verbatim>\<open>vm_exec_raw\<close> (\<^verbatim>\<open>src/core.cpp\<close>) interprets one word; CALL recurses on the
  host's stack. Errors are negative codes passed on by early returns, most of them through \<^verbatim>\<open>vm_panic\<close>, which
  reports the state of the stacks. Tasks are switched by copying the stacks into a task's own blocks and back.

  \<^bold>\<open>How code is modelled.\<close> A function is an action \<open>('s, 'a) act\<close> on its state: it returns a value (\<open>Ret\<close>), passes an
  error code on (\<open>Fail\<close>), has undefined behaviour (\<open>Undef\<close> with the reason: the build has no \<^verbatim>\<open>-fwrapv\<close>), or is out
  of fuel (\<open>Timeout\<close>, no statement about the code). A null pointer is \<open>None\<close>, a pointer into a buffer an offset, a
  buffer the list of its bytes. Code outside the repository (callbacks, \<^verbatim>\<open>malloc\<close>, the tick, the driver behind
  \<^verbatim>\<open>hal.h\<close>, the FreeRTOS kernel) is a field of a record the definitions take as argument, and acts on a state of
  an arbitrary type.

  \<^bold>\<open>Theories and sources.\<close>
  \<^item> \<open>V4_Prelude\<close>: machine integers, outcomes, sequencing, the predicate \<open>keeps\<close> with its collection \<open>keeps_intros\<close>.
  \<^item> \<open>V4_Errors\<close> (\<^verbatim>\<open>errors.def\<close>, \<^verbatim>\<open>errors.hpp\<close>), \<open>V4_Opcodes\<close> (\<^verbatim>\<open>opcodes.def\<close>, \<^verbatim>\<open>opcodes.hpp\<close>), \<open>V4_Arena\<close> (\<^verbatim>\<open>arena.cpp\<close>).
  \<^item> \<open>V4_State\<close>: the structures of \<^verbatim>\<open>internal/vm.h\<close>, \<^verbatim>\<open>internal/task.hpp\<close>, \<^verbatim>\<open>vm_api.h\<close>, \<^verbatim>\<open>panic.h\<close> as records, and the
    invariant \<open>wf_vm\<close>. \<open>V4_Panic\<close> (\<^verbatim>\<open>panic.cpp\<close>).
  \<^item> \<open>V4_Stack\<close> (\<^verbatim>\<open>core.cpp\<close>: stacks, inspection, snapshots; locale \<open>bounded_stack\<close>, interpreted on both stacks),
    \<open>V4_Memory\<close> (\<^verbatim>\<open>memory.cpp\<close>: RAM and windows; locale \<open>byte_codec\<close>, interpreted on the three widths).
  \<^item> \<open>V4_Dictionary\<close> (\<^verbatim>\<open>core.cpp\<close>, \<^verbatim>\<open>memory.cpp\<close>: creation, registration, lookup; locale \<open>name_table\<close>).
  \<^item> \<open>V4_Messages\<close>, \<open>V4_Scheduler\<close>, \<open>V4_Tasks\<close> (\<^verbatim>\<open>task_backend_custom.cpp\<close>, \<^verbatim>\<open>scheduler.cpp\<close>, \<^verbatim>\<open>task.cpp\<close>, \<^verbatim>\<open>message.cpp\<close>,
    \<^verbatim>\<open>task_disabled.cpp\<close>), \<open>V4_Task_Steps\<close>: the task subsystem as a step relation with its invariant.
  \<^item> \<open>V4_Instr\<close>: a definition per instruction; \<open>V4_Interp\<close>: dispatch, loop, \<open>vm_exec_raw\<close>, \<open>vm_exec\<close> (\<^verbatim>\<open>core.cpp\<close>).
  \<^item> \<open>V4_Runs\<close>: control flow, fuel, termination of layered code, frames of called words. \<open>V4_Effects\<close>: the stack
    effects of instructions. \<open>V4_Refine\<close>: an abstract stack machine on lists, and its encoding as bytecode.
  \<^item> \<open>V4_Short_Forms\<close>: programs assembled with the compact forms of literals and locals against the long forms.
  \<^item> \<open>V4_Structured\<close>: structured Forth (literals, the ALU and return-stack instructions, \<open>IF\<close>, \<open>UNTIL\<close>, \<open>WHILE\<close>, calls) with a
    natural semantics \<open>evals\<close> on the two stacks, a compiler to bytecode, and: what the semantics derives, the
    interpreter does. \<open>V4_Nonzero\<close>: failures carry nonzero codes, so that code 0 means success. \<open>V4_Structured_Exact\<close>:
    the converse, by induction on the fuel; \<open>V4_Structured_Props\<close>: both for words of the dictionary.
  \<^item> \<open>V4_Call_Props\<close>: errors of called words end all callers.
  \<^item> \<open>V4_Typing\<close>, \<open>V4_Typing_Props\<close>: the stack comments of Forth as types. A word has a signature (cells taken, cells
    left, locals used); a dictionary is typed when each word checks against its signature, jumps included.
  \<^item> \<open>V4_Api\<close>: sessions, sequences of calls of the public functions of \<^verbatim>\<open>vm_api.h\<close>, \<^verbatim>\<open>task.h\<close> and \<^verbatim>\<open>scheduler.h\<close>.
  \<^item> \<open>V4_Hal\<close> (\<^verbatim>\<open>hal_wrapper.cpp\<close>; locale \<open>uart_driver\<close>), \<open>V4_Mock_Hal\<close> (\<^verbatim>\<open>tests/mock_hal.cpp\<close>, the driver in the
    repository, on which the locale is interpreted). \<open>V4_Mock_Platform\<close> (\<^verbatim>\<open>tests/mock_task_platform.cpp\<close>, the platform
    callbacks in the repository; locale \<open>counting_platform\<close>).
  \<^item> \<open>V4_Bare_Metal\<close> (\<^verbatim>\<open>bare-metal/riscv32/main.c\<close>, \<^verbatim>\<open>main_simple.c\<close>, \<^verbatim>\<open>uart.h\<close>): clients of the engine. Their stack
    arrays start with arbitrary contents, which are parameters.
  \<^item> \<open>V4_Freertos\<close> (\<^verbatim>\<open>task_backend_freertos.cpp\<close>).
  \<^item> The properties: \<open>V4_Data_Props\<close> (codes, arena, stacks, memory, dictionary), \<open>V4_Exec_Props\<close> (instructions),
    \<open>V4_Run_Props\<close> (the interpreter), \<open>V4_Task_Props\<close>, \<open>V4_Hal_Props\<close>, \<open>V4_Freertos_Props\<close>, \<open>V4_Bare_Metal_Props\<close>.

  \<^bold>\<open>What is shown.\<close> Refinement: the interpreter runs encoded programs as the abstract stack
  machine does; the arena's bit arithmetic takes the least aligned offset; the message ring is a list. Safety:
  every run from a well-formed machine ends well-formed with a code, or in one of a named few kinds of undefined
  behaviour; no memory access is one of them. The same holds of every session of calls of the public functions
  by a client whose buffers are as long as it says. Types: a word that checks against its signature never
  underflows a stack or leaves its frame. Equivalence: the long and the compact encoding of a program have one
  result, and a compiled word of structured Forth succeeds with exactly the stacks of its natural semantics.
  Invariants: \<open>wf_vm\<close> for all operations, one running task in every reachable state, the handle
  table of the HAL wrapper knows every port the driver has open (and has no others until a system reset is made
  with a port open). Termination: code whose jumps go forward and whose calls go to earlier words ends within a
  computed fuel, while a word that calls itself never ends. Fairness: a ready task of the highest priority is
  passed over at most seven times in a row. The functional behaviour of operations on their branches, errors
  included, and round trips of memory, dictionary, stacks, locals, printed numbers and context switches.
  \<open>main\<close> of the bare-metal program, given memory, runs its two words and returns 0. Several
  theorems show where the code does not do what it means to: a message delivered twice, stacks lost by sleeping,
  a yield after which the word of the old task goes on running on the stacks of the new one, the last task
  revived by its exit, the 8-bit counters that wrap, the arena request that wraps, handles that outlive a reset,
  slots lost by failed spawns.

  \<^bold>\<open>Fuel.\<close> \<open>exec_loop\<close> and \<open>vm_exec_raw\<close> take fuel, which bounds the instructions and calls along a
  chain of nested calls (a called word gets what its caller has left). More fuel never changes an outcome that
  was reached (\<open>exec_raw_more\<close>), and \<open>fuel_bound\<close> gives enough for layered code. The loop of the
  blocking receive has fuel because the code's loop has no bound of its own.

  \<^bold>\<open>Not modelled.\<close> Tests, build files, the size tools, the assembly start-up file and linker
  script of the RISC-V port; platform headers that only declare callbacks; the capability query and the GPIO
  interrupts of \<^verbatim>\<open>hal.h\<close>, which the engine does not call. In the FreeRTOS backend,
  preemption inside the backend's own functions is not modelled, only what other tasks do inside calls of the
  kernel. The engine is sequential otherwise; an interrupt is a step between calls.
\<close>

end
